(* ===== verification/Go_Prelude.thy ===== *)
theory Go_Prelude
  imports Main "HOL-Library.Word" "HOL-Library.List_Lexorder" "HOL-Library.Char_ord"
begin

text \<open>
  Shared vocabulary of the development.  A Go \<^verbatim>\<open>string\<close> and a Go \<^verbatim>\<open>[]byte\<close> are both
  sequences of bytes; they are the type \<open>string\<close> (a list of 8-bit characters), and
  \<^verbatim>\<open><\<close> on strings is the bytewise lexicographic order Go uses.  This theory holds the
  part of the packages \<^verbatim>\<open>strings\<close> and \<^verbatim>\<open>encoding/binary\<close> the sources call, with the facts the
  component theories share: prefixes and separators, and the fixed-width integer encodings
  with their decoders.
\<close>

named_theorems go_string \<open>characterisations of the operations of Go's strings package\<close>
named_theorems go_codec \<open>lengths and round trips of the fixed-width integer encodings\<close>

type_synonym byte = char
type_synonym bytes = string

section \<open>Strings\<close>

fun HasPrefix :: "string \<Rightarrow> string \<Rightarrow> bool" where
  "HasPrefix s [] = True"
| "HasPrefix [] (p # ps) = False"
| "HasPrefix (c # s) (p # ps) = (c = p \<and> HasPrefix s ps)"

definition HasSuffix :: "string \<Rightarrow> string \<Rightarrow> bool" where
  "HasSuffix s p = HasPrefix (rev s) (rev p)"

definition TrimPrefix :: "string \<Rightarrow> string \<Rightarrow> string" where
  "TrimPrefix s p = (if HasPrefix s p then drop (length p) s else s)"

definition TrimSuffix :: "string \<Rightarrow> string \<Rightarrow> string" where
  "TrimSuffix s p = (if HasSuffix s p then take (length s - length p) s else s)"

text \<open>\<^verbatim>\<open>strings.Contains\<close>.\<close>

fun Contains :: "string \<Rightarrow> string \<Rightarrow> bool" where
  "Contains [] p = (p = [])"
| "Contains (c # s) p = (HasPrefix (c # s) p \<or> Contains s p)"

text \<open>
  \<^verbatim>\<open>strings.Cut\<close> at a one-byte separator: the part before its first occurrence, the part
  after it, and whether it occurs.
\<close>

fun Cut :: "string \<Rightarrow> char \<Rightarrow> string \<times> string \<times> bool" where
  "Cut [] c = ([], [], False)"
| "Cut (x # s) c =
     (if x = c then ([], s, True)
      else case Cut s c of (a, b, ok) \<Rightarrow> (x # a, b, ok))"

text \<open>\<^verbatim>\<open>strings.IndexByte\<close>, with \<open>None\<close> for Go's \<open>-1\<close>.\<close>

fun IndexByte :: "string \<Rightarrow> char \<Rightarrow> nat option" where
  "IndexByte [] c = None"
| "IndexByte (x # s) c = (if x = c then Some 0 else map_option Suc (IndexByte s c))"

text \<open>\<^verbatim>\<open>strings.LastIndexAny\<close> for a set of one-byte characters, \<open>None\<close> for \<open>-1\<close>.\<close>

fun LastIndexAny :: "string \<Rightarrow> char list \<Rightarrow> nat option" where
  "LastIndexAny [] cs = None"
| "LastIndexAny (x # s) cs =
     (case LastIndexAny s cs of
        Some i \<Rightarrow> Some (Suc i)
      | None \<Rightarrow> (if x \<in> set cs then Some 0 else None))"

text \<open>\<^verbatim>\<open>strings.Split\<close> at a one-byte separator: never the empty list.\<close>

fun Split :: "string \<Rightarrow> char \<Rightarrow> string list" where
  "Split [] c = [[]]"
| "Split (x # s) c =
     (if x = c then [] # Split s c
      else case Split s c of
             [] \<Rightarrow> [[x]]
           | w # ws \<Rightarrow> (x # w) # ws)"

fun join :: "char \<Rightarrow> string list \<Rightarrow> string" where
  "join c [] = []"
| "join c [w] = w"
| "join c (w # ws) = w @ c # join c ws"

text \<open>
  \<^verbatim>\<open>strings.Fields\<close> on ASCII text: the maximal runs of bytes that are not white space.
\<close>

definition is_space :: "char \<Rightarrow> bool" where
  "is_space c = (c \<in> {CHR '' '', CHR 0x09, CHR 0x0A, CHR 0x0B, CHR 0x0C, CHR 0x0D})"

fun fields_aux :: "string \<Rightarrow> string \<Rightarrow> string list" where
  "fields_aux [] w = (if w = [] then [] else [rev w])"
| "fields_aux (c # s) w =
     (if is_space c
      then (if w = [] then fields_aux s [] else rev w # fields_aux s [])
      else fields_aux s (c # w))"

definition Fields :: "string \<Rightarrow> string list" where
  "Fields s = fields_aux s []"

text \<open>ASCII case folding: \<^verbatim>\<open>strings.ToLower\<close> on ASCII text.\<close>

definition lower_char :: "char \<Rightarrow> char" where
  "lower_char c =
     (let n = of_char c :: nat in if 65 \<le> n \<and> n \<le> 90 then char_of (n + 32) else c)"

definition ToLower :: "string \<Rightarrow> string" where
  "ToLower s = map lower_char s"

lemma HasPrefix_iff [go_string]: "HasPrefix s p \<longleftrightarrow> (\<exists>t. s = p @ t)"
  by (induction s p rule: HasPrefix.induct) auto

lemma HasPrefix_append [simp]: "HasPrefix (p @ t) p"
  by (auto simp: HasPrefix_iff)

lemma HasPrefix_refl [simp]: "HasPrefix p p"
  by (auto simp: HasPrefix_iff)

lemma HasPrefix_length: "HasPrefix s p \<Longrightarrow> length p \<le> length s"
  by (auto simp: HasPrefix_iff)

lemma HasPrefix_take: "HasPrefix s p \<longleftrightarrow> take (length p) s = p"
  by (metis HasPrefix_append HasPrefix_iff append_eq_conv_conj append_take_drop_id)

lemma HasPrefix_split: "HasPrefix s p \<Longrightarrow> s = p @ drop (length p) s"
  by (auto simp: HasPrefix_iff)

lemma HasSuffix_iff [go_string]: "HasSuffix s p \<longleftrightarrow> (\<exists>t. s = t @ p)"
proof -
  have "(\<exists>t. rev s = rev p @ t) \<longleftrightarrow> (\<exists>t. s = t @ p)"
    by (metis rev_append rev_rev_ident)
  then show ?thesis by (simp add: HasSuffix_def HasPrefix_iff)
qed

lemma TrimPrefix_append [simp]: "TrimPrefix (p @ s) p = s"
  by (simp add: TrimPrefix_def)

lemma TrimSuffix_append [simp]: "TrimSuffix (s @ p) p = s"
  by (auto simp: TrimSuffix_def HasSuffix_iff)

lemma Contains_iff [go_string]: "Contains s p \<longleftrightarrow> (\<exists>a b. s = a @ p @ b)"
proof (induction s)
  case Nil
  then show ?case by auto
next
  case (Cons c s)
  have "(\<exists>a b. c # s = a @ p @ b) \<longleftrightarrow>
        (\<exists>b. c # s = p @ b) \<or> (\<exists>a b. s = a @ p @ b)"
    by (metis append_Cons append_Nil list.exhaust list.inject)
  then show ?case using Cons by (simp add: HasPrefix_iff)
qed

lemma Cut_append [go_string]:
  "c \<notin> set a \<Longrightarrow> Cut (a @ c # b) c = (a, b, True)"
  by (induction a) auto

lemma Cut_absent [go_string]: "c \<notin> set s \<Longrightarrow> Cut s c = (s, [], False)"
  by (induction s) auto

lemma Cut_found:
  "Cut s c = (a, b, True) \<Longrightarrow> s = a @ c # b \<and> c \<notin> set a"
  by (induction s arbitrary: a) (auto split: if_splits prod.splits)

lemma Cut_fst_no_sep: "c \<notin> set (fst (Cut s c))"
  by (induction s) (auto split: prod.splits)

lemma IndexByte_Some:
  "IndexByte s c = Some i \<Longrightarrow>
     i < length s \<and> s = take i s @ c # drop (Suc i) s \<and> c \<notin> set (take i s)"
  by (induction s arbitrary: i) (auto split: if_splits)

lemma IndexByte_None: "IndexByte s c = None \<longleftrightarrow> c \<notin> set s"
  by (induction s) auto

lemma IndexByte_append:
  "c \<notin> set a \<Longrightarrow> IndexByte (a @ c # b) c = Some (length a)"
  by (induction a) auto

lemma Split_not_Nil [simp]: "Split s c \<noteq> []"
  by (induction s) (auto split: list.splits)

lemma join_Split [simp]: "join c (Split s c) = s"
proof (induction s)
  case Nil
  then show ?case by simp
next
  case (Cons x s)
  then show ?case
    by (cases "Split s c") (auto, metis join.simps(2) join.simps(3) list.exhaust append_Cons)
qed

lemma Split_no_sep: "w \<in> set (Split s c) \<Longrightarrow> c \<notin> set w"
proof (induction s arbitrary: w)
  case Nil
  then show ?case by simp
next
  case (Cons x s)
  then show ?case by (cases "Split s c") (auto split: if_splits)
qed

lemma Split_single: "c \<notin> set w \<Longrightarrow> Split w c = [w]"
  by (induction w) auto

lemma Split_append:
  "c \<notin> set w \<Longrightarrow> Split (w @ c # s) c = w # Split s c"
  by (induction w) auto

lemma Split_join:
  "ws \<noteq> [] \<Longrightarrow> \<forall>w \<in> set ws. c \<notin> set w \<Longrightarrow> Split (join c ws) c = ws"
  by (induction c ws rule: join.induct) (auto simp: Split_single Split_append)

lemma Split_snoc: "Split (s @ [c]) c = Split s c @ [[]]"
proof (induction s)
  case (Cons x s)
  then show ?case by (cases "Split s c") auto
qed simp

section \<open>Fixed-width integer encodings\<close>

text \<open>
  \<open>le_enc k n\<close> are the \<open>k\<close> low bytes of \<open>n\<close>, least significant first:
  \<^verbatim>\<open>binary.LittleEndian.PutUint16/32/64\<close> are \<open>le_enc 2/4/8\<close> of the word's value, and the
  big-endian forms are the reversed lists.
\<close>

fun le_enc :: "nat \<Rightarrow> nat \<Rightarrow> bytes" where
  "le_enc 0 n = []"
| "le_enc (Suc k) n = char_of n # le_enc k (n div 256)"

fun le_dec :: "bytes \<Rightarrow> nat" where
  "le_dec [] = 0"
| "le_dec (b # bs) = of_char b + 256 * le_dec bs"

definition be_enc :: "nat \<Rightarrow> nat \<Rightarrow> bytes" where
  "be_enc k n = rev (le_enc k n)"

definition be_dec :: "bytes \<Rightarrow> nat" where
  "be_dec bs = le_dec (rev bs)"

definition PutUint16 :: "16 word \<Rightarrow> bytes" where "PutUint16 w = le_enc 2 (unat w)"
definition PutUint32 :: "32 word \<Rightarrow> bytes" where "PutUint32 w = le_enc 4 (unat w)"
definition PutUint64 :: "64 word \<Rightarrow> bytes" where "PutUint64 w = le_enc 8 (unat w)"

definition GetUint16 :: "bytes \<Rightarrow> 16 word" where "GetUint16 bs = of_nat (le_dec (take 2 bs))"
definition GetUint32 :: "bytes \<Rightarrow> 32 word" where "GetUint32 bs = of_nat (le_dec (take 4 bs))"
definition GetUint64 :: "bytes \<Rightarrow> 64 word" where "GetUint64 bs = of_nat (le_dec (take 8 bs))"

definition BEPutUint32 :: "32 word \<Rightarrow> bytes" where "BEPutUint32 w = be_enc 4 (unat w)"
definition BEPutUint64 :: "64 word \<Rightarrow> bytes" where "BEPutUint64 w = be_enc 8 (unat w)"

lemma length_le_enc [simp, go_codec]: "length (le_enc k n) = k"
  by (induction k arbitrary: n) auto

lemma length_be_enc [simp, go_codec]: "length (be_enc k n) = k"
  by (simp add: be_enc_def)

lemma le_dec_enc [go_codec]: "le_dec (le_enc k n) = n mod 256 ^ k"
proof (induction k arbitrary: n)
  case 0
  then show ?case by simp
next
  case (Suc k)
  have "n mod 256 + 256 * (n div 256 mod 256 ^ k) = n mod (256 * 256 ^ k)"
    by (simp add: mod_mult2_eq)
  then show ?case by (simp add: Suc)
qed

lemma be_dec_enc [go_codec]: "be_dec (be_enc k n) = n mod 256 ^ k"
  by (simp add: be_dec_def be_enc_def le_dec_enc)

lemma le_enc_inject:
  "le_enc k m = le_enc k n \<Longrightarrow> m < 256 ^ k \<Longrightarrow> n < 256 ^ k \<Longrightarrow> m = n"
  by (metis le_dec_enc mod_less)

lemma be_enc_inject:
  "be_enc k m = be_enc k n \<Longrightarrow> m < 256 ^ k \<Longrightarrow> n < 256 ^ k \<Longrightarrow> m = n"
  by (metis be_dec_enc mod_less)

lemma length_PutUint [simp, go_codec]:
  "length (PutUint16 a) = 2" "length (PutUint32 b) = 4" "length (PutUint64 d) = 8"
  "length (BEPutUint32 b) = 4" "length (BEPutUint64 d) = 8"
  by (simp_all add: PutUint16_def PutUint32_def PutUint64_def BEPutUint32_def BEPutUint64_def)

lemma unat_lt_256_pow:
  "unat (a :: 16 word) < 256 ^ 2" "unat (b :: 32 word) < 256 ^ 4" "unat (d :: 64 word) < 256 ^ 8"
  using unsigned_less [of a] unsigned_less [of b] unsigned_less [of d] by simp_all

lemma GetUint_Put [simp, go_codec]:
  "GetUint16 (PutUint16 a @ r) = a"
  "GetUint32 (PutUint32 b @ r) = b"
  "GetUint64 (PutUint64 d @ r) = d"
  using unat_lt_256_pow(1) [of a] unat_lt_256_pow(2) [of b] unat_lt_256_pow(3) [of d]
  by (simp_all add: GetUint16_def PutUint16_def GetUint32_def PutUint32_def
      GetUint64_def PutUint64_def le_dec_enc)

lemma drop_PutUint [simp, go_codec]:
  "drop 2 (PutUint16 a @ r) = r" "drop 4 (PutUint32 b @ r) = r" "drop 8 (PutUint64 d @ r) = r"
  by simp_all

lemma PutUint_inject [simp]:
  "PutUint16 a = PutUint16 a' \<longleftrightarrow> a = a'"
  "PutUint32 b = PutUint32 b' \<longleftrightarrow> b = b'"
  "PutUint64 d = PutUint64 d' \<longleftrightarrow> d = d'"
  using GetUint_Put [where r = "[]"] by (metis append_Nil2)+

lemma unat_of_nat_less:
  "n < 2 ^ 16 \<Longrightarrow> unat (of_nat n :: 16 word) = n"
  "n < 2 ^ 32 \<Longrightarrow> unat (of_nat n :: 32 word) = n"
  "n < 2 ^ 64 \<Longrightarrow> unat (of_nat n :: 64 word) = n"
  by (simp_all add: unat_of_nat take_bit_nat_eq_self_iff)

section \<open>Generic list facts\<close>

lemma append_eq_same_length:
  "xs @ ys = us @ vs \<Longrightarrow> length xs = length us \<Longrightarrow> xs = us \<and> ys = vs"
  by simp

lemma sum_list_prefix_mono:
  "sum_list (map f (take i xs)) \<le> (sum_list (map f xs) :: nat)"
  by (metis append_take_drop_id le_add1 map_append sum_list.append)

text \<open>Sequencing of fallible operations: \<open>Inl\<close> is the error return of Go.\<close>

definition ebind :: "'e + 'a \<Rightarrow> ('a \<Rightarrow> 'e + 'b) \<Rightarrow> 'e + 'b" where
  "ebind m f = (case m of Inl e \<Rightarrow> Inl e | Inr a \<Rightarrow> f a)"

lemma ebind_simps [simp]: "ebind (Inl e) f = Inl e" "ebind (Inr a) f = f a"
  by (simp_all add: ebind_def)

lemma ebind_Inr_conv: "ebind m f = Inr b \<longleftrightarrow> (\<exists>a. m = Inr a \<and> f a = Inr b)"
  by (cases m) auto

lemma ebind_Inl_conv:
  "ebind m f = Inl e \<longleftrightarrow> m = Inl e \<or> (\<exists>a. m = Inr a \<and> f a = Inl e)"
  by (cases m) auto

end
