(* ===== verification/Squash_Meta.thy ===== *)
theory Squash_Meta
  imports Go_Prelude
begin

text \<open>
  The byte-level layer of the squashfs image writer (\<^verbatim>\<open>src/squashfs\<close>): format constants and
  errors (\<^verbatim>\<open>format.go\<close>, \<^verbatim>\<open>errors.go\<close>), the pluggable compressors (\<^verbatim>\<open>compressor.go\<close>), and the
  metadata-block stream (\<^verbatim>\<open>metadata.go\<close>) into which the inode table, the directory table and
  the id table are packed.  The lemmas show that a stream keeps its block-size invariant,
  loses and reorders nothing, and that a record written at a captured reference is read back
  from the emitted bytes at the reference's on-disk position.
\<close>

unbundle bit_operations_syntax

section \<open>Constants and errors (format.go, errors.go)\<close>

definition Magic :: "32 word" where "Magic = 0x73717368"
definition VersionMajor :: "16 word" where "VersionMajor = 4"
definition VersionMinor :: "16 word" where "VersionMinor = 0"
definition MinBlockSize :: "32 word" where "MinBlockSize = 4 * 1024"
definition MaxBlockSize :: "32 word" where "MaxBlockSize = 1024 * 1024"
definition DefaultBlockSize :: "32 word" where "DefaultBlockSize = 128 * 1024"
definition MetadataBlockSize :: "32 word" where "MetadataBlockSize = 8 * 1024"
definition CompressorGzip :: "16 word" where "CompressorGzip = 1"
definition FlagNoFragments :: "16 word" where "FlagNoFragments = push_bit 4 1"
definition FlagNoXattrs :: "16 word" where "FlagNoXattrs = push_bit 9 1"
definition FlagCompressorOptions :: "16 word" where "FlagCompressorOptions = push_bit 10 1"
definition DataBlockUncompressedBit :: "32 word" where "DataBlockUncompressedBit = push_bit 24 1"
definition MetadataUncompressedBit :: "16 word" where "MetadataUncompressedBit = push_bit 15 1"
definition InvalidFragment :: "32 word" where "InvalidFragment = 0xFFFFFFFF"

definition InodeBasicDir :: "16 word" where "InodeBasicDir = 1"
definition InodeBasicFile :: "16 word" where "InodeBasicFile = 2"
definition InodeBasicSymlink :: "16 word" where "InodeBasicSymlink = 3"
definition InodeBasicBlock :: "16 word" where "InodeBasicBlock = 4"
definition InodeBasicChar :: "16 word" where "InodeBasicChar = 5"
definition InodeBasicFIFO :: "16 word" where "InodeBasicFIFO = 6"
definition InodeBasicSocket :: "16 word" where "InodeBasicSocket = 7"

text \<open>
  The sentinel errors of \<^verbatim>\<open>errors.go\<close>; \<open>EMsg\<close> is an \<^verbatim>\<open>errors.New\<close> with its text, \<open>EComp\<close> an
  error of the compression library, \<open>EWrite\<close> an error of the output file, \<open>EPanic\<close> a run-time
  panic (slice bounds), \<open>EDiverge\<close> a loop that never ends.
\<close>

datatype sq_err =
    ErrIncompressible
  | ErrClosed
  | ErrInvalidPath
  | ErrHardlinkTarget
  | ErrStaleEntry
  | EMsg string
  | EComp string
  | EWrite
  | EPanic
  | EDiverge

section \<open>The output\<close>

text \<open>
  An \<^verbatim>\<open>io.Writer\<close> is a parameter: given the bytes already written and the next chunk it
  either accepts the chunk (\<open>None\<close>) or accepts a prefix of the given length and reports an
  error (\<^verbatim>\<open>io.Writer\<close>: a short write returns a non-nil error).
\<close>

type_synonym sink = "bytes \<Rightarrow> bytes \<Rightarrow> nat option"

definition io_Write :: "sink \<Rightarrow> bytes \<Rightarrow> bytes \<Rightarrow> bytes \<times> nat \<times> sq_err option" where
  "io_Write wr out p =
     (case wr out p of
        None \<Rightarrow> (out @ p, length p, None)
      | Some n \<Rightarrow> (out @ take n p, length (take n p), Some EWrite))"

definition no_fail :: sink where
  "no_fail out p = None"

lemma io_Write_ok:
  "io_Write wr out p = (out', n, None) \<Longrightarrow> out' = out @ p \<and> n = length p"
  by (auto simp: io_Write_def split: option.splits)

lemma io_Write_count:
  "io_Write wr out p = (out', n, e) \<Longrightarrow> length out' = length out + n"
  by (auto simp: io_Write_def split: option.splits)

lemma io_Write_no_fail [simp]: "io_Write no_fail out p = (out @ p, length p, None)"
  by (simp add: io_Write_def no_fail_def)

section \<open>Compressors (compressor.go)\<close>

text \<open>
  The \<^verbatim>\<open>Compressor\<close> interface.  \<open>Compress dst src\<close> returns the extended slice and an optional
  error.
\<close>

record Compressor =
  comp_ID :: "16 word"
  comp_Options :: bytes
  Compress :: "bytes \<Rightarrow> bytes \<Rightarrow> bytes \<times> sq_err option"

definition StoredCompressor :: Compressor where
  "StoredCompressor =
     \<lparr> comp_ID = CompressorGzip, comp_Options = [],
       Compress = (\<lambda>dst src. (dst, Some ErrIncompressible)) \<rparr>"

text \<open>
  \<^verbatim>\<open>GzipCompressor.Compress\<close>.  The standard library's zlib stream writer is the parameter
  \<open>zlib\<close>: level and source to the stream, or the error it reports.
\<close>

definition DefaultCompression :: int where "DefaultCompression = -1"

definition GzipCompressor_Compress ::
  "(int \<Rightarrow> bytes \<Rightarrow> string + bytes) \<Rightarrow> int \<Rightarrow> bytes \<Rightarrow> bytes \<Rightarrow> bytes \<times> sq_err option" where
  "GzipCompressor_Compress zlib Level dst src =
     (let level = (if Level = 0 then DefaultCompression else Level)
      in case zlib level src of
           Inl msg \<Rightarrow> (dst, Some (EComp msg))
         | Inr out \<Rightarrow> (if length out \<ge> length src then (dst, Some ErrIncompressible)
                        else (out, None)))"

definition GzipCompressor :: "(int \<Rightarrow> bytes \<Rightarrow> string + bytes) \<Rightarrow> int \<Rightarrow> Compressor" where
  "GzipCompressor zlib Level =
     \<lparr> comp_ID = CompressorGzip, comp_Options = [],
       Compress = GzipCompressor_Compress zlib Level \<rparr>"

section \<open>The metadata-block stream (metadata.go)\<close>

record metaRef =
  blockIdx :: nat
  ref_offset :: "16 word"

record metaBlock =
  mb_data :: bytes
  mb_uncompressed :: bool
  mb_uncompressedSize :: "16 word"

text \<open>
  \<^verbatim>\<open>metaWriter\<close> without \<^verbatim>\<open>compressBuf\<close>, the allocation the compressor's \<^verbatim>\<open>dst\<close> reuses: it is
  always passed truncated to length zero.
\<close>

record metaWriter =
  mw_comp :: Compressor
  mw_cur :: bytes
  mw_blocks :: "metaBlock list"

definition newMetaWriter :: "Compressor \<Rightarrow> metaWriter" where
  "newMetaWriter c = \<lparr> mw_comp = c, mw_cur = [], mw_blocks = [] \<rparr>"

definition metaWriter_Ref :: "metaWriter \<Rightarrow> metaRef" where
  "metaWriter_Ref m =
     \<lparr> blockIdx = length (mw_blocks m), ref_offset = of_nat (length (mw_cur m)) \<rparr>"

definition sealCurrent :: "metaWriter \<Rightarrow> metaWriter \<times> sq_err option" where
  "sealCurrent m =
     (if length (mw_cur m) = 0 then (m, None)
      else
        let origSize = of_nat (length (mw_cur m));
            (out, err) = Compress (mw_comp m) [] (mw_cur m)
        in if err \<noteq> None \<and> err \<noteq> Some ErrIncompressible then (m, err)
           else
             let block =
                   (if err = Some ErrIncompressible \<or> length out \<ge> length (mw_cur m)
                    then \<lparr> mb_data = mw_cur m, mb_uncompressed = True,
                           mb_uncompressedSize = origSize \<rparr>
                    else \<lparr> mb_data = out, mb_uncompressed = False,
                           mb_uncompressedSize = origSize \<rparr>)
             in (m\<lparr> mw_blocks := mw_blocks m @ [block], mw_cur := [] \<rparr>, None))"

lemma unat_MetadataBlockSize [simp]: "unat MetadataBlockSize = 8192"
  by (simp add: MetadataBlockSize_def)

lemma sealCurrent_cur: "sealCurrent m = (m', None) \<Longrightarrow> mw_cur m' = []"
  by (auto simp: sealCurrent_def Let_def split: if_splits prod.splits)

text \<open>
  The loop of \<^verbatim>\<open>metaWriter.Write\<close>.  An open block above the block size would make the
  slice bound \<^verbatim>\<open>p[:n]\<close> negative, a panic; the invariant below excludes it.
\<close>

function metaWriter_Write_loop ::
  "metaWriter \<Rightarrow> bytes \<Rightarrow> nat \<Rightarrow> metaWriter \<times> nat \<times> sq_err option" where
  "metaWriter_Write_loop m p written =
     (if length p = 0 then (m, written, None)
      else if length (mw_cur m) > unat MetadataBlockSize then (m, written, Some EPanic)
      else
        let free = unat MetadataBlockSize - length (mw_cur m);
            n = (if length p > free then free else length p);
            m1 = m\<lparr> mw_cur := mw_cur m @ take n p \<rparr>;
            written1 = written + n;
            p1 = drop n p
        in if length (mw_cur m1) = unat MetadataBlockSize
           then (case sealCurrent m1 of
                   (m2, Some e) \<Rightarrow> (m2, written1, Some e)
                 | (m2, None) \<Rightarrow> metaWriter_Write_loop m2 p1 written1)
           else metaWriter_Write_loop m1 p1 written1)"
  by pat_completeness auto
termination
  by (relation "measure (\<lambda>(m, p, _). 2 * length p + (if length (mw_cur m) = 8192 then 1 else 0))")
     (auto dest!: sealCurrent_cur[OF sym] sealCurrent_cur split: if_splits)

declare metaWriter_Write_loop.simps [simp del]

definition metaWriter_Write :: "metaWriter \<Rightarrow> bytes \<Rightarrow> metaWriter \<times> nat \<times> sq_err option" where
  "metaWriter_Write m p = metaWriter_Write_loop m p 0"

definition metaWriter_Flush :: "metaWriter \<Rightarrow> metaWriter \<times> sq_err option" where
  "metaWriter_Flush m = sealCurrent m"

fun offset_sum :: "metaBlock list \<Rightarrow> nat \<Rightarrow> 64 word \<Rightarrow> 64 word" where
  "offset_sum bs 0 off = off"
| "offset_sum [] (Suc k) off = off"
| "offset_sum (b # bs) (Suc k) off = offset_sum bs k (off + (2 + of_nat (length (mb_data b))))"

definition metaWriter_Resolve :: "metaWriter \<Rightarrow> metaRef \<Rightarrow> 64 word" where
  "metaWriter_Resolve m r = offset_sum (mw_blocks m) (blockIdx r) 0 + ucast (ref_offset r)"

definition BlockByteOffset :: "metaWriter \<Rightarrow> nat \<Rightarrow> 64 word" where
  "BlockByteOffset m k = offset_sum (mw_blocks m) k 0"

definition block_header :: "metaBlock \<Rightarrow> 16 word" where
  "block_header b =
     (let size = of_nat (length (mb_data b)) in
      if mb_uncompressed b then size OR MetadataUncompressedBit else size)"

fun emit_blocks ::
  "sink \<Rightarrow> bytes \<Rightarrow> metaBlock list \<Rightarrow> 64 word \<Rightarrow> bytes \<times> 64 word \<times> sq_err option" where
  "emit_blocks wr out [] tot = (out, tot, None)"
| "emit_blocks wr out (b # bs) tot =
     (if (of_nat (length (mb_data b)) :: 32 word) > MetadataBlockSize
      then (out, tot, Some (EMsg ''squashfs: metadata block exceeds 8KiB on-disk size''))
      else case io_Write wr out (PutUint16 (block_header b)) of
             (out1, n1, Some e) \<Rightarrow> (out1, tot + of_nat n1, Some e)
           | (out1, n1, None) \<Rightarrow>
               (case io_Write wr out1 (mb_data b) of
                  (out2, n2, Some e) \<Rightarrow> (out2, tot + of_nat n1 + of_nat n2, Some e)
                | (out2, n2, None) \<Rightarrow> emit_blocks wr out2 bs (tot + of_nat n1 + of_nat n2)))"

definition metaWriter_EmitTo ::
  "metaWriter \<Rightarrow> sink \<Rightarrow> bytes \<Rightarrow> bytes \<times> 64 word \<times> sq_err option" where
  "metaWriter_EmitTo m wr out = emit_blocks wr out (mw_blocks m) 0"

definition metaRef_encode :: "metaRef \<Rightarrow> 64 word \<Rightarrow> 64 word" where
  "metaRef_encode r blockByteOffset = push_bit 16 blockByteOffset OR ucast (ref_offset r)"

section \<open>Reader of a metadata-block stream\<close>

text \<open>
  The format's reader, the specification the writer is checked against: a sequence of blocks,
  each a 16-bit header (bit 15: stored raw; low 15 bits: size) and its payload, a payload not
  stored raw going through the decompressor \<open>dec\<close>.
\<close>

function read_meta :: "(bytes \<Rightarrow> bytes) \<Rightarrow> bytes \<Rightarrow> bytes" where
  "read_meta dec bs =
     (if length bs < 2 then []
      else let h = GetUint16 bs;
               n = unat (h AND 0x7FFF);
               payload = take n (drop 2 bs)
           in (if bit h 15 then payload else dec payload) @ read_meta dec (drop (2 + n) bs))"
  by pat_completeness auto
termination
  by (relation "measure (\<lambda>(_, bs). length bs)") auto

declare read_meta.simps [simp del]

definition read_block :: "(bytes \<Rightarrow> bytes) \<Rightarrow> bytes \<Rightarrow> bytes" where
  "read_block dec bs =
     (let h = GetUint16 bs; payload = take (unat (h AND 0x7FFF)) (drop 2 bs)
      in if bit h 15 then payload else dec payload)"

definition block_content :: "(bytes \<Rightarrow> bytes) \<Rightarrow> metaBlock \<Rightarrow> bytes" where
  "block_content dec b = (if mb_uncompressed b then mb_data b else dec (mb_data b))"

definition meta_stream :: "(bytes \<Rightarrow> bytes) \<Rightarrow> metaWriter \<Rightarrow> bytes" where
  "meta_stream dec m = concat (map (block_content dec) (mw_blocks m)) @ mw_cur m"

definition block_bytes :: "metaBlock \<Rightarrow> bytes" where
  "block_bytes b = PutUint16 (block_header b) @ mb_data b"

definition block_ok :: "metaBlock \<Rightarrow> bool" where
  "block_ok b =
     (0 < unat (mb_uncompressedSize b) \<and> unat (mb_uncompressedSize b) \<le> 8192 \<and>
      (if mb_uncompressed b then length (mb_data b) = unat (mb_uncompressedSize b)
       else length (mb_data b) < unat (mb_uncompressedSize b)))"

definition meta_inv :: "metaWriter \<Rightarrow> bool" where
  "meta_inv m = (length (mw_cur m) < 8192 \<and> list_all block_ok (mw_blocks m))"

text \<open>A history of operations on one stream, stopping at the first error.\<close>

datatype meta_op = MWrite bytes | MFlush

fun meta_run :: "metaWriter \<Rightarrow> meta_op list \<Rightarrow> sq_err + metaWriter" where
  "meta_run m [] = Inr m"
| "meta_run m (MWrite p # ops) =
     (case metaWriter_Write m p of
        (m', _, Some e) \<Rightarrow> Inl e
      | (m', _, None) \<Rightarrow> meta_run m' ops)"
| "meta_run m (MFlush # ops) =
     (case metaWriter_Flush m of
        (m', Some e) \<Rightarrow> Inl e
      | (m', None) \<Rightarrow> meta_run m' ops)"

fun meta_payload :: "meta_op list \<Rightarrow> bytes" where
  "meta_payload [] = []"
| "meta_payload (MWrite p # ops) = p @ meta_payload ops"
| "meta_payload (MFlush # ops) = meta_payload ops"

section \<open>Invariant and progress of the stream\<close>

lemma unat_of_nat16: "n \<le> 8192 \<Longrightarrow> unat (of_nat n :: 16 word) = n"
  by (simp add: unat_of_nat take_bit_nat_eq_self_iff)

lemma sealCurrent_inv:
  assumes "length (mw_cur m) \<le> 8192" "list_all block_ok (mw_blocks m)"
    and "sealCurrent m = (m', None)"
  shows "meta_inv m'"
  using assms
  by (auto simp: sealCurrent_def Let_def meta_inv_def block_ok_def unat_of_nat16
      split: if_splits prod.splits)

lemma sealCurrent_comp: "sealCurrent m = (m', e) \<Longrightarrow> mw_comp m' = mw_comp m"
  by (auto simp: sealCurrent_def Let_def split: if_splits prod.splits)

text \<open>
  Induction along an error-free \<^verbatim>\<open>Write\<close>: nothing left, a chunk that fills and seals the open
  block, or a last chunk that leaves the block open.
\<close>

lemma Write_loop_induct [consumes 2, case_names empty seal more]:
  assumes "metaWriter_Write_loop m p w = (m', n, None)" and "meta_inv m"
    and empty: "\<And>m w. meta_inv m \<Longrightarrow> P m [] w m w"
    and seal: "\<And>m a b w m2 m' n. meta_inv m \<Longrightarrow> length (mw_cur m) + length a = 8192 \<Longrightarrow>
        sealCurrent (m\<lparr> mw_cur := mw_cur m @ a \<rparr>) = (m2, None) \<Longrightarrow> meta_inv m2 \<Longrightarrow>
        P m2 b (w + length a) m' n \<Longrightarrow> P m (a @ b) w m' n"
    and more: "\<And>m a w m' n. meta_inv m \<Longrightarrow> length (mw_cur m) + length a < 8192 \<Longrightarrow>
        P (m\<lparr> mw_cur := mw_cur m @ a \<rparr>) [] (w + length a) m' n \<Longrightarrow> P m a w m' n"
  shows "P m p w m' n"
  using assms(1,2)
proof (induction m p w rule: metaWriter_Write_loop.induct)
  case (1 m p w)
  have cur: "length (mw_cur m) < 8192" using 1(4) by (simp add: meta_inv_def)
  define k where "k = (if length p > 8192 - length (mw_cur m) then 8192 - length (mw_cur m) else length p)"
  define m1 where "m1 = m\<lparr> mw_cur := mw_cur m @ take k p \<rparr>"
  have step: "p \<noteq> [] \<Longrightarrow> metaWriter_Write_loop m p w =
      (if length (mw_cur m1) = 8192
       then (case sealCurrent m1 of (m2, Some e) \<Rightarrow> (m2, w + k, Some e)
             | (m2, None) \<Rightarrow> metaWriter_Write_loop m2 (drop k p) (w + k))
       else metaWriter_Write_loop m1 (drop k p) (w + k))"
    unfolding metaWriter_Write_loop.simps [of m p w] using cur by (simp add: Let_def k_def m1_def)
  have IH1: "p \<noteq> [] \<Longrightarrow> length (mw_cur m1) = 8192 \<Longrightarrow> sealCurrent m1 = (m2, None) \<Longrightarrow>
      metaWriter_Write_loop m2 (drop k p) (w + k) = (m', n, None) \<Longrightarrow> meta_inv m2 \<Longrightarrow>
      P m2 (drop k p) (w + k) m' n" for m2
    using 1(1) cur by (simp add: Let_def k_def m1_def)
  have IH2: "p \<noteq> [] \<Longrightarrow> length (mw_cur m1) \<noteq> 8192 \<Longrightarrow>
      metaWriter_Write_loop m1 (drop k p) (w + k) = (m', n, None) \<Longrightarrow> meta_inv m1 \<Longrightarrow>
      P m1 (drop k p) (w + k) m' n"
    using 1(2) cur by (simp add: Let_def k_def m1_def)
  have len: "length (mw_cur m1) = length (mw_cur m) + length (take k p)" by (simp add: m1_def)
  have blocks: "list_all block_ok (mw_blocks m1)" using 1(4) by (simp add: m1_def meta_inv_def)
  have lk: "length (take k p) = k" by (simp add: k_def)
  consider "p = []" | "p \<noteq> []" "length (mw_cur m1) = 8192"
    | "p \<noteq> []" "length (mw_cur m1) < 8192" "k = length p"
    using cur len lk by (cases "p = []"; cases "length p > 8192 - length (mw_cur m)";
        cases "length (mw_cur m1) = 8192") (simp_all add: k_def)
  then show ?case
  proof cases
    case nil: 1
    then have "m' = m" "n = w"
      using 1(3) by (simp_all add: metaWriter_Write_loop.simps [of m "[]" w])
    then show ?thesis using empty [OF 1(4), of w] nil by simp
  next
    case 2
    then obtain m2 where sealed: "sealCurrent m1 = (m2, None)"
      and rest: "metaWriter_Write_loop m2 (drop k p) (w + k) = (m', n, None)"
      using 1(3) step by (auto split: prod.splits option.splits)
    have inv2: "meta_inv m2" using sealCurrent_inv [OF _ blocks sealed] 2 by simp
    have "P m (take k p @ drop k p) w m' n"
      by (rule seal [OF 1(4)]) (use 2 len lk sealed inv2 IH1 rest in \<open>simp_all add: m1_def\<close>)
    then show ?thesis by simp
  next
    case 3
    have inv1: "meta_inv m1" using 3 blocks by (simp add: meta_inv_def)
    have "P m1 (drop k p) (w + k) m' n" using IH2 3 inv1 1(3) step by simp
    then show ?thesis
      using more [of m p w m' n] 1(4) 3 len lk by (simp add: m1_def)
  qed
qed

lemma metaWriter_Write_inv:
  assumes "metaWriter_Write m p = (m', n, None)" "meta_inv m"
  shows "meta_inv m' \<and> n = length p \<and> mw_comp m' = mw_comp m"
proof -
  have "meta_inv m' \<and> n = w + length p \<and> mw_comp m' = mw_comp m"
    if "metaWriter_Write_loop m p w = (m', n, None)" for w
    using that assms(2)
    by (induction m p w m' n rule: Write_loop_induct) (auto dest: sealCurrent_comp)
  from this [of 0] show ?thesis using assms(1) by (simp add: metaWriter_Write_def)
qed

lemma metaWriter_Flush_inv:
  assumes "metaWriter_Flush m = (m', None)" "meta_inv m"
  shows "meta_inv m' \<and> mw_cur m' = [] \<and> mw_comp m' = mw_comp m"
  using assms sealCurrent_inv [of m m'] sealCurrent_cur [of m m'] sealCurrent_comp [of m m' None]
  by (auto simp: metaWriter_Flush_def meta_inv_def)

lemma meta_inv_new [simp]: "meta_inv (newMetaWriter c)"
  by (simp add: meta_inv_def newMetaWriter_def)

lemma meta_run_WriteE:
  assumes "meta_run m (MWrite p # ops) = Inr m'"
  obtains m1 n where "metaWriter_Write m p = (m1, n, None)" "meta_run m1 ops = Inr m'"
  using assms by (cases "metaWriter_Write m p") (auto split: option.splits)

lemma meta_run_FlushE:
  assumes "meta_run m (MFlush # ops) = Inr m'"
  obtains m1 where "metaWriter_Flush m = (m1, None)" "meta_run m1 ops = Inr m'"
  using assms by (cases "metaWriter_Flush m") (auto split: option.splits)

lemma meta_run_induct [consumes 2, case_names Nil Write Flush]:
  assumes "meta_run m ops = Inr m'" "meta_inv m"
    and "\<And>m. meta_inv m \<Longrightarrow> P m [] m"
    and "\<And>m p m1 n ops m'. meta_inv m \<Longrightarrow> metaWriter_Write m p = (m1, n, None) \<Longrightarrow> meta_inv m1 \<Longrightarrow>
           P m1 ops m' \<Longrightarrow> P m (MWrite p # ops) m'"
    and "\<And>m m1 ops m'. meta_inv m \<Longrightarrow> metaWriter_Flush m = (m1, None) \<Longrightarrow> meta_inv m1 \<Longrightarrow>
           P m1 ops m' \<Longrightarrow> P m (MFlush # ops) m'"
  shows "P m ops m'"
  using assms(1,2)
proof (induction ops arbitrary: m)
  case Nil
  then show ?case using assms(3) by simp
next
  case (Cons op ops)
  show ?case
  proof (cases op)
    case (MWrite p)
    then obtain m1 n where w: "metaWriter_Write m p = (m1, n, None)" "meta_run m1 ops = Inr m'"
      using Cons.prems meta_run_WriteE by blast
    then have "meta_inv m1" using metaWriter_Write_inv Cons.prems by blast
    then show ?thesis using MWrite assms(4) w Cons by blast
  next
    case MFlush
    then obtain m1 where w: "metaWriter_Flush m = (m1, None)" "meta_run m1 ops = Inr m'"
      using Cons.prems meta_run_FlushE by blast
    then have "meta_inv m1" using metaWriter_Flush_inv Cons.prems by blast
    then show ?thesis using MFlush assms(5) w Cons by blast
  qed
qed

lemma meta_run_inv:
  "meta_run m ops = Inr m' \<Longrightarrow> meta_inv m \<Longrightarrow> meta_inv m' \<and> mw_comp m' = mw_comp m"
  by (induction m ops m' rule: meta_run_induct)
     (simp_all add: metaWriter_Write_inv metaWriter_Flush_inv)

lemma meta_run_append:
  "meta_run m (xs @ ys) = ebind (meta_run m xs) (\<lambda>m'. meta_run m' ys)"
proof (induction xs arbitrary: m)
  case (Cons op xs)
  then show ?case
    by (cases op) (simp_all split: prod.split option.split)
qed simp

lemma meta_run_closed:
  assumes "meta_run m (ops @ [MFlush]) = Inr m'"
  shows "mw_cur m' = []"
proof -
  obtain m1 where "meta_run m1 [MFlush] = Inr m'"
    using assms by (auto simp: meta_run_append ebind_Inr_conv)
  then show ?thesis
    using sealCurrent_cur by (elim meta_run_FlushE) (auto simp: metaWriter_Flush_def)
qed

lemma metaWriter_Write_fits:
  assumes "length (mw_cur m) + length p < 8192"
  shows "metaWriter_Write m p = (m\<lparr> mw_cur := mw_cur m @ p \<rparr>, length p, None)"
proof (cases "p = []")
  case True
  then show ?thesis by (simp add: metaWriter_Write_def metaWriter_Write_loop.simps [of m "[]" 0])
next
  case False
  have fit: "\<not> 8192 - length (mw_cur m) < length p" "\<not> length (mw_cur m) > 8192"
    using assms by arith+
  show ?thesis
    using assms False unfolding metaWriter_Write_def metaWriter_Write_loop.simps [of m p 0]
    by (simp add: Let_def fit metaWriter_Write_loop.simps [of _ "[]" "length p"])
qed

section \<open>Emission\<close>

lemma block_ok_length: "block_ok b \<Longrightarrow> length (mb_data b) \<le> 8192"
  by (auto simp: block_ok_def split: if_splits)

lemma block_header_size:
  assumes "length (mb_data b) \<le> 8192"
  shows "unat (block_header b AND 0x7FFF) = length (mb_data b)"
proof -
  have m: "(0x7FFF :: 16 word) = mask 15" by (simp add: mask_eq_exp_minus_1)
  have "block_header b AND 0x7FFF = take_bit 15 (of_nat (length (mb_data b)))"
    unfolding m take_bit_eq_mask [symmetric]
    by (simp add: block_header_def Let_def MetadataUncompressedBit_def)
  then show ?thesis using assms
    by (simp add: unsigned_take_bit_eq unat_of_nat16 take_bit_nat_eq_self_iff)
qed

lemma bit_nat_iff_small: "n < 2 ^ k \<Longrightarrow> \<not> bit (n :: nat) k"
  by (simp add: bit_iff_odd)

lemma block_header_raw:
  assumes "length (mb_data b) \<le> 8192"
  shows "bit (block_header b) 15 = mb_uncompressed b"
proof -
  have "\<not> bit (of_nat (length (mb_data b)) :: 16 word) 15"
    using assms bit_nat_iff_small [of "length (mb_data b)" 15] by (simp add: bit_of_nat_iff)
  then show ?thesis
    by (simp add: block_header_def Let_def MetadataUncompressedBit_def bit_or_iff bit_push_bit_iff)
qed

lemma emit_blocks_ok:
  "emit_blocks wr out bs tot = (out', tot', None) \<Longrightarrow>
     out' = out @ concat (map block_bytes bs) \<and>
     tot' = tot + of_nat (length (concat (map block_bytes bs)))"
proof (induction bs arbitrary: out tot)
  case (Cons b bs)
  obtain o1 n1 o2 n2 where w: "io_Write wr out (PutUint16 (block_header b)) = (o1, n1, None)"
    "io_Write wr o1 (mb_data b) = (o2, n2, None)"
    and rest: "emit_blocks wr o2 bs (tot + of_nat n1 + of_nat n2) = (out', tot', None)"
    using Cons.prems by (auto split: if_splits prod.splits option.splits)
  show ?case
    using Cons.IH [OF rest] io_Write_ok [OF w(1)] io_Write_ok [OF w(2)]
    by (simp add: block_bytes_def)
qed simp

lemma emit_blocks_no_fail:
  "list_all block_ok bs \<Longrightarrow> \<exists>out' tot'. emit_blocks no_fail out bs tot = (out', tot', None)"
proof (induction bs arbitrary: out tot)
  case (Cons b bs)
  have "\<not> (of_nat (length (mb_data b)) :: 32 word) > MetadataBlockSize"
    using Cons.prems block_ok_length [of b]
    by (simp add: word_less_nat_alt unat_of_nat take_bit_nat_eq_self_iff)
  then show ?case using Cons by simp
qed simp

lemma read_meta_blocks:
  "list_all block_ok bs \<Longrightarrow>
     read_meta dec (concat (map block_bytes bs)) = concat (map (block_content dec) bs)"
proof (induction bs)
  case Nil
  then show ?case by (simp add: read_meta.simps)
next
  case (Cons b bs)
  have len: "length (mb_data b) \<le> 8192" using Cons.prems block_ok_length by simp
  have "read_meta dec (block_bytes b @ r) = block_content dec b @ read_meta dec r" for r
    unfolding read_meta.simps [of dec "block_bytes b @ r"]
    using block_header_size [OF len] block_header_raw [OF len]
    by (simp add: block_bytes_def block_content_def Let_def)
  then show ?case using Cons by simp
qed

lemma read_block_bytes:
  "block_ok b \<Longrightarrow> read_block dec (block_bytes b @ r) = block_content dec b"
  using block_header_size [of b] block_header_raw [of b] block_ok_length [of b]
  by (simp add: read_block_def block_bytes_def block_content_def Let_def)

lemma offset_sum_eq:
  "offset_sum bs k off = off + of_nat (length (concat (map block_bytes (take k bs))))"
  by (induction bs k off rule: offset_sum.induct) (simp_all add: block_bytes_def)

section \<open>Content: the compressor contract\<close>

text \<open>
  What the stream relies on from a compressor: whenever it returns a shorter output without
  error, the format's decompressor restores the source.
\<close>

locale squash_codec =
  fixes comp :: Compressor and dec :: "bytes \<Rightarrow> bytes"
  assumes restores: "Compress comp [] src = (out, None) \<Longrightarrow> length out < length src \<Longrightarrow> dec out = src"
begin

text \<open>\<open>meta_adv m m' p\<close>: the blocks of \<open>m\<close> are kept, and what follows them gained exactly \<open>p\<close>.\<close>

definition meta_adv :: "metaWriter \<Rightarrow> metaWriter \<Rightarrow> bytes \<Rightarrow> bool" where
  "meta_adv m m' p \<longleftrightarrow>
     (\<exists>bs. mw_blocks m' = mw_blocks m @ bs \<and>
           concat (map (block_content dec) bs) @ mw_cur m' = mw_cur m @ p)"

lemma meta_adv_refl: "meta_adv m m []"
  by (auto simp: meta_adv_def)

lemma meta_adv_trans: "meta_adv a b p \<Longrightarrow> meta_adv b c q \<Longrightarrow> meta_adv a c (p @ q)"
  unfolding meta_adv_def
proof (elim exE conjE)
  fix bs cs
  assume b: "mw_blocks b = mw_blocks a @ bs"
    "concat (map (block_content dec) bs) @ mw_cur b = mw_cur a @ p"
    and c: "mw_blocks c = mw_blocks b @ cs"
    "concat (map (block_content dec) cs) @ mw_cur c = mw_cur b @ q"
  have "concat (map (block_content dec) (bs @ cs)) @ mw_cur c =
      (concat (map (block_content dec) bs) @ mw_cur b) @ q"
    using c(2) by simp
  then show "\<exists>bs. mw_blocks c = mw_blocks a @ bs \<and>
      concat (map (block_content dec) bs) @ mw_cur c = mw_cur a @ p @ q"
    using b c(1) by (intro exI [of _ "bs @ cs"]) simp
qed

lemma meta_adv_stream: "meta_adv m m' p \<Longrightarrow> meta_stream dec m' = meta_stream dec m @ p"
  by (auto simp: meta_adv_def meta_stream_def)

lemma sealCurrent_block:
  assumes "sealCurrent m = (m', None)" "mw_comp m = comp" "mw_cur m \<noteq> []"
  shows "\<exists>b. mw_blocks m' = mw_blocks m @ [b] \<and> block_content dec b = mw_cur m \<and> mw_cur m' = []"
proof -
  obtain out err where c: "Compress comp [] (mw_cur m) = (out, err)" by (rule prod.exhaust)
  define b where "b = last (mw_blocks m')"
  have "mw_blocks m' = mw_blocks m @ [b] \<and> mw_cur m' = [] \<and> block_content dec b = mw_cur m"
    using assms c restores [of "mw_cur m" out]
    by (cases err) (simp_all add: sealCurrent_def Let_def block_content_def b_def split: if_splits;
        fastforce)+
  then show ?thesis by blast
qed

lemma sealCurrent_adv:
  assumes "sealCurrent m = (m', None)" "mw_comp m = comp"
  shows "meta_adv m m' []"
proof (cases "mw_cur m = []")
  case True
  then show ?thesis using assms meta_adv_refl by (simp add: sealCurrent_def)
next
  case False
  then obtain b where "mw_blocks m' = mw_blocks m @ [b]" "block_content dec b = mw_cur m"
    "mw_cur m' = []"
    using sealCurrent_block [OF assms] by blast
  then show ?thesis unfolding meta_adv_def by (intro exI [of _ "[b]"]) simp
qed

lemma metaWriter_Write_adv:
  assumes "metaWriter_Write m p = (m', n, None)" "meta_inv m" "mw_comp m = comp"
  shows "meta_adv m m' p"
proof -
  have "mw_comp m = comp \<longrightarrow> meta_adv m m' p"
    if "metaWriter_Write_loop m p w = (m', n, None)" for w
    using that assms(2)
  proof (induction m p w m' n rule: Write_loop_induct)
    case (empty m w)
    then show ?case by (simp add: meta_adv_refl)
  next
    case (seal m a b w m2 m' n)
    show ?case
    proof
      assume c: "mw_comp m = comp"
      have "meta_adv (m\<lparr> mw_cur := mw_cur m @ a \<rparr>) m2 []"
        using sealCurrent_adv [OF seal(3)] c by simp
      then have "meta_adv m m2 a" by (simp add: meta_adv_def)
      moreover have "meta_adv m2 m' b" using seal(5) sealCurrent_comp [OF seal(3)] c by simp
      ultimately show "meta_adv m m' (a @ b)" by (rule meta_adv_trans)
    qed
  next
    case (more m a w m' n)
    then show ?case by (simp add: meta_adv_def)
  qed
  then show ?thesis using assms(1,3) by (simp add: metaWriter_Write_def)
qed

lemma metaWriter_Write_open:
  assumes "metaWriter_Write m p = (m', n, None)" "length (mw_cur m) + length p < 8192"
  shows "m' = m\<lparr> mw_cur := mw_cur m @ p \<rparr>"
  using assms metaWriter_Write_fits by simp

lemma metaWriter_Write_fill:
  assumes "metaWriter_Write m p = (m', n, None)" "length (mw_cur m) + length p = 8192" "p \<noteq> []"
    and "mw_comp m = comp"
  shows "\<exists>b. mw_blocks m' = mw_blocks m @ [b] \<and> block_content dec b = mw_cur m @ p \<and> mw_cur m' = []"
proof -
  define m1 where "m1 = m\<lparr> mw_cur := mw_cur m @ p \<rparr>"
  have fit: "\<not> 8192 - length (mw_cur m) < length p" "\<not> length (mw_cur m) > 8192"
    using assms(2) by arith+
  have "sealCurrent m1 = (m', None)"
    using assms(1-3) unfolding metaWriter_Write_def metaWriter_Write_loop.simps [of m p 0]
    by (auto simp: Let_def fit m1_def metaWriter_Write_loop.simps [of _ "[]"] split: prod.splits option.splits)
  then show ?thesis
    using sealCurrent_block [of m1 m'] assms(3,4) by (simp add: m1_def)
qed

lemma meta_run_adv:
  assumes "meta_run m ops = Inr m'" "meta_inv m" "mw_comp m = comp"
  shows "meta_adv m m' (meta_payload ops)"
proof -
  have "mw_comp m = comp \<longrightarrow> meta_adv m m' (meta_payload ops)"
    using assms(1,2)
  proof (induction m ops m' rule: meta_run_induct)
    case (Nil m)
    then show ?case by (simp add: meta_adv_refl)
  next
    case (Write m p m1 n ops m')
    then show ?case
      using metaWriter_Write_adv metaWriter_Write_inv meta_adv_trans [of m m1 p m'] by simp
  next
    case (Flush m m1 ops m')
    then show ?case
      using sealCurrent_adv metaWriter_Flush_inv meta_adv_trans [of m m1 "[]" m']
      by (simp add: metaWriter_Flush_def)
  qed
  then show ?thesis using assms(3) by simp
qed

text \<open>
  A record written at a captured reference is found again: take the block the reference
  resolves to in the emitted bytes, decode from there, skip the in-block offset.
\<close>

lemma record_read_back:
  assumes m0: "meta_inv m0" "mw_comp m0 = comp"
    and run: "meta_run m0 (MWrite p # ops @ [MFlush]) = Inr m"
    and emit: "metaWriter_EmitTo m wr [] = (img, n, None)" "length img < 2 ^ 64"
  defines "r \<equiv> metaWriter_Ref m0"
  shows "take (length p) (drop (unat (ref_offset r))
           (read_meta dec (drop (unat (BlockByteOffset m (blockIdx r))) img))) = p"
proof -
  obtain bs where bs: "mw_blocks m = mw_blocks m0 @ bs"
    and content: "concat (map (block_content dec) bs) @ mw_cur m =
                  mw_cur m0 @ meta_payload (MWrite p # ops @ [MFlush])"
    using meta_run_adv [OF run m0] by (auto simp: meta_adv_def)
  have closed: "mw_cur m = []"
    by (rule meta_run_closed [of m0 "MWrite p # ops"]) (use run in simp)
  have inv: "meta_inv m" using meta_run_inv [OF run m0(1)] by simp
  have img: "img = concat (map block_bytes (mw_blocks m0)) @ concat (map block_bytes bs)"
    using emit_blocks_ok emit(1) bs by (fastforce simp: metaWriter_EmitTo_def)
  have "unat (BlockByteOffset m (blockIdx r)) = length (concat (map block_bytes (mw_blocks m0)))"
    using emit(2) img bs
    by (simp add: BlockByteOffset_def offset_sum_eq r_def metaWriter_Ref_def unat_of_nat
        take_bit_nat_eq_self_iff)
  moreover have "unat (ref_offset r) = length (mw_cur m0)"
    using m0(1) by (simp add: r_def metaWriter_Ref_def meta_inv_def unat_of_nat16)
  moreover have "read_meta dec (concat (map block_bytes bs)) = concat (map (block_content dec) bs)"
    using read_meta_blocks inv bs by (simp add: meta_inv_def)
  ultimately show ?thesis using img content closed by simp
qed

end

text \<open>The two compressors of the package meet the contract.\<close>

interpretation stored: squash_codec StoredCompressor dec for dec
  by unfold_locales (simp add: StoredCompressor_def)

lemma GzipCompressor_codec:
  assumes "\<And>level src out. zlib level src = Inr out \<Longrightarrow> inflate out = src"
  shows "squash_codec (GzipCompressor zlib lvl) inflate"
  using assms
  by unfold_locales
     (auto simp: GzipCompressor_def GzipCompressor_Compress_def Let_def split: sum.splits if_splits)

end
