(* ===== verification/Squash_Tables.thy ===== *)
theory Squash_Tables
  imports Squash_Meta
begin

text \<open>
  The superblock (\<^verbatim>\<open>superblock.go\<close>) and the id table (\<^verbatim>\<open>idtable.go\<close>) of the squashfs writer.
  The superblock encoding is a 96-byte record that decodes to the same fields; interning keeps
  the table duplicate-free with indices that point back at their ids and never exceed 16 bits.
\<close>

section \<open>Superblock (superblock.go)\<close>

record superblock =
  inodeCount :: "32 word"
  sb_modTime :: "32 word"
  sb_blockSize :: "32 word"
  fragCount :: "32 word"
  sb_compressor :: "16 word"
  blockLog :: "16 word"
  sb_flags :: "16 word"
  idCount :: "16 word"
  rootInodeRef :: "64 word"
  bytesUsed :: "64 word"
  idTableStart :: "64 word"
  xattrTableStart :: "64 word"
  inodeTableStart :: "64 word"
  directoryTableStart :: "64 word"
  fragmentTableStart :: "64 word"
  exportTableStart :: "64 word"

definition superblockSize :: nat where "superblockSize = 96"

definition superblock_encode :: "superblock \<Rightarrow> bytes" where
  "superblock_encode sb =
     PutUint32 Magic @
     PutUint32 (inodeCount sb) @
     PutUint32 (sb_modTime sb) @
     PutUint32 (sb_blockSize sb) @
     PutUint32 (fragCount sb) @
     PutUint16 (sb_compressor sb) @
     PutUint16 (blockLog sb) @
     PutUint16 (sb_flags sb) @
     PutUint16 (idCount sb) @
     PutUint16 VersionMajor @
     PutUint16 VersionMinor @
     PutUint64 (rootInodeRef sb) @
     PutUint64 (bytesUsed sb) @
     PutUint64 (idTableStart sb) @
     PutUint64 (xattrTableStart sb) @
     PutUint64 (inodeTableStart sb) @
     PutUint64 (directoryTableStart sb) @
     PutUint64 (fragmentTableStart sb) @
     PutUint64 (exportTableStart sb)"

text \<open>\<^verbatim>\<open>bits.TrailingZeros32\<close>: the number of low zero bits, 32 for zero.\<close>

fun trailing_zeros :: "nat \<Rightarrow> 32 word \<Rightarrow> nat" where
  "trailing_zeros 0 w = 0"
| "trailing_zeros (Suc k) w = (if bit w 0 then 0 else Suc (trailing_zeros k (drop_bit 1 w)))"

definition TrailingZeros32 :: "32 word \<Rightarrow> nat" where
  "TrailingZeros32 w = trailing_zeros 32 w"

definition blockLogFor :: "32 word \<Rightarrow> 16 word" where
  "blockLogFor blockSize = of_nat (TrailingZeros32 blockSize)"

text \<open>The reader's view of a superblock: magic and version checked, fields in order.\<close>

definition superblock_decode :: "bytes \<Rightarrow> superblock option" where
  "superblock_decode bs =
     (if length bs < superblockSize then None
      else if GetUint32 bs \<noteq> Magic then None
      else if GetUint16 (drop 28 bs) \<noteq> VersionMajor \<or> GetUint16 (drop 30 bs) \<noteq> VersionMinor then None
      else Some
        \<lparr> inodeCount = GetUint32 (drop 4 bs), sb_modTime = GetUint32 (drop 8 bs),
          sb_blockSize = GetUint32 (drop 12 bs), fragCount = GetUint32 (drop 16 bs),
          sb_compressor = GetUint16 (drop 20 bs), blockLog = GetUint16 (drop 22 bs),
          sb_flags = GetUint16 (drop 24 bs), idCount = GetUint16 (drop 26 bs),
          rootInodeRef = GetUint64 (drop 32 bs), bytesUsed = GetUint64 (drop 40 bs),
          idTableStart = GetUint64 (drop 48 bs), xattrTableStart = GetUint64 (drop 56 bs),
          inodeTableStart = GetUint64 (drop 64 bs), directoryTableStart = GetUint64 (drop 72 bs),
          fragmentTableStart = GetUint64 (drop 80 bs), exportTableStart = GetUint64 (drop 88 bs) \<rparr>)"

lemma length_superblock_encode [simp]: "length (superblock_encode sb) = superblockSize"
  by (simp add: superblock_encode_def superblockSize_def)

lemma superblock_decode_encode: "superblock_decode (superblock_encode sb @ rest) = Some sb"
  unfolding superblock_decode_def superblock_encode_def superblockSize_def
  by (simp add: drop_append)

lemma trailing_zeros_power:
  "w = push_bit n 1 \<Longrightarrow> n < k \<Longrightarrow> k \<le> 32 \<Longrightarrow> trailing_zeros k w = n"
proof (induction k w arbitrary: n rule: trailing_zeros.induct)
  case (2 k w)
  show ?case
  proof (cases n)
    case 0
    then show ?thesis using 2 by simp
  next
    case (Suc n')
    have "w = 2 ^ Suc n'" using 2(2) Suc by simp
    then have "drop_bit 1 w = push_bit n' 1"
      using 2(3,4) Suc
      by (intro bit_word_eqI) (auto simp: bit_drop_bit_eq bit_exp_iff simp del: power_Suc)
    moreover have "\<not> bit w 0" using \<open>w = 2 ^ Suc n'\<close> by (simp add: bit_exp_iff del: power_Suc)
    moreover have "trailing_zeros k (drop_bit 1 w) = n'"
      using 2(1) [of n'] 2(3,4) Suc calculation by simp
    ultimately show ?thesis using Suc by simp
  qed
qed simp

lemma blockLogFor_power:
  assumes "n < 32" shows "blockLogFor (push_bit n 1) = of_nat n"
  using trailing_zeros_power [of _ n 32] assms by (simp add: blockLogFor_def TrailingZeros32_def)

section \<open>Id table (idtable.go)\<close>

definition idsPerMetaBlock :: nat where "idsPerMetaBlock = unat MetadataBlockSize div 4"
definition maxIDs :: nat where "maxIDs = 0xFFFF"

record idTable =
  id_index :: "32 word \<rightharpoonup> 16 word"
  id_list :: "32 word list"

definition newIDTable :: idTable where
  "newIDTable = \<lparr> id_index = Map.empty, id_list = [] \<rparr>"

definition idTable_Intern :: "idTable \<Rightarrow> 32 word \<Rightarrow> idTable \<times> (sq_err + 16 word)" where
  "idTable_Intern t i =
     (case id_index t i of
        Some idx \<Rightarrow> (t, Inr idx)
      | None \<Rightarrow>
          if length (id_list t) \<ge> maxIDs
          then (t, Inl (EMsg ''squashfs: more than 65535 distinct UID/GID values''))
          else let idx = of_nat (length (id_list t))
               in (t\<lparr> id_list := id_list t @ [i], id_index := (id_index t)(i \<mapsto> idx) \<rparr>, Inr idx))"

definition idTable_Count :: "idTable \<Rightarrow> 16 word" where
  "idTable_Count t = of_nat (length (id_list t))"

text \<open>
  The batch loop of \<^verbatim>\<open>WriteData\<close>: \<open>i\<close> is the index of the next id, \<open>starts\<close> the metadata-block
  index recorded for each batch.
\<close>

fun write_ids :: "metaWriter \<Rightarrow> 32 word list \<Rightarrow> nat \<Rightarrow> nat list \<Rightarrow> sq_err + metaWriter \<times> nat list" where
  "write_ids m [] i starts = Inr (m, starts)"
| "write_ids m (x # xs) i starts =
     (if i mod idsPerMetaBlock = 0
      then (case (if i \<noteq> 0 then metaWriter_Flush m else (m, None)) of
              (m1, Some e) \<Rightarrow> Inl e
            | (m1, None) \<Rightarrow>
                (case metaWriter_Write m1 (PutUint32 x) of
                   (m2, _, Some e) \<Rightarrow> Inl e
                 | (m2, _, None) \<Rightarrow> write_ids m2 xs (i + 1) (starts @ [length (mw_blocks m1)])))
      else (case metaWriter_Write m (PutUint32 x) of
              (m2, _, Some e) \<Rightarrow> Inl e
            | (m2, _, None) \<Rightarrow> write_ids m2 xs (i + 1) starts))"

definition idTable_WriteData ::
  "idTable \<Rightarrow> sink \<Rightarrow> bytes \<Rightarrow> Compressor \<Rightarrow> 64 word \<Rightarrow> bytes \<times> (sq_err + 64 word list \<times> 64 word)" where
  "idTable_WriteData t wr out cmp fileOffsetBase =
     (if id_list t = [] then (out, Inr ([], 0))
      else case write_ids (newMetaWriter cmp) (id_list t) 0 [] of
             Inl e \<Rightarrow> (out, Inl e)
           | Inr (m, startBlocks) \<Rightarrow>
               (case metaWriter_Flush m of
                  (m', Some e) \<Rightarrow> (out, Inl e)
                | (m', None) \<Rightarrow>
                    let blockOffsets = map (\<lambda>bi. fileOffsetBase + BlockByteOffset m' bi) startBlocks
                    in (case metaWriter_EmitTo m' wr out of
                          (out', n, Some e) \<Rightarrow> (out', Inl e)
                        | (out', n, None) \<Rightarrow> (out', Inr (blockOffsets, n)))))"

definition idTable_WriteLookup ::
  "sink \<Rightarrow> bytes \<Rightarrow> 64 word list \<Rightarrow> bytes \<times> 64 word \<times> sq_err option" where
  "idTable_WriteLookup wr out blockOffsets =
     (if length blockOffsets = 0 then (out, 0, None)
      else case io_Write wr out (concat (map PutUint64 blockOffsets)) of
             (out', n, e) \<Rightarrow> (out', of_nat n, e))"

text \<open>The table's invariant: the list is duplicate-free, bounded, and the index inverts it.\<close>

definition id_inv :: "idTable \<Rightarrow> bool" where
  "id_inv t \<longleftrightarrow>
     distinct (id_list t) \<and> length (id_list t) \<le> maxIDs \<and>
     (\<forall>i idx. id_index t i = Some idx \<longleftrightarrow>
        unat idx < length (id_list t) \<and> id_list t ! unat idx = i)"

lemma id_inv_new: "id_inv newIDTable"
  by (simp add: id_inv_def newIDTable_def)

lemma unat_idx: "n < maxIDs \<Longrightarrow> unat (of_nat n :: 16 word) = n"
  by (simp add: unat_of_nat take_bit_nat_eq_self_iff maxIDs_def)

lemma id_inv_Some:
  assumes "id_inv t" "i \<in> set (id_list t)"
  shows "id_index t i \<noteq> None"
proof -
  obtain k where k: "k < length (id_list t)" "id_list t ! k = i"
    using assms(2) by (auto simp: in_set_conv_nth)
  moreover have "k < maxIDs" using k assms(1) by (simp add: id_inv_def)
  ultimately have "id_index t i = Some (of_nat k)"
    using assms(1) unat_idx by (simp add: id_inv_def)
  then show ?thesis by simp
qed

lemma idTable_Intern_inv:
  assumes "id_inv t" "idTable_Intern t i = (t', r)"
  shows "id_inv t' \<and> (\<exists>ys. id_list t' = id_list t @ ys) \<and>
         (\<forall>idx. r = Inr idx \<longrightarrow> unat idx < length (id_list t') \<and> id_list t' ! unat idx = i)"
proof (cases "id_index t i")
  case (Some idx)
  then show ?thesis using assms by (auto simp: idTable_Intern_def id_inv_def)
next
  case None
  then have fresh: "i \<notin> set (id_list t)" using id_inv_Some [OF assms(1), of i] by auto
  show ?thesis
  proof (cases "length (id_list t) \<ge> maxIDs")
    case True
    then show ?thesis using assms None by (auto simp: idTable_Intern_def)
  next
    case False
    define n where "n = length (id_list t)"
    have n: "unat (of_nat n :: 16 word) = n" using False unat_idx by (simp add: n_def)
    have inv: "id_index t j = Some idx \<longleftrightarrow> unat idx < n \<and> id_list t ! unat idx = j" for j idx
      using assms(1) by (simp add: id_inv_def n_def)
    have "((id_index t)(i \<mapsto> of_nat n)) j = Some idx \<longleftrightarrow>
        unat idx < Suc n \<and> (id_list t @ [i]) ! unat idx = j" for j idx
    proof (cases "unat idx < n")
      case True
      then have "(id_list t @ [i]) ! unat idx = id_list t ! unat idx" "id_list t ! unat idx \<noteq> i"
        using fresh by (auto simp: nth_append n_def)
      then show ?thesis using True inv n by auto
    next
      case False
      have "unat idx = n \<longleftrightarrow> idx = of_nat n" using n by (metis unsigned_word_eqI)
      then show ?thesis using False inv n fresh by (auto simp: nth_append n_def less_Suc_eq)
    qed
    then show ?thesis
      using assms None False fresh n
      by (auto simp: idTable_Intern_def Let_def id_inv_def n_def nth_append)
  qed
qed

lemma idTable_WriteData_out:
  "idTable_WriteData t wr out c base = (out', Inr (offs, n)) \<Longrightarrow>
     \<exists>d. out' = out @ d \<and> n = of_nat (length d)"
  using emit_blocks_ok
  by (fastforce simp: idTable_WriteData_def metaWriter_EmitTo_def Let_def
      split: if_splits sum.splits prod.splits option.splits)

lemma idTable_WriteLookup_out:
  "idTable_WriteLookup wr out offs = (out', n, None) \<Longrightarrow> \<exists>d. out' = out @ d \<and> n = of_nat (length d)"
  by (auto simp: idTable_WriteLookup_def dest!: io_Write_ok split: if_splits prod.splits)

text \<open>
  The layout of the id data: batches of \<open>idsPerMetaBlock\<close> ids, one sealed block each, the
  last one possibly open; \<open>starts\<close> has one block index per batch begun.
\<close>

definition ids_bytes :: "32 word list \<Rightarrow> bytes" where
  "ids_bytes xs = concat (map PutUint32 xs)"

lemma length_ids_bytes [simp]: "length (ids_bytes xs) = 4 * length xs"
  by (induction xs) (simp_all add: ids_bytes_def)

lemma ids_bytes_append: "ids_bytes (xs @ ys) = ids_bytes xs @ ids_bytes ys"
  by (simp add: ids_bytes_def)

lemma GetUint32_ids_bytes: "k < length xs \<Longrightarrow> GetUint32 (drop (4 * k) (ids_bytes xs)) = xs ! k"
proof (induction xs arbitrary: k)
  case (Cons x xs)
  then show ?case by (cases k) (simp_all add: ids_bytes_def)
qed simp

lemma idsPerMetaBlock_eq [simp]: "idsPerMetaBlock = 2048"
  by (simp add: idsPerMetaBlock_def)

context squash_codec
begin

definition ids_layout :: "metaWriter \<Rightarrow> 32 word list list \<Rightarrow> 32 word list \<Rightarrow> nat list \<Rightarrow> bool" where
  "ids_layout m cs tail starts \<longleftrightarrow>
     meta_inv m \<and> mw_comp m = comp \<and>
     map (block_content dec) (mw_blocks m) = map ids_bytes cs \<and> mw_cur m = ids_bytes tail \<and>
     (\<forall>c \<in> set cs. length c = 2048) \<and> length tail < 2048 \<and>
     starts = [0 ..< length cs + (if tail = [] then 0 else 1)]"

lemma ids_layout_write:
  assumes L: "ids_layout m cs tail starts" and w: "metaWriter_Write m (PutUint32 x) = (m', n, None)"
  defines "starts' \<equiv> (if tail = [] then starts @ [length (mw_blocks m)] else starts)"
  shows "\<exists>cs' tail'. ids_layout m' cs' tail' starts' \<and> concat cs' @ tail' = concat cs @ tail @ [x]"
proof -
  have blocks: "length (mw_blocks m) = length cs"
    using L by (metis ids_layout_def length_map)
  have inv: "meta_inv m'" "mw_comp m' = comp"
    using metaWriter_Write_inv [OF w] L by (auto simp: ids_layout_def)
  have cur: "mw_cur m @ PutUint32 x = ids_bytes (tail @ [x])"
    using L by (simp add: ids_layout_def ids_bytes_def)
  show ?thesis
  proof (cases "length tail + 1 = 2048")
    case False
    then have "m' = m\<lparr> mw_cur := mw_cur m @ PutUint32 x \<rparr>"
      using metaWriter_Write_open [OF w] L by (simp add: ids_layout_def)
    then have "ids_layout m' cs (tail @ [x]) starts'"
      using L False inv cur blocks by (auto simp: ids_layout_def starts'_def)
    then show ?thesis by (intro exI [of _ cs] exI [of _ "tail @ [x]"]) simp
  next
    case True
    have "length (mw_cur m) + length (PutUint32 x) = 8192"
      using L True by (simp add: ids_layout_def)
    moreover have "PutUint32 x \<noteq> []" by (metis length_PutUint(2) list.size(3) zero_neq_numeral)
    moreover have "mw_comp m = comp" using L by (simp add: ids_layout_def)
    ultimately obtain b where "mw_blocks m' = mw_blocks m @ [b]"
      "block_content dec b = ids_bytes (tail @ [x])" "mw_cur m' = []"
      using metaWriter_Write_fill [OF w] unfolding cur by blast
    then have "ids_layout m' (cs @ [tail @ [x]]) [] starts'"
      using L True inv blocks by (auto simp: ids_layout_def starts'_def ids_bytes_def)
    then show ?thesis by (intro exI [of _ "cs @ [tail @ [x]]"] exI [of _ "[]"]) simp
  qed
qed

lemma write_ids_layout:
  "write_ids m xs i starts = Inr (m', starts') \<Longrightarrow> ids_layout m cs tail starts \<Longrightarrow>
   i = length (concat cs @ tail) \<Longrightarrow>
   \<exists>cs' tail'. ids_layout m' cs' tail' starts' \<and> concat cs' @ tail' = concat cs @ tail @ xs"
proof (induction xs arbitrary: m i starts cs tail)
  case Nil
  then show ?case by auto
next
  case (Cons x xs)
  have "\<forall>c \<in> set cs. length c = 2048" using Cons.prems(2) by (simp add: ids_layout_def)
  then have "length (concat cs) = length cs * 2048" by (induction cs) simp_all
  then have batch: "i mod 2048 = 0 \<longleftrightarrow> tail = []"
    using Cons.prems(2,3) by (auto simp: ids_layout_def)
  have flush: "tail = [] \<Longrightarrow> metaWriter_Flush m = (m, None)"
    using Cons.prems(2) by (simp add: ids_layout_def metaWriter_Flush_def sealCurrent_def ids_bytes_def)
  define starts1 where "starts1 = (if tail = [] then starts @ [length (mw_blocks m)] else starts)"
  obtain m1 n where w: "metaWriter_Write m (PutUint32 x) = (m1, n, None)"
    and rest: "write_ids m1 xs (i + 1) starts1 = Inr (m', starts')"
    using Cons.prems(1) batch flush
    by (cases "tail = []") (auto simp: starts1_def split: prod.splits option.splits if_splits)
  obtain cs1 tail1 where l1: "ids_layout m1 cs1 tail1 starts1" "concat cs1 @ tail1 = concat cs @ tail @ [x]"
    using ids_layout_write [OF Cons.prems(2) w] by (auto simp: starts1_def)
  have "length (concat cs1 @ tail1) = i + 1" unfolding l1(2) using Cons.prems(3) by simp
  then obtain cs' tail' where "ids_layout m' cs' tail' starts'"
    "concat cs' @ tail' = (concat cs1 @ tail1) @ xs"
    using Cons.IH [OF rest l1(1)] by auto
  then show ?case unfolding l1(2) by auto
qed

text \<open>
  Reading an id the way a mount does: the lookup list gives the offset of the block that holds
  index \<open>i\<close>, the block's content holds the id at its position in the batch.
\<close>

lemma concat_batches_nth:
  "\<forall>c \<in> set cs. length c = 2048 \<Longrightarrow> length tail < 2048 \<Longrightarrow> i < length (concat cs @ tail) \<Longrightarrow>
     (concat cs @ tail) ! i = ((cs @ [tail]) ! (i div 2048)) ! (i mod 2048) \<and>
     i div 2048 < length cs + (if tail = [] then 0 else 1) \<and>
     i mod 2048 < length ((cs @ [tail]) ! (i div 2048))"
proof (induction cs arbitrary: i)
  case (Cons c cs)
  show ?case
  proof (cases "i < 2048")
    case True
    then show ?thesis using Cons.prems by (simp add: nth_append)
  next
    case False
    define j where "j = i - 2048"
    have i: "i = j + 2048" using False by (simp add: j_def)
    have "i div 2048 = Suc (j div 2048)" "i mod 2048 = j mod 2048" by (simp_all add: i)
    then show ?thesis using Cons.IH [of j] Cons.prems by (simp add: i nth_append)
  qed
qed (auto split: if_splits)

lemma ids_read_back:
  assumes W: "idTable_WriteData t wr out comp (of_nat (length out)) = (out', Inr (offs, n))"
    and len: "length out' < 2 ^ 64" and i: "i < length (id_list t)"
  shows "i div idsPerMetaBlock < length offs \<and>
         GetUint32 (drop (4 * (i mod idsPerMetaBlock))
           (read_block dec (drop (unat (offs ! (i div idsPerMetaBlock))) out'))) = id_list t ! i"
proof -
  obtain m starts m' where ids: "write_ids (newMetaWriter comp) (id_list t) 0 [] = Inr (m, starts)"
    and flush: "metaWriter_Flush m = (m', None)"
    and emit: "metaWriter_EmitTo m' wr out = (out', n, None)"
    and offs: "offs = map (\<lambda>bi. of_nat (length out) + BlockByteOffset m' bi) starts"
    using W i by (auto simp: idTable_WriteData_def Let_def split: if_splits sum.splits prod.splits option.splits)
  have "ids_layout (newMetaWriter comp) [] [] []"
    by (simp add: ids_layout_def) (simp add: newMetaWriter_def ids_bytes_def)
  from write_ids_layout [OF ids this] obtain cs tail where L: "ids_layout m cs tail starts"
    and all: "concat cs @ tail = id_list t" by auto
  have inv: "meta_inv m'" using metaWriter_Flush_inv [OF flush] L by (simp add: ids_layout_def)
  have final: "map (block_content dec) (mw_blocks m') =
      map ids_bytes (cs @ (if tail = [] then [] else [tail]))"
  proof (cases "tail = []")
    case True
    then show ?thesis using L flush
      by (simp add: ids_layout_def metaWriter_Flush_def sealCurrent_def ids_bytes_def)
  next
    case False
    then have "mw_cur m \<noteq> []" using L by (metis ids_layout_def length_0_conv length_ids_bytes mult_eq_0_iff zero_neq_numeral)
    then show ?thesis
      using sealCurrent_block [of m m'] flush L False by (auto simp: ids_layout_def metaWriter_Flush_def)
  qed
  define k where "k = i div 2048"
  have pos: "id_list t ! i = ((cs @ [tail]) ! k) ! (i mod 2048)"
    "k < length cs + (if tail = [] then 0 else 1)" "i mod 2048 < length ((cs @ [tail]) ! k)"
    using concat_batches_nth [of cs tail i] L all i by (auto simp: ids_layout_def k_def)
  have starts: "starts = [0 ..< length cs + (if tail = [] then 0 else 1)]"
    using L by (simp add: ids_layout_def)
  have nblocks: "length (mw_blocks m') = length cs + (if tail = [] then 0 else 1)"
    using arg_cong [OF final, of length] by simp
  define b where "b = mw_blocks m' ! k"
  define pre where "pre = concat (map block_bytes (take k (mw_blocks m')))"
  have split: "mw_blocks m' = take k (mw_blocks m') @ b # drop (Suc k) (mw_blocks m')"
    using pos(2) nblocks by (simp add: b_def id_take_nth_drop)
  have out': "out' = out @ concat (map block_bytes (mw_blocks m'))"
    using emit_blocks_ok emit unfolding metaWriter_EmitTo_def by fastforce
  have img: "out' = (out @ pre) @ block_bytes b @ concat (map block_bytes (drop (Suc k) (mw_blocks m')))"
    unfolding out' by (subst split) (simp add: pre_def)
  have "unat (offs ! k) = length (out @ pre)"
  proof -
    have "offs ! k = of_nat (length (out @ pre))"
      using pos(2) by (simp add: offs starts BlockByteOffset_def offset_sum_eq pre_def)
    moreover have "length (out @ pre) < 2 ^ 64" using len img by simp
    ultimately show ?thesis by (simp only: unat_of_nat_less)
  qed
  then have "read_block dec (drop (unat (offs ! k)) out') = block_content dec b"
    using read_block_bytes [of b] inv pos(2) nblocks unfolding img
    by (simp add: meta_inv_def list_all_length b_def)
  also have "block_content dec b = map (block_content dec) (mw_blocks m') ! k"
    using pos(2) nblocks by (simp add: b_def)
  also have "\<dots> = ids_bytes ((cs @ [tail]) ! k)"
    unfolding final using pos(2) by (cases "tail = []") (simp_all add: nth_append)
  finally show ?thesis
    using pos GetUint32_ids_bytes [OF pos(3)] by (simp add: k_def offs starts)
qed

end

end
