(* ===== verification/Squash_Inode.thy ===== *)
theory Squash_Inode
  imports Squash_Tables
begin

text \<open>
  Inodes and directory listings of the squashfs writer (\<^verbatim>\<open>inode.go\<close>, \<^verbatim>\<open>directory.go\<close>): the entry
  record, the seven basic inode encodings, and the grouping of directory entries under
  headers.  Readers for both formats are given as specification; the lemmas show that each
  encoding is read back to the entry's fields and that a listing is read back to the sorted
  entries, with the format's limits (256 entries per header, 16-bit inode delta) respected.
\<close>

section \<open>Entries (inode.go)\<close>

datatype entryKind =
    kindFile | kindDir | kindSymlink | kindHardlink | kindCharDev | kindBlockDev | kindFIFO | kindSocket

text \<open>A \<^verbatim>\<open>time.Time\<close>: \<open>None\<close> is the zero value (\<^verbatim>\<open>IsZero\<close>), otherwise the Unix seconds.\<close>

type_synonym gotime = "int option"

record Attrs =
  a_Path :: string
  a_Mode :: "32 word"
  a_UID :: "32 word"
  a_GID :: "32 word"
  a_Mtime :: gotime

definition zero_Attrs :: Attrs where
  "zero_Attrs = \<lparr> a_Path = [], a_Mode = 0, a_UID = 0, a_GID = 0, a_Mtime = None \<rparr>"

text \<open>
  \<^verbatim>\<open>entry\<close>.  Every entry lives in the writer's map under its own path and is never replaced, so
  the pointers \<^verbatim>\<open>hardlinkTarget\<close> and \<^verbatim>\<open>children\<close> are the paths of the entries pointed at.
\<close>

record entry =
  e_path :: string
  e_kind :: entryKind
  e_attrs :: Attrs
  inodeNumber :: "32 word"
  inodeRef :: metaRef
  nlinks :: "32 word"
  uidIdx :: "16 word"
  gidIdx :: "16 word"
  fileBlocksStart :: "64 word"
  fileBlockSizes :: "32 word list"
  fileSize :: "64 word"
  symlinkTarget :: string
  hardlinkTarget :: "string option"
  devMajor :: "32 word"
  devMinor :: "32 word"
  children :: "string list"
  dirBlockStart :: "64 word"
  dirBlockOffset :: "16 word"
  dirListingSize :: "32 word"
  parentInode :: "32 word"

text \<open>An entry literal with its path, kind and attributes; the other fields at Go's zero values.\<close>

definition mk_entry :: "string \<Rightarrow> entryKind \<Rightarrow> Attrs \<Rightarrow> entry" where
  "mk_entry p k a =
     \<lparr> e_path = p, e_kind = k, e_attrs = a, inodeNumber = 0,
       inodeRef = \<lparr> blockIdx = 0, ref_offset = 0 \<rparr>, nlinks = 0, uidIdx = 0, gidIdx = 0,
       fileBlocksStart = 0, fileBlockSizes = [], fileSize = 0, symlinkTarget = [],
       hardlinkTarget = None, devMajor = 0, devMinor = 0, children = [], dirBlockStart = 0,
       dirBlockOffset = 0, dirListingSize = 0, parentInode = 0 \<rparr>"

definition encodePerm :: "entry \<Rightarrow> 16 word" where
  "encodePerm e =
     ucast (a_Mode (e_attrs e) AND 0x1FF) OR ucast (a_Mode (e_attrs e) AND 0xE00)"

definition encodeDevice :: "32 word \<Rightarrow> 32 word \<Rightarrow> sq_err + 32 word" where
  "encodeDevice major minor =
     (if major > 0xFFF then Inl (EMsg ''squashfs: device major exceeds 12-bit limit'')
      else if minor > 0xFF
      then Inl (EMsg ''squashfs: device minor exceeds 8-bit limit (squashfs format constraint)'')
      else Inr (push_bit 8 major OR minor))"

definition writeCommonHeader :: "16 word \<Rightarrow> entry \<Rightarrow> 32 word \<Rightarrow> bytes" where
  "writeCommonHeader typ e mtime =
     PutUint16 typ @ PutUint16 (encodePerm e) @ PutUint16 (uidIdx e) @ PutUint16 (gidIdx e) @
     PutUint32 mtime @ PutUint32 (inodeNumber e)"

definition encodeBasicDir :: "entry \<Rightarrow> 32 word \<Rightarrow> sq_err + bytes" where
  "encodeBasicDir e mtime =
     (if dirBlockStart e > 0xFFFFFFFF
      then Inl (EMsg ''squashfs: directory table exceeds 4 GiB (need extended dir support)'')
      else let listingSize = dirListingSize e + 3 in
        if listingSize > 0xFFFF
        then Inl (EMsg ''squashfs: directory listing exceeds 64 KiB (need extended dir support)'')
        else Inr (writeCommonHeader InodeBasicDir e mtime @
                  PutUint32 (ucast (dirBlockStart e)) @
                  PutUint32 (nlinks e) @
                  PutUint16 (ucast listingSize) @
                  PutUint16 (dirBlockOffset e) @
                  PutUint32 (parentInode e)))"

definition encodeBasicFile :: "entry \<Rightarrow> 32 word \<Rightarrow> 32 word \<Rightarrow> sq_err + bytes" where
  "encodeBasicFile e mtime blockSize =
     (if fileBlocksStart e > 0xFFFFFFFF
      then Inl (EMsg ''squashfs: archive exceeds 4 GiB before file inode (need extended file support)'')
      else if fileSize e > 0xFFFFFFFF
      then Inl (EMsg ''squashfs: file exceeds 4 GiB (need extended file support)'')
      else let expectedBlocks = (fileSize e + ucast blockSize - 1) div ucast blockSize in
        if (of_nat (length (fileBlockSizes e)) :: 64 word) \<noteq> expectedBlocks
        then Inl (EMsg ''squashfs: block-size count does not match file size'')
        else Inr (writeCommonHeader InodeBasicFile e mtime @
                  PutUint32 (ucast (fileBlocksStart e)) @
                  PutUint32 InvalidFragment @
                  PutUint32 0 @
                  PutUint32 (ucast (fileSize e)) @
                  concat (map PutUint32 (fileBlockSizes e))))"

definition encodeBasicSymlink :: "entry \<Rightarrow> 32 word \<Rightarrow> sq_err + bytes" where
  "encodeBasicSymlink e mtime =
     (let target = symlinkTarget e in
      if length target > 0xFFFF
      then Inl (EMsg ''squashfs: symlink target exceeds 65535 bytes'')
      else Inr (writeCommonHeader InodeBasicSymlink e mtime @
                PutUint32 (nlinks e) @
                PutUint32 (of_nat (length target)) @
                target))"

definition encodeBasicDevice :: "entry \<Rightarrow> 32 word \<Rightarrow> bool \<Rightarrow> sq_err + bytes" where
  "encodeBasicDevice e mtime block =
     (case encodeDevice (devMajor e) (devMinor e) of
        Inl err \<Rightarrow> Inl err
      | Inr dev \<Rightarrow>
          Inr (writeCommonHeader (if block then InodeBasicBlock else InodeBasicChar) e mtime @
               PutUint32 (nlinks e) @ PutUint32 dev))"

definition encodeBasicIPC :: "entry \<Rightarrow> 32 word \<Rightarrow> bool \<Rightarrow> bytes" where
  "encodeBasicIPC e mtime socket =
     writeCommonHeader (if socket then InodeBasicSocket else InodeBasicFIFO) e mtime @
     PutUint32 (nlinks e)"

text \<open>The dispatch of \<^verbatim>\<open>writeOneInode\<close> (\<^verbatim>\<open>writer.go\<close>) over the entry's kind.\<close>

definition encodeInode :: "entry \<Rightarrow> 32 word \<Rightarrow> 32 word \<Rightarrow> sq_err + bytes" where
  "encodeInode e mtime blockSize =
     (case e_kind e of
        kindFile \<Rightarrow> encodeBasicFile e mtime blockSize
      | kindDir \<Rightarrow> encodeBasicDir e mtime
      | kindSymlink \<Rightarrow> encodeBasicSymlink e mtime
      | kindCharDev \<Rightarrow> encodeBasicDevice e mtime False
      | kindBlockDev \<Rightarrow> encodeBasicDevice e mtime True
      | kindFIFO \<Rightarrow> Inr (encodeBasicIPC e mtime False)
      | kindSocket \<Rightarrow> Inr (encodeBasicIPC e mtime True)
      | kindHardlink \<Rightarrow> Inl (EMsg ''squashfs: unsupported entry kind''))"

section \<open>Reader of an inode\<close>

record inode_header =
  ih_type :: "16 word"
  ih_perm :: "16 word"
  ih_uid :: "16 word"
  ih_gid :: "16 word"
  ih_mtime :: "32 word"
  ih_number :: "32 word"

datatype inode_body =
    BDir "32 word" "32 word" "16 word" "16 word" "32 word"
  | BFile "32 word" "32 word" "32 word" "32 word" "32 word list"
  | BSymlink "32 word" string
  | BDevice "32 word" "32 word"
  | BIPC "32 word"

fun get_u32s :: "nat \<Rightarrow> bytes \<Rightarrow> 32 word list" where
  "get_u32s 0 bs = []"
| "get_u32s (Suc k) bs = GetUint32 bs # get_u32s k (drop 4 bs)"

definition read_header :: "bytes \<Rightarrow> inode_header" where
  "read_header bs =
     \<lparr> ih_type = GetUint16 bs, ih_perm = GetUint16 (drop 2 bs), ih_uid = GetUint16 (drop 4 bs),
       ih_gid = GetUint16 (drop 6 bs), ih_mtime = GetUint32 (drop 8 bs),
       ih_number = GetUint32 (drop 12 bs) \<rparr>"

text \<open>A file without a tail fragment has its size rounded up to whole blocks.\<close>

definition block_count :: "nat \<Rightarrow> nat \<Rightarrow> nat" where
  "block_count n bsize = (n + bsize - 1) div bsize"

definition read_body :: "32 word \<Rightarrow> 16 word \<Rightarrow> bytes \<Rightarrow> inode_body option" where
  "read_body bsize typ b =
     (if typ = InodeBasicDir
      then Some (BDir (GetUint32 b) (GetUint32 (drop 4 b)) (GetUint16 (drop 8 b))
                      (GetUint16 (drop 10 b)) (GetUint32 (drop 12 b)))
      else if typ = InodeBasicFile
      then (let sz = GetUint32 (drop 12 b) in
            Some (BFile (GetUint32 b) (GetUint32 (drop 4 b)) (GetUint32 (drop 8 b)) sz
                    (get_u32s (block_count (unat sz) (unat bsize)) (drop 16 b))))
      else if typ = InodeBasicSymlink
      then Some (BSymlink (GetUint32 b) (take (unat (GetUint32 (drop 4 b))) (drop 8 b)))
      else if typ = InodeBasicBlock \<or> typ = InodeBasicChar
      then Some (BDevice (GetUint32 b) (GetUint32 (drop 4 b)))
      else if typ = InodeBasicFIFO \<or> typ = InodeBasicSocket
      then Some (BIPC (GetUint32 b))
      else None)"

definition read_inode :: "32 word \<Rightarrow> bytes \<Rightarrow> (inode_header \<times> inode_body) option" where
  "read_inode bsize bs =
     (let h = read_header bs in
      map_option (\<lambda>b. (h, b)) (read_body bsize (ih_type h) (drop 16 bs)))"

section \<open>Directory listings (directory.go)\<close>

definition maxDirEntriesPerHeader :: nat where "maxDirEntriesPerHeader = 256"

record dirEntry =
  de_name :: string
  childInode :: "32 word"
  inodeBlockByte :: "32 word"
  inodeBlockOff :: "16 word"
  basicType :: "16 word"

text \<open>The inner probe of \<^verbatim>\<open>writeDirListing\<close>: \<open>k\<close> is \<^verbatim>\<open>groupEnd - i\<close>.\<close>

fun group_len :: "dirEntry \<Rightarrow> dirEntry list \<Rightarrow> nat \<Rightarrow> nat" where
  "group_len base [] k = k"
| "group_len base (n # ns) k =
     (if k < maxDirEntriesPerHeader
      then if inodeBlockByte n \<noteq> inodeBlockByte base then k
           else let delta = uint (childInode n) - uint (childInode base) in
                if delta > 32767 \<or> delta < -32768 then k
                else group_len base ns (Suc k)
      else k)"

definition dir_header_bytes :: "nat \<Rightarrow> dirEntry \<Rightarrow> bytes" where
  "dir_header_bytes count base =
     PutUint32 (of_nat (count - 1)) @ PutUint32 (inodeBlockByte base) @ PutUint32 (childInode base)"

definition dir_entry_bytes :: "dirEntry \<Rightarrow> dirEntry \<Rightarrow> bytes" where
  "dir_entry_bytes base e =
     PutUint16 (inodeBlockOff e) @
     PutUint16 (of_int (uint (childInode e) - uint (childInode base))) @
     PutUint16 (basicType e) @
     PutUint16 (of_nat (length (de_name e) - 1)) @
     de_name e"

text \<open>The entries of one group, \<open>lb\<close> being \<^verbatim>\<open>listingBytes\<close>.\<close>

fun write_group ::
  "metaWriter \<Rightarrow> dirEntry \<Rightarrow> dirEntry list \<Rightarrow> 32 word \<Rightarrow> sq_err + metaWriter \<times> 32 word" where
  "write_group m base [] lb = Inr (m, lb)"
| "write_group m base (e # es) lb =
     (if length (de_name e) = 0 \<or> length (de_name e) > 256
      then Inl (EMsg ''squashfs: directory entry name must be 1..256 bytes'')
      else case metaWriter_Write m (dir_entry_bytes base e) of
             (m', _, Some err) \<Rightarrow> Inl err
           | (m', _, None) \<Rightarrow>
               write_group m' base es (lb + of_nat (length (dir_entry_bytes base e))))"

lemma group_len_ge: "k \<le> group_len base ns k"
  by (induction base ns k rule: group_len.induct) (auto simp: Let_def)

function write_groups ::
  "metaWriter \<Rightarrow> dirEntry list \<Rightarrow> 32 word \<Rightarrow> sq_err + metaWriter \<times> 32 word" where
  "write_groups m [] lb = Inr (m, lb)"
| "write_groups m (base # rest) lb =
     (let count = group_len base rest 1 in
      case metaWriter_Write m (dir_header_bytes count base) of
        (m1, _, Some err) \<Rightarrow> Inl err
      | (m1, _, None) \<Rightarrow>
          (case write_group m1 base (take count (base # rest)) (lb + 12) of
             Inl err \<Rightarrow> Inl err
           | Inr (m2, lb2) \<Rightarrow> write_groups m2 (drop count (base # rest)) lb2))"
  by pat_completeness auto
termination
  by (relation "measure (\<lambda>(_, es, _). length es)") (use group_len_ge [of 1] in \<open>auto simp: Suc_le_eq\<close>)

definition writeDirListing ::
  "metaWriter \<Rightarrow> dirEntry list \<Rightarrow> sq_err + metaWriter \<times> metaRef \<times> 32 word" where
  "writeDirListing m entries =
     (case write_groups m (sort_key de_name entries) 0 of
        Inl err \<Rightarrow> Inl err
      | Inr (m', lb) \<Rightarrow> Inr (m', metaWriter_Ref m, lb))"

definition basicTypeFor :: "(string \<rightharpoonup> entry) \<Rightarrow> entry \<Rightarrow> 16 word" where
  "basicTypeFor entries e =
     (let k = (case (e_kind e, hardlinkTarget e) of
                 (kindHardlink, Some t) \<Rightarrow>
                    (case entries t of Some te \<Rightarrow> e_kind te | None \<Rightarrow> kindHardlink)
               | (k, _) \<Rightarrow> k)
      in case k of
           kindFile \<Rightarrow> InodeBasicFile
         | kindDir \<Rightarrow> InodeBasicDir
         | kindSymlink \<Rightarrow> InodeBasicSymlink
         | kindBlockDev \<Rightarrow> InodeBasicBlock
         | kindCharDev \<Rightarrow> InodeBasicChar
         | kindFIFO \<Rightarrow> InodeBasicFIFO
         | kindSocket \<Rightarrow> InodeBasicSocket
         | kindHardlink \<Rightarrow> 0)"

section \<open>Inodes are read back\<close>

definition header_view :: "16 word \<Rightarrow> entry \<Rightarrow> 32 word \<Rightarrow> inode_header" where
  "header_view typ e mtime =
     \<lparr> ih_type = typ, ih_perm = encodePerm e, ih_uid = uidIdx e, ih_gid = gidIdx e,
       ih_mtime = mtime, ih_number = inodeNumber e \<rparr>"

text \<open>What a reader must find for an entry of each kind that owns an inode.\<close>

definition inode_view :: "entry \<Rightarrow> 32 word \<Rightarrow> (inode_header \<times> inode_body) option" where
  "inode_view e mtime =
     (case e_kind e of
        kindFile \<Rightarrow> Some (header_view InodeBasicFile e mtime,
                     BFile (ucast (fileBlocksStart e)) InvalidFragment 0 (ucast (fileSize e)) (fileBlockSizes e))
      | kindDir \<Rightarrow> Some (header_view InodeBasicDir e mtime,
                     BDir (ucast (dirBlockStart e)) (nlinks e) (ucast (dirListingSize e + 3))
                          (dirBlockOffset e) (parentInode e))
      | kindSymlink \<Rightarrow> Some (header_view InodeBasicSymlink e mtime, BSymlink (nlinks e) (symlinkTarget e))
      | kindCharDev \<Rightarrow> Some (header_view InodeBasicChar e mtime,
                     BDevice (nlinks e) (push_bit 8 (devMajor e) OR devMinor e))
      | kindBlockDev \<Rightarrow> Some (header_view InodeBasicBlock e mtime,
                     BDevice (nlinks e) (push_bit 8 (devMajor e) OR devMinor e))
      | kindFIFO \<Rightarrow> Some (header_view InodeBasicFIFO e mtime, BIPC (nlinks e))
      | kindSocket \<Rightarrow> Some (header_view InodeBasicSocket e mtime, BIPC (nlinks e))
      | kindHardlink \<Rightarrow> None)"

lemmas inode_type_defs = InodeBasicDir_def InodeBasicFile_def InodeBasicSymlink_def
  InodeBasicBlock_def InodeBasicChar_def InodeBasicFIFO_def InodeBasicSocket_def

lemma length_writeCommonHeader [simp]: "length (writeCommonHeader typ e mtime) = 16"
  by (simp add: writeCommonHeader_def)

lemma read_header_write [simp]:
  "read_header (writeCommonHeader typ e mtime @ r) = header_view typ e mtime"
  by (simp add: read_header_def writeCommonHeader_def header_view_def drop_append)

lemma get_u32s_concat: "get_u32s (length ws) (concat (map PutUint32 ws) @ r) = ws"
  by (induction ws) simp_all

lemma read_inode_header:
  "read_inode bsize (writeCommonHeader typ e mtime @ b) =
     map_option (\<lambda>x. (header_view typ e mtime, x)) (read_body bsize typ b)"
  by (simp add: read_inode_def Let_def header_view_def)

lemma expected_blocks:
  fixes blockSize :: "32 word"
  assumes "fileSize e \<le> 0xFFFFFFFF" "blockSize \<noteq> 0"
  shows "unat ((fileSize e + ucast blockSize - 1) div ucast blockSize :: 64 word) =
         block_count (unat (fileSize e)) (unat blockSize)"
proof -
  have f: "unat (fileSize e) < 2 ^ 32" using assms(1) by (simp add: word_le_nat_alt)
  have b: "unat blockSize < 2 ^ 32" "unat blockSize \<ge> 1"
    using unat_lt_256_pow(2) [of blockSize] assms(2) by (simp_all add: Suc_le_eq unat_gt_0)
  have "fileSize e + ucast blockSize - 1 = of_nat (unat (fileSize e) + unat blockSize - 1)"
    using b by (simp add: of_nat_diff unsigned_ucast_eq)
  moreover have "unat (of_nat (unat (fileSize e) + unat blockSize - 1) :: 64 word) =
      unat (fileSize e) + unat blockSize - 1"
    using f b by (intro unat_of_nat_less) simp
  moreover have "unat (ucast blockSize :: 64 word) = unat blockSize"
    by (simp add: unsigned_ucast_eq take_bit_nat_eq_self_iff less_le_trans [OF b(1)])
  ultimately show ?thesis by (simp add: unat_div_distrib block_count_def)
qed

lemma encodeInode_read:
  assumes enc: "encodeInode e mtime blockSize = Inr body"
    and pos: "blockSize \<noteq> 0" and len: "length (fileBlockSizes e) < 2 ^ 64"
  shows "read_inode blockSize (body @ rest) = inode_view e mtime"
proof (cases "e_kind e")
  case kindFile
  have small: "fileSize e \<le> 0xFFFFFFFF" and
    n: "(of_nat (length (fileBlockSizes e)) :: 64 word) = (fileSize e + ucast blockSize - 1) div ucast blockSize"
    and body: "body = writeCommonHeader InodeBasicFile e mtime @ PutUint32 (ucast (fileBlocksStart e)) @
      PutUint32 InvalidFragment @ PutUint32 0 @ PutUint32 (ucast (fileSize e)) @
      concat (map PutUint32 (fileBlockSizes e))"
    using enc kindFile by (auto simp: encodeInode_def encodeBasicFile_def Let_def split: if_splits)
  have "unat (ucast (fileSize e) :: 32 word) = unat (fileSize e)"
    using small by (simp add: unsigned_ucast_eq take_bit_nat_eq_self_iff word_le_nat_alt)
  then have "block_count (unat (ucast (fileSize e) :: 32 word)) (unat blockSize) = length (fileBlockSizes e)"
    using expected_blocks [OF small pos] arg_cong [OF n, of unat] unat_of_nat_less(3) [OF len] by simp
  then show ?thesis
    using get_u32s_concat [of "fileBlockSizes e" rest] kindFile
    by (simp add: body read_inode_header read_body_def Let_def inode_type_defs drop_append inode_view_def)
next
  case kindSymlink
  then show ?thesis using enc
    by (auto simp: encodeInode_def encodeBasicSymlink_def Let_def read_inode_header read_body_def
        inode_type_defs inode_view_def drop_append unat_of_nat_less split: if_splits)
qed (use enc in \<open>auto simp: encodeInode_def encodeBasicDir_def encodeBasicDevice_def encodeBasicIPC_def
  encodeDevice_def Let_def read_inode_header read_body_def inode_type_defs inode_view_def drop_append
  split: if_splits\<close>)

section \<open>Directory listings are read back\<close>

text \<open>The format's reader of a listing: headers with their entries until the bytes are used up.\<close>

fun read_entries :: "nat \<Rightarrow> 32 word \<Rightarrow> 32 word \<Rightarrow> bytes \<Rightarrow> dirEntry list \<times> bytes" where
  "read_entries 0 start ino bs = ([], bs)"
| "read_entries (Suc k) start ino bs =
     (let n = unat (GetUint16 (drop 6 bs)) + 1;
          e = \<lparr> de_name = take n (drop 8 bs), childInode = ino + scast (GetUint16 (drop 2 bs)),
                inodeBlockByte = start, inodeBlockOff = GetUint16 bs,
                basicType = GetUint16 (drop 4 bs) \<rparr>;
          (es, rest) = read_entries k start ino (drop (8 + n) bs)
      in (e # es, rest))"

lemma read_entries_shorter:
  "read_entries k start ino bs = (es, rest) \<Longrightarrow> length rest \<le> length bs"
proof (induction k arbitrary: bs es)
  case (Suc k)
  obtain es' where "read_entries k start ino (drop (9 + unat (GetUint16 (drop 6 bs))) bs) = (es', rest)"
    using Suc.prems by (auto simp: Let_def split: prod.splits)
  from Suc.IH [OF this] show ?case by simp
qed simp

function read_dir :: "bytes \<Rightarrow> dirEntry list" where
  "read_dir bs =
     (if length bs < 12 then []
      else case read_entries (unat (GetUint32 bs) + 1) (GetUint32 (drop 4 bs)) (GetUint32 (drop 8 bs)) (drop 12 bs) of
             (es, rest) \<Rightarrow> es @ read_dir rest)"
  by pat_completeness auto
termination
proof (relation "measure length", goal_cases)
  case (2 bs es rest)
  then show ?case using read_entries_shorter [OF 2(2) [symmetric]] by simp
qed simp

declare read_dir.simps [simp del]

text \<open>The bytes of a listing, as a function of the sorted entries.\<close>

function listing_bytes :: "dirEntry list \<Rightarrow> bytes" where
  "listing_bytes [] = []"
| "listing_bytes (base # rest) =
     (let count = group_len base rest 1 in
      dir_header_bytes count base @
      concat (map (dir_entry_bytes base) (take count (base # rest))) @
      listing_bytes (drop count (base # rest)))"
  by pat_completeness auto
termination
  by (relation "measure length") (use group_len_ge [of 1] in \<open>auto simp: Suc_le_eq\<close>)

definition name_ok :: "dirEntry \<Rightarrow> bool" where
  "name_ok e = (1 \<le> length (de_name e) \<and> length (de_name e) \<le> 256)"

definition delta_ok :: "dirEntry \<Rightarrow> dirEntry \<Rightarrow> bool" where
  "delta_ok base e =
     (inodeBlockByte e = inodeBlockByte base \<and>
      uint (childInode e) - uint (childInode base) \<le> 32767 \<and>
      uint (childInode e) - uint (childInode base) \<ge> -32768)"

lemma group_len_le: "group_len base ns k \<le> k + length ns"
  by (induction base ns k rule: group_len.induct) (auto simp: Let_def)

lemma group_len_bound: "k \<le> 256 \<Longrightarrow> group_len base ns k \<le> 256"
  by (induction base ns k rule: group_len.induct) (auto simp: Let_def maxDirEntriesPerHeader_def)

lemma group_len_Cons:
  "group_len base (n # ns) k = (if k < 256 \<and> delta_ok base n then group_len base ns (Suc k) else k)"
  by (simp add: Let_def maxDirEntriesPerHeader_def delta_ok_def)

lemma group_len_delta:
  "\<forall>e \<in> set (take (group_len base ns k - k) ns). delta_ok base e"
proof (induction ns arbitrary: k)
  case (Cons n ns)
  have "group_len base ns (Suc k) - k = Suc (group_len base ns (Suc k) - Suc k)"
    using group_len_ge [of "Suc k" base ns] by simp
  then show ?case using Cons.IH [of "Suc k"] by (simp del: group_len.simps add: group_len_Cons)
qed simp

lemma delta_ok_refl [simp]: "delta_ok base base"
  by (simp add: delta_ok_def)

lemma group_members:
  "\<forall>e \<in> set (take (group_len base rest 1) (base # rest)). delta_ok base e"
proof -
  obtain c where c: "group_len base rest 1 = Suc c"
    using group_len_ge [of 1 base rest] by (cases "group_len base rest 1") auto
  then show ?thesis using group_len_delta [of base rest 1] by simp
qed

lemma group_nonempty: "take (group_len base rest 1) (base # rest) \<noteq> []"
  using group_len_ge [of 1 base rest] by (cases "group_len base rest 1") auto

lemma delta_read:
  assumes "delta_ok base e"
  shows "childInode base + scast (of_int (uint (childInode e) - uint (childInode base)) :: 16 word) =
         childInode e"
proof -
  let ?d = "uint (childInode e) - uint (childInode base)"
  have "sint (of_int ?d :: 16 word) = ?d"
    using assms unfolding int_word_sint by (simp add: delta_ok_def)
  then have "scast (of_int ?d :: 16 word) = (of_int ?d :: 32 word)" by (simp add: scast_eq)
  then show ?thesis by simp
qed

lemma read_entries_bytes:
  assumes "\<forall>e \<in> set es. delta_ok base e \<and> name_ok e"
  shows "read_entries (length es) (inodeBlockByte base) (childInode base)
           (concat (map (dir_entry_bytes base) es) @ r) = (es, r)"
  using assms
proof (induction es)
  case (Cons e es)
  define bs where "bs = dir_entry_bytes base e @ concat (map (dir_entry_bytes base) es) @ r"
  have l: "1 \<le> length (de_name e)" "length (de_name e) \<le> 256"
    using Cons.prems by (simp_all add: name_ok_def)
  have "unat (of_nat (length (de_name e) - 1) :: 16 word) = length (de_name e) - 1"
    by (rule unat_of_nat_less) (use l(2) in simp)
  then have n: "unat (of_nat (length (de_name e) - 1) :: 16 word) + 1 = length (de_name e)"
    using l(1) by (metis le_add_diff_inverse2)
  define k where "k = (of_nat (length (de_name e) - 1) :: 16 word)"
  define d where "d = (of_int (uint (childInode e) - uint (childInode base)) :: 16 word)"
  have entry: "dir_entry_bytes base e =
      PutUint16 (inodeBlockOff e) @ PutUint16 d @ PutUint16 (basicType e) @ PutUint16 k @ de_name e"
    by (simp only: dir_entry_bytes_def k_def d_def)
  have "unat (GetUint16 (drop 6 bs)) + 1 = length (de_name e)"
    using n [folded k_def] by (simp add: bs_def entry drop_append)
  moreover have "GetUint16 bs = inodeBlockOff e" "GetUint16 (drop 4 bs) = basicType e"
    "childInode base + scast (GetUint16 (drop 2 bs)) = childInode e"
    "drop 8 bs = de_name e @ concat (map (dir_entry_bytes base) es) @ r"
    "drop (8 + length (de_name e)) bs = concat (map (dir_entry_bytes base) es) @ r"
    using delta_read [of base e, folded d_def] Cons.prems by (simp_all add: bs_def entry drop_append)
  moreover have "inodeBlockByte e = inodeBlockByte base"
    using Cons.prems by (simp add: delta_ok_def)
  ultimately show ?case
    using Cons by (simp add: bs_def [symmetric] Let_def)
qed simp

lemma read_dir_listing:
  "\<forall>e \<in> set es. name_ok e \<Longrightarrow> read_dir (listing_bytes es) = es"
proof (induction es rule: listing_bytes.induct)
  case 1
  then show ?case by (simp add: read_dir.simps)
next
  case (2 base rest)
  define count where "count = group_len base rest 1"
  define grp where "grp = take count (base # rest)"
  define r where "r = listing_bytes (drop count (base # rest))"
  have len: "length grp = count"
    using group_len_le [of base rest 1] by (simp add: grp_def count_def)
  have c: "1 \<le> count" "count \<le> 256"
    using group_len_ge [of 1 base rest] group_len_bound [of 1 base rest] by (simp_all add: count_def)
  have "unat (of_nat (count - 1) :: 32 word) = count - 1"
    by (rule unat_of_nat_less) (use c(2) in simp)
  then have "unat (of_nat (count - 1) :: 32 word) + 1 = length grp"
    using c(1) len by (metis le_add_diff_inverse2)
  moreover have "read_entries (length grp) (inodeBlockByte base) (childInode base)
      (concat (map (dir_entry_bytes base) grp) @ r) = (grp, r)"
  proof (rule read_entries_bytes)
    show "\<forall>e \<in> set grp. delta_ok base e \<and> name_ok e"
      using 2(2) group_members [of base rest] unfolding grp_def count_def by (metis in_set_takeD)
  qed
  moreover have "read_dir r = drop count (base # rest)"
    unfolding r_def by (rule 2(1) [OF count_def]) (use 2(2) in_set_dropD in metis)
  ultimately have "read_dir (dir_header_bytes count base @ concat (map (dir_entry_bytes base) grp) @ r) =
      grp @ drop count (base # rest)"
    by (subst read_dir.simps) (simp add: dir_header_bytes_def drop_append)
  then show ?case by (simp add: Let_def count_def grp_def r_def)
qed

lemma listing_sizes:
  "es \<noteq> [] \<Longrightarrow> 12 \<le> length (listing_bytes es)"
  by (cases es) (simp_all add: Let_def dir_header_bytes_def)

context squash_codec
begin

lemma write_group_adv:
  "write_group m base es lb = Inr (m', lb') \<Longrightarrow> meta_inv m \<Longrightarrow> mw_comp m = comp \<Longrightarrow>
   meta_adv m m' (concat (map (dir_entry_bytes base) es)) \<and> meta_inv m' \<and> mw_comp m' = comp \<and>
   lb' = lb + of_nat (length (concat (map (dir_entry_bytes base) es))) \<and> (\<forall>e \<in> set es. name_ok e)"
proof (induction es arbitrary: m lb)
  case Nil
  then show ?case by (simp add: meta_adv_refl)
next
  case (Cons e es)
  have name: "name_ok e" using Cons.prems(1)
    by (cases "de_name e") (auto simp: name_ok_def split: if_splits)
  obtain m1 n where w: "metaWriter_Write m (dir_entry_bytes base e) = (m1, n, None)"
    and rest: "write_group m1 base es (lb + of_nat (length (dir_entry_bytes base e))) = Inr (m', lb')"
    using Cons.prems(1) by (auto split: if_splits prod.splits option.splits)
  have m1: "meta_inv m1" "mw_comp m1 = comp"
    using metaWriter_Write_inv [OF w Cons.prems(2)] Cons.prems(3) by simp_all
  show ?case
    using Cons.IH [OF rest m1] metaWriter_Write_adv [OF w Cons.prems(2,3)] meta_adv_trans name
    by (simp add: add.assoc)
qed

lemma write_groups_adv:
  "write_groups m es lb = Inr (m', lb') \<Longrightarrow> meta_inv m \<Longrightarrow> mw_comp m = comp \<Longrightarrow>
   meta_adv m m' (listing_bytes es) \<and> meta_inv m' \<and> mw_comp m' = comp \<and>
   lb' = lb + of_nat (length (listing_bytes es)) \<and> (\<forall>e \<in> set es. name_ok e)"
proof (induction m es lb rule: write_groups.induct)
  case (1 m lb)
  then show ?case by (simp add: meta_adv_refl)
next
  case (2 m base rest lb)
  define count where "count = group_len base rest 1"
  obtain m1 n m2 lb2 where w: "metaWriter_Write m (dir_header_bytes count base) = (m1, n, None)"
    and g: "write_group m1 base (take count (base # rest)) (lb + 12) = Inr (m2, lb2)"
    and r: "write_groups m2 (drop count (base # rest)) lb2 = Inr (m', lb')"
    using 2(2) by (auto simp: Let_def count_def split: prod.splits option.splits sum.splits)
  have m1: "meta_inv m1" "mw_comp m1 = comp"
    using metaWriter_Write_inv [OF w 2(3)] 2(4) by simp_all
  note G = write_group_adv [OF g m1]
  have IH: "meta_adv m2 m' (listing_bytes (drop count (base # rest))) \<and> meta_inv m' \<and> mw_comp m' = comp \<and>
      lb' = lb2 + of_nat (length (listing_bytes (drop count (base # rest)))) \<and>
      (\<forall>e \<in> set (drop count (base # rest)). name_ok e)"
    using 2(1) [OF count_def w [symmetric] refl refl g refl r] G by simp
  have names: "\<forall>e \<in> set (base # rest). name_ok e"
    using G IH by (metis append_take_drop_id Un_iff set_append)
  have "meta_adv m m' (dir_header_bytes count base @
      concat (map (dir_entry_bytes base) (take count (base # rest))) @
      listing_bytes (drop count (base # rest)))"
    using metaWriter_Write_adv [OF w 2(3,4)] G IH meta_adv_trans by metis
  moreover have "lb' = lb + of_nat (length (listing_bytes (base # rest)))"
    using G IH by (simp add: Let_def count_def dir_header_bytes_def)
  ultimately show ?case using IH names by (simp add: Let_def count_def)
qed

end

end
