(* ===== verification/Go_Path.thy ===== *)
theory Go_Path
  imports Go_Prelude
begin

text \<open>
  The part of Go's packages \<^verbatim>\<open>path\<close> and \<^verbatim>\<open>path/filepath\<close> (Unix rules) the sources call: lexical
  cleaning, joining, directory, base name, extension.  Cleaning is given by the four rules of
  its documentation over the slash-separated components.
\<close>

abbreviation slash :: char where "slash \<equiv> CHR ''/''"

definition IsAbs :: "string \<Rightarrow> bool" where
  "IsAbs p = HasPrefix p ''/''"

text \<open>One component of \<^verbatim>\<open>Clean\<close> on the stack of components kept so far (innermost first).\<close>

definition clean_step :: "bool \<Rightarrow> string list \<Rightarrow> string \<Rightarrow> string list" where
  "clean_step rooted st c =
     (if c = [] \<or> c = ''.'' then st
      else if c = ''..'' then
        (case st of
           [] \<Rightarrow> (if rooted then [] else [''..''])
         | x # xs \<Rightarrow> (if x = ''..'' then ''..'' # st else xs))
      else c # st)"

definition clean_comps :: "bool \<Rightarrow> string list \<Rightarrow> string list" where
  "clean_comps rooted cs = rev (foldl (clean_step rooted) [] cs)"

definition Clean :: "string \<Rightarrow> string" where
  "Clean p =
     (let rooted = IsAbs p;
          body = join slash (clean_comps rooted (Split p slash))
      in if rooted then slash # body else if body = [] then ''.'' else body)"

text \<open>\<^verbatim>\<open>filepath.Join\<close>: empty elements are ignored, the result is cleaned.\<close>

definition Join :: "string list \<Rightarrow> string" where
  "Join elems =
     (let es = filter (\<lambda>e. e \<noteq> []) elems
      in if es = [] then [] else Clean (join slash es))"

text \<open>The part up to and including the last slash, and the part after it (\<^verbatim>\<open>path.Split\<close>).\<close>

definition path_split :: "string \<Rightarrow> string \<times> string" where
  "path_split p =
     (case LastIndexAny p [slash] of
        None \<Rightarrow> ([], p)
      | Some i \<Rightarrow> (take (Suc i) p, drop (Suc i) p))"

definition Dir :: "string \<Rightarrow> string" where
  "Dir p = Clean (fst (path_split p))"

definition strip_slashes :: "string \<Rightarrow> string" where
  "strip_slashes p = rev (dropWhile (\<lambda>c. c = slash) (rev p))"

definition Base :: "string \<Rightarrow> string" where
  "Base p =
     (if p = [] then ''.''
      else let b = snd (path_split (strip_slashes p))
           in if b = [] then ''/'' else b)"

text \<open>\<^verbatim>\<open>filepath.Ext\<close>: the suffix from the last dot of the final element.\<close>

definition Ext :: "string \<Rightarrow> string" where
  "Ext p =
     (let b = snd (path_split p)
      in case LastIndexAny b [CHR ''.''] of None \<Rightarrow> [] | Some i \<Rightarrow> drop i b)"

section \<open>Canonical paths\<close>

text \<open>A component that \<^verbatim>\<open>Clean\<close> keeps: non-empty, without a slash, neither dot nor dot-dot.\<close>

definition good_comp :: "string \<Rightarrow> bool" where
  "good_comp c = (c \<noteq> [] \<and> c \<noteq> ''.'' \<and> c \<noteq> ''..'' \<and> slash \<notin> set c)"

lemma clean_good:
  "\<forall>c \<in> set cs. good_comp c \<Longrightarrow> foldl (clean_step r) st cs = rev cs @ st"
  by (induction cs arbitrary: st) (auto simp: clean_step_def good_comp_def)

lemma clean_comps_good: "\<forall>c \<in> set cs. good_comp c \<Longrightarrow> clean_comps r cs = cs"
  by (simp add: clean_comps_def clean_good)

text \<open>Rooted cleaning leaves only good components: no climbing above the root.\<close>

lemma clean_rooted_good:
  assumes "\<forall>c \<in> set cs. slash \<notin> set c" "\<forall>c \<in> set st. good_comp c"
  shows "\<forall>c \<in> set (foldl (clean_step True) st cs). good_comp c"
  using assms
proof (induction cs arbitrary: st)
  case (Cons c cs)
  have "\<forall>x \<in> set (clean_step True st c). good_comp x"
    using Cons.prems by (auto simp: clean_step_def good_comp_def split: list.splits if_splits)
  then show ?case using Cons by simp
qed simp

lemma clean_comps_rooted:
  "\<forall>c \<in> set (clean_comps True (Split p slash)). good_comp c"
  using clean_rooted_good [of "Split p slash" "[]"] Split_no_sep [of _ p slash]
  by (auto simp: clean_comps_def)

lemma IsAbs_Cons: "IsAbs p \<longleftrightarrow> (\<exists>q. p = slash # q)"
  by (auto simp: IsAbs_def HasPrefix_iff)

lemma Clean_abs:
  "IsAbs p \<Longrightarrow> \<exists>cs. Clean p = slash # join slash cs \<and> (\<forall>c \<in> set cs. good_comp c)"
  using clean_comps_rooted [of p] by (auto simp: Clean_def Let_def)

lemma Split_Cons_sep [simp]: "Split (c # s) c = [] # Split s c"
  by simp

lemma Clean_canonical:
  assumes "\<forall>c \<in> set cs. good_comp c"
  shows "Clean (slash # join slash cs) = slash # join slash cs"
proof (cases "cs = []")
  case True
  then show ?thesis
    by (simp add: Clean_def IsAbs_Cons clean_comps_def clean_step_def)
next
  case False
  then have "Split (join slash cs) slash = cs"
    using Split_join [of cs slash] assms by (auto simp: good_comp_def)
  then have "clean_comps True (Split (slash # join slash cs) slash) = cs"
    using clean_good [OF assms, of True "[]"] by (simp add: clean_comps_def clean_step_def)
  then show ?thesis by (simp add: Clean_def IsAbs_Cons)
qed

lemma Clean_idem_abs: "IsAbs p \<Longrightarrow> Clean (Clean p) = Clean p"
  using Clean_abs [of p] Clean_canonical by metis

lemma join_snoc: "cs \<noteq> [] \<Longrightarrow> join s (cs @ [c]) = join s cs @ s # c"
proof (induction s cs rule: join.induct)
  case (3 c v va vb)
  then show ?case by (cases vb) auto
qed auto

lemma LastIndexAny_none: "LastIndexAny s cs = None \<longleftrightarrow> set s \<inter> set cs = {}"
  by (induction s) (auto split: option.splits)

lemma LastIndexAny_append:
  "set b \<inter> set cs = {} \<Longrightarrow> x \<in> set cs \<Longrightarrow> LastIndexAny (a @ x # b) cs = Some (length a)"
  using LastIndexAny_none [of b cs] by (induction a) auto

lemma path_split_append:
  "slash \<notin> set b \<Longrightarrow> path_split (a @ slash # b) = (a @ [slash], b)"
  using LastIndexAny_append [of b "[slash]" slash a] by (auto simp: path_split_def)

lemma Dir_canonical:
  assumes "\<forall>c \<in> set cs. good_comp c" "good_comp b"
  shows "Dir (slash # join slash (cs @ [b])) = slash # join slash cs"
proof (cases "cs = []")
  case True
  then show ?thesis
    using assms path_split_append [of b "[]"] Clean_canonical [of "[]"]
    by (simp add: Dir_def good_comp_def)
next
  case False
  have "slash # join slash (cs @ [b]) = (slash # join slash cs) @ slash # b"
    using join_snoc [OF False] by simp
  then have "fst (path_split (slash # join slash (cs @ [b]))) = slash # join slash cs @ [slash]"
    using path_split_append [of b "slash # join slash cs"] assms(2) by (simp add: good_comp_def)
  moreover have "Split (join slash cs @ [slash]) slash = cs @ [[]]"
  proof -
    have "join slash cs @ [slash] = join slash (cs @ [[]])" using join_snoc [OF False] by simp
    then show ?thesis using Split_join [of "cs @ [[]]" slash] assms(1) by (auto simp: good_comp_def)
  qed
  moreover have "clean_comps True ([] # cs @ [[]]) = cs"
    using clean_good [OF assms(1), of True "[]"] by (simp add: clean_comps_def clean_step_def)
  ultimately show ?thesis by (simp add: Dir_def Clean_def IsAbs_Cons)
qed

lemma Base_canonical:
  assumes "good_comp b"
  shows "Base (a @ slash # b) = b"
proof -
  have "last b \<noteq> slash" using assms by (metis good_comp_def last_in_set)
  then have "strip_slashes (a @ slash # b) = a @ slash # b"
    using assms by (cases b rule: rev_cases) (auto simp: strip_slashes_def good_comp_def)
  then show ?thesis
    using path_split_append [of b a] assms by (simp add: Base_def good_comp_def)
qed

section \<open>Absolute paths as lists of components\<close>

abbreviation abs_path :: "string list \<Rightarrow> string" where
  "abs_path cs \<equiv> slash # join slash cs"

abbreviation good_comps :: "string list \<Rightarrow> bool" where
  "good_comps cs \<equiv> \<forall>c \<in> set cs. good_comp c"

lemma clean_comps_skip: "clean_comps r ([] # xs) = clean_comps r xs"
  by (simp add: clean_comps_def clean_step_def)

lemma join_append:
  "xs \<noteq> [] \<Longrightarrow> ys \<noteq> [] \<Longrightarrow> join s (xs @ ys) = join s xs @ s # join s ys"
proof (induction s xs rule: join.induct)
  case (2 c w)
  then show ?case by (cases ys) auto
qed auto

lemma Join_abs:
  assumes "good_comps (cs @ ps)" "ps \<noteq> []"
  shows "Join [abs_path cs, join slash ps] = abs_path (cs @ ps)"
proof -
  have sep: "\<forall>c \<in> set (cs @ ps). slash \<notin> set c" using assms(1) by (auto simp: good_comp_def)
  have "join slash ps \<noteq> []"
  proof -
    obtain c cs' where "ps = c # cs'" using assms(2) by (cases ps) auto
    then show ?thesis using assms(1) by (cases cs') (simp_all add: good_comp_def)
  qed
  then have j: "Join [abs_path cs, join slash ps] = Clean (abs_path cs @ slash # join slash ps)"
    by (simp add: Join_def)
  have "clean_comps True (Split (abs_path cs @ slash # join slash ps) slash) = cs @ ps"
  proof (cases "cs = []")
    case True
    then show ?thesis
      using assms clean_comps_good [of ps] sep by (simp add: clean_comps_skip Split_join)
  next
    case False
    then have "join slash cs @ slash # join slash ps = join slash (cs @ ps)" using assms(2) by (simp add: join_append)
    then show ?thesis
      using clean_comps_good [OF assms(1)] sep assms(2) Split_join [of "cs @ ps" slash]
      by (simp add: clean_comps_skip)
  qed
  then show ?thesis unfolding j by (simp add: Clean_def Let_def IsAbs_def)
qed

lemma join_not_abs: "good_comps ps \<Longrightarrow> \<not> IsAbs (join slash ps)"
proof (cases ps)
  case (Cons c cs)
  assume "good_comps ps"
  then obtain x c' where "c = x # c'" "x \<noteq> slash" using Cons by (cases c) (auto simp: good_comp_def)
  then show ?thesis using Cons by (cases cs) (auto simp: IsAbs_def)
qed (simp add: IsAbs_def)

text \<open>The components a path walks from the root, as the operating system resolves it.\<close>

definition fpath :: "string \<Rightarrow> string list" where
  "fpath p = clean_comps True (Split p slash)"

lemma fpath_abs [simp]:
  assumes "good_comps cs"
  shows "fpath (abs_path cs) = cs"
proof (cases "cs = []")
  case True
  then show ?thesis by (simp add: fpath_def clean_comps_def clean_step_def)
next
  case False
  then have "Split (join slash cs) slash = cs"
    using Split_join [of cs slash] assms by (auto simp: good_comp_def)
  then show ?thesis using clean_comps_good [OF assms] by (simp add: fpath_def clean_comps_skip)
qed

lemma fpath_good: "good_comps (fpath p)"
  by (simp add: fpath_def clean_comps_rooted)

lemma Join_comp:
  assumes "good_comps cs" "good_comp c"
  shows "Join [abs_path cs, c] = abs_path (cs @ [c])"
  using Join_abs [of cs "[c]"] assms by auto

lemma Join_comp2:
  assumes "good_comps cs" "good_comp c" "good_comp e"
  shows "Join [abs_path cs, c, e] = abs_path (cs @ [c, e])"
proof -
  have "Join [abs_path cs, c, e] = Join [abs_path cs, join slash [c, e]]"
    using assms by (simp add: Join_def good_comp_def)
  then show ?thesis using Join_abs [of cs "[c, e]"] assms by auto
qed

end
