(* ===== verification/Squash_Writer.thy ===== *)
theory Squash_Writer
  imports Squash_Inode Go_Path
begin

text \<open>
  The streaming writer of \<^verbatim>\<open>src/squashfs/writer.go\<close>: options, the \<^verbatim>\<open>Create*\<close> operations, the file
  data writer.  An abstract file tree is the specification; the lemmas show that every
  operation refines it, rejects what the documentation says it rejects, and that data written
  through a file writer is read back from the image's data blocks.
\<close>

section \<open>Options and construction\<close>

record writerConfig =
  cfg_blockSize :: "32 word"
  cfg_compressor :: "Compressor option"
  cfg_mtime :: gotime

datatype Option =
    WithBlockSize "32 word"
  | WithCompressor "Compressor option"
  | WithFixedMtime gotime

definition apply_option :: "Option \<Rightarrow> writerConfig \<Rightarrow> sq_err + writerConfig" where
  "apply_option opt c =
     (case opt of
        WithBlockSize n \<Rightarrow>
          (if n < MinBlockSize \<or> n > MaxBlockSize
           then Inl (EMsg ''squashfs: block size out of range'')
           else if n AND (n - 1) \<noteq> 0
           then Inl (EMsg ''squashfs: block size must be a power of two'')
           else Inr (c\<lparr> cfg_blockSize := n \<rparr>))
      | WithCompressor co \<Rightarrow>
          (case co of
             None \<Rightarrow> Inl (EMsg ''squashfs: compressor is required'')
           | Some k \<Rightarrow> Inr (c\<lparr> cfg_compressor := Some k \<rparr>))
      | WithFixedMtime t \<Rightarrow> Inr (c\<lparr> cfg_mtime := t \<rparr>))"

fun apply_options :: "Option list \<Rightarrow> writerConfig \<Rightarrow> sq_err + writerConfig" where
  "apply_options [] c = Inr c"
| "apply_options (opt # opts) c = ebind (apply_option opt c) (apply_options opts)"

text \<open>
  The writer returned by \<^verbatim>\<open>CreateFile\<close>.  A file writer is identified by its entry's path, which
  is unique.  \<^verbatim>\<open>stale\<close> is set exactly where the parent's \<^verbatim>\<open>curFile\<close> is cleared and \<^verbatim>\<open>curFile\<close> is set
  only when it is nil, so a file writer is stale unless it is the parent's \<^verbatim>\<open>curFile\<close>.
\<close>

record fileWriter =
  fw_path :: string
  fw_buf :: bytes

text \<open>
  \<^verbatim>\<open>Writer\<close>.  \<open>w_out\<close> are the bytes of the output file from its start to the current position
  (the writer seeks to the start once and then only appends until the final superblock).
\<close>

record Writer =
  w_out :: bytes
  w_cfg :: writerConfig
  w_closed :: bool
  w_finished :: bool
  w_outPos :: "64 word"
  w_entries :: "string \<rightharpoonup> entry"
  w_entryOrder :: "string list"
  w_curFile :: "fileWriter option"
  w_ids :: idTable

definition w_compressor :: "Writer \<Rightarrow> Compressor" where
  "w_compressor w = the (cfg_compressor (w_cfg w))"

text \<open>\<open>seek\<close> tells whether \<^verbatim>\<open>out.Seek(0, io.SeekStart)\<close> succeeds.\<close>

definition NewWriter :: "sink \<Rightarrow> bool \<Rightarrow> Option list \<Rightarrow> sq_err + Writer" where
  "NewWriter wr seek opts =
     (case apply_options opts \<lparr> cfg_blockSize = DefaultBlockSize, cfg_compressor = None, cfg_mtime = None \<rparr> of
        Inl e \<Rightarrow> Inl e
      | Inr cfg \<Rightarrow>
          if cfg_compressor cfg = None then Inl (EMsg ''squashfs: WithCompressor is required'')
          else if \<not> seek then Inl EWrite
          else case io_Write wr [] (replicate superblockSize (char_of (0 :: nat))) of
                 (out, _, Some e) \<Rightarrow> Inl e
               | (out, _, None) \<Rightarrow>
                   Inr \<lparr> w_out = out, w_cfg = cfg, w_closed = False, w_finished = False,
                         w_outPos = of_nat superblockSize, w_entries = Map.empty,
                         w_entryOrder = [], w_curFile = None, w_ids = newIDTable \<rparr>)"

section \<open>File data\<close>

definition upd_entry :: "(string \<rightharpoonup> entry) \<Rightarrow> string \<Rightarrow> (entry \<Rightarrow> entry) \<Rightarrow> (string \<rightharpoonup> entry)" where
  "upd_entry es p f = (case es p of None \<Rightarrow> es | Some e \<Rightarrow> es(p \<mapsto> f e))"

text \<open>
  \<^verbatim>\<open>fileWriter.emitBlock\<close> on the writer's current file; the text that wraps an error is dropped.
\<close>

definition emitBlock :: "sink \<Rightarrow> Writer \<Rightarrow> fileWriter \<Rightarrow> Writer \<times> fileWriter \<times> sq_err option" where
  "emitBlock wr w fw =
     (if length (fw_buf fw) = 0 then (w, fw, None)
      else
        let (out, err) = Compress (w_compressor w) [] (fw_buf fw);
            raw = (err = Some ErrIncompressible \<or> (err = None \<and> length out \<ge> length (fw_buf fw)))
        in if \<not> raw \<and> err \<noteq> None then (w, fw, err)
           else
             let disk = (if raw then fw_buf fw else out);
                 sizeWord = (if raw then of_nat (length (fw_buf fw)) OR DataBlockUncompressedBit
                             else of_nat (length out))
             in case io_Write wr (w_out w) disk of
                  (out', n, Some e) \<Rightarrow>
                    (w\<lparr> w_out := out', w_outPos := w_outPos w + of_nat n \<rparr>, fw, Some e)
                | (out', n, None) \<Rightarrow>
                    (w\<lparr> w_out := out', w_outPos := w_outPos w + of_nat n,
                        w_entries := upd_entry (w_entries w) (fw_path fw)
                          (\<lambda>e. e\<lparr> fileBlockSizes := fileBlockSizes e @ [sizeWord] \<rparr>) \<rparr>,
                     fw\<lparr> fw_buf := [] \<rparr>, None))"

definition flushTail :: "sink \<Rightarrow> Writer \<Rightarrow> fileWriter \<Rightarrow> Writer \<times> fileWriter \<times> sq_err option" where
  "flushTail wr w fw =
     (if length (fw_buf fw) = 0 then (w, fw, None) else emitBlock wr w fw)"

definition flushCurFile :: "sink \<Rightarrow> Writer \<Rightarrow> Writer \<times> sq_err option" where
  "flushCurFile wr w =
     (case w_curFile w of
        None \<Rightarrow> (w, None)
      | Some fw \<Rightarrow>
          (case flushTail wr w fw of
             (w', fw', Some e) \<Rightarrow> (w'\<lparr> w_curFile := Some fw' \<rparr>, Some e)
           | (w', fw', None) \<Rightarrow> (w'\<lparr> w_curFile := None \<rparr>, None)))"

definition w_blockSize :: "Writer \<Rightarrow> nat" where
  "w_blockSize w = unat (cfg_blockSize (w_cfg w))"

lemma emitBlock_ok:
  "emitBlock wr w fw = (w', fw', None) \<Longrightarrow>
     fw_buf fw' = [] \<and> fw_path fw' = fw_path fw \<and> w_cfg w' = w_cfg w \<and> w_blockSize w' = w_blockSize w"
  by (auto simp: emitBlock_def Let_def w_blockSize_def split: if_splits prod.splits option.splits)

text \<open>
  The loop of \<^verbatim>\<open>fileWriter.Write\<close>.  A buffer above the block size panics on a negative slice
  bound, and a block size of zero would loop for ever; both are values here, and the writer's
  invariant excludes them.
\<close>

function fileWriter_Write_loop ::
  "sink \<Rightarrow> Writer \<Rightarrow> fileWriter \<Rightarrow> bytes \<Rightarrow> nat \<Rightarrow> Writer \<times> fileWriter \<times> nat \<times> sq_err option" where
  "fileWriter_Write_loop wr w fw p written =
     (if length p = 0 then (w, fw, written, None)
      else if length (fw_buf fw) > w_blockSize w then (w, fw, written, Some EPanic)
      else if w_blockSize w = 0 then (w, fw, written, Some EDiverge)
      else
        let need = w_blockSize w - length (fw_buf fw);
            n = (if length p > need then need else length p);
            fw1 = fw\<lparr> fw_buf := fw_buf fw @ take n p \<rparr>;
            written1 = written + n;
            p1 = drop n p
        in if length (fw_buf fw1) = w_blockSize w
           then (case emitBlock wr w fw1 of
                   (w2, fw2, Some e) \<Rightarrow> (w2, fw2, written1, Some e)
                 | (w2, fw2, None) \<Rightarrow> fileWriter_Write_loop wr w2 fw2 p1 written1)
           else fileWriter_Write_loop wr w fw1 p1 written1)"
  by pat_completeness auto
termination
  by (relation "measure (\<lambda>(_, w, fw, p, _). 2 * length p +
        (if length (fw_buf fw) = w_blockSize w then 1 else 0))")
     (auto dest!: emitBlock_ok [OF sym] split: if_splits)

declare fileWriter_Write_loop.simps [simp del]

text \<open>\<^verbatim>\<open>fw.Write(p)\<close> on the file writer of the file at \<open>path\<close>.\<close>

definition fileWriter_Write :: "sink \<Rightarrow> Writer \<Rightarrow> string \<Rightarrow> bytes \<Rightarrow> Writer \<times> nat \<times> sq_err option" where
  "fileWriter_Write wr w path p =
     (case w_curFile w of
        None \<Rightarrow> (w, 0, Some ErrStaleEntry)
      | Some fw \<Rightarrow>
          if fw_path fw \<noteq> path then (w, 0, Some ErrStaleEntry)
          else if w_closed w then (w, 0, Some ErrClosed)
          else case fileWriter_Write_loop wr w fw p 0 of
                 (w', fw', n, Some e) \<Rightarrow> (w'\<lparr> w_curFile := Some fw' \<rparr>, n, Some e)
               | (w', fw', n, None) \<Rightarrow>
                   (w'\<lparr> w_curFile := Some fw',
                        w_entries := upd_entry (w_entries w') path
                          (\<lambda>e. e\<lparr> fileSize := fileSize e + of_nat n \<rparr>) \<rparr>, n, None))"

section \<open>Creating entries\<close>

definition validatePath :: "string \<Rightarrow> sq_err option" where
  "validatePath p =
     (if p = [] \<or> p = ''/'' then Some ErrInvalidPath
      else if \<not> HasPrefix p ''/'' then Some ErrInvalidPath
      else if HasSuffix p ''/'' then Some ErrInvalidPath
      else if list_ex (\<lambda>part. part = [] \<or> part = ''.'' \<or> part = ''..'') (Split (drop 1 p) slash)
      then Some ErrInvalidPath
      else None)"

definition beginEntry :: "sink \<Rightarrow> Writer \<Rightarrow> string \<Rightarrow> Writer \<times> sq_err option" where
  "beginEntry wr w p =
     (if w_closed w then (w, Some ErrClosed)
      else case flushCurFile wr w of
             (w1, Some e) \<Rightarrow> (w1, Some e)
           | (w1, None) \<Rightarrow>
               (case validatePath p of
                  Some e \<Rightarrow> (w1, Some e)
                | None \<Rightarrow>
                    if w_entries w1 p \<noteq> None then (w1, Some (EMsg ''squashfs: duplicate entry''))
                    else (w1, None)))"

definition add_entry :: "Writer \<Rightarrow> entry \<Rightarrow> Writer" where
  "add_entry w e =
     w\<lparr> w_entries := (w_entries w)(e_path e \<mapsto> e), w_entryOrder := w_entryOrder w @ [e_path e] \<rparr>"

definition CreateFile :: "sink \<Rightarrow> Writer \<Rightarrow> Attrs \<Rightarrow> Writer \<times> sq_err option" where
  "CreateFile wr w attrs =
     (if w_closed w then (w, Some ErrClosed)
      else case flushCurFile wr w of
             (w1, Some e) \<Rightarrow> (w1, Some e)
           | (w1, None) \<Rightarrow>
               (case validatePath (a_Path attrs) of
                  Some e \<Rightarrow> (w1, Some e)
                | None \<Rightarrow>
                    if w_entries w1 (a_Path attrs) \<noteq> None
                    then (w1, Some (EMsg ''squashfs: duplicate entry''))
                    else ((add_entry w1 ((mk_entry (a_Path attrs) kindFile attrs)
                             \<lparr> fileBlocksStart := w_outPos w1 \<rparr>))
                            \<lparr> w_curFile := Some \<lparr> fw_path = a_Path attrs, fw_buf = [] \<rparr> \<rparr>, None)))"

definition CreateDir :: "sink \<Rightarrow> Writer \<Rightarrow> Attrs \<Rightarrow> Writer \<times> sq_err option" where
  "CreateDir wr w attrs =
     (case beginEntry wr w (a_Path attrs) of
        (w1, Some e) \<Rightarrow> (w1, Some e)
      | (w1, None) \<Rightarrow> (add_entry w1 (mk_entry (a_Path attrs) kindDir attrs), None))"

definition CreateSymlink :: "sink \<Rightarrow> Writer \<Rightarrow> Attrs \<Rightarrow> string \<Rightarrow> Writer \<times> sq_err option" where
  "CreateSymlink wr w attrs target =
     (case beginEntry wr w (a_Path attrs) of
        (w1, Some e) \<Rightarrow> (w1, Some e)
      | (w1, None) \<Rightarrow>
          if target = [] then (w1, Some (EMsg ''squashfs: symlink target must be non-empty''))
          else (add_entry w1 ((mk_entry (a_Path attrs) kindSymlink attrs)\<lparr> symlinkTarget := target \<rparr>), None))"

definition CreateHardlink :: "sink \<Rightarrow> Writer \<Rightarrow> string \<Rightarrow> string \<Rightarrow> Writer \<times> sq_err option" where
  "CreateHardlink wr w linkPath target =
     (if w_closed w then (w, Some ErrClosed)
      else case flushCurFile wr w of
             (w1, Some e) \<Rightarrow> (w1, Some e)
           | (w1, None) \<Rightarrow>
               (case validatePath linkPath of
                  Some e \<Rightarrow> (w1, Some e)
                | None \<Rightarrow>
                    (case validatePath target of
                       Some e \<Rightarrow> (w1, Some e)
                     | None \<Rightarrow>
                         if w_entries w1 linkPath \<noteq> None
                         then (w1, Some (EMsg ''squashfs: duplicate entry''))
                         else (case w_entries w1 target of
                                 None \<Rightarrow> (w1, Some ErrHardlinkTarget)
                               | Some tgt \<Rightarrow>
                                   if e_kind tgt \<noteq> kindFile then (w1, Some ErrHardlinkTarget)
                                   else (add_entry w1 ((mk_entry linkPath kindHardlink zero_Attrs)
                                           \<lparr> hardlinkTarget := Some target \<rparr>), None)))))"

definition create_device ::
  "entryKind \<Rightarrow> sink \<Rightarrow> Writer \<Rightarrow> Attrs \<Rightarrow> 32 word \<Rightarrow> 32 word \<Rightarrow> Writer \<times> sq_err option" where
  "create_device k wr w attrs major minor =
     (case beginEntry wr w (a_Path attrs) of
        (w1, Some e) \<Rightarrow> (w1, Some e)
      | (w1, None) \<Rightarrow>
          (add_entry w1 ((mk_entry (a_Path attrs) k attrs)\<lparr> devMajor := major, devMinor := minor \<rparr>), None))"

definition CreateCharDevice where "CreateCharDevice = create_device kindCharDev"

definition CreateBlockDevice where "CreateBlockDevice = create_device kindBlockDev"

definition CreateFIFO :: "sink \<Rightarrow> Writer \<Rightarrow> Attrs \<Rightarrow> Writer \<times> sq_err option" where
  "CreateFIFO wr w attrs =
     (case beginEntry wr w (a_Path attrs) of
        (w1, Some e) \<Rightarrow> (w1, Some e)
      | (w1, None) \<Rightarrow> (add_entry w1 (mk_entry (a_Path attrs) kindFIFO attrs), None))"

definition CreateSocket :: "sink \<Rightarrow> Writer \<Rightarrow> Attrs \<Rightarrow> Writer \<times> sq_err option" where
  "CreateSocket wr w attrs =
     (case beginEntry wr w (a_Path attrs) of
        (w1, Some e) \<Rightarrow> (w1, Some e)
      | (w1, None) \<Rightarrow> (add_entry w1 (mk_entry (a_Path attrs) kindSocket attrs), None))"

section \<open>Reader of file data\<close>

text \<open>
  A file's data blocks lie one after the other; a size word has the on-disk size in its low
  24 bits and bit 24 set for a block stored raw.
\<close>

fun read_data :: "(bytes \<Rightarrow> bytes) \<Rightarrow> 32 word list \<Rightarrow> bytes \<Rightarrow> bytes" where
  "read_data dec [] bs = []"
| "read_data dec (s # ss) bs =
     (let n = unat (s AND 0xFFFFFF); d = take n bs
      in (if bit s 24 then d else dec d) @ read_data dec ss (drop n bs))"

definition data_len :: "32 word list \<Rightarrow> nat" where
  "data_len ss = sum_list (map (\<lambda>s. unat (s AND 0xFFFFFF)) ss)"

lemma data_len_snoc [simp]: "data_len (ss @ [s]) = data_len ss + unat (s AND 0xFFFFFF)"
  by (simp add: data_len_def)

lemma read_data_more:
  "data_len ss \<le> length bs \<Longrightarrow> read_data dec ss (bs @ rst) = read_data dec ss bs"
  by (induction ss arbitrary: bs) (simp_all add: data_len_def Let_def)

lemma read_data_snoc:
  "data_len ss = length bs \<Longrightarrow> unat (s AND 0xFFFFFF) = length d \<Longrightarrow>
     read_data dec (ss @ [s]) (bs @ d) = read_data dec ss bs @ (if bit s 24 then d else dec d)"
proof (induction ss arbitrary: bs)
  case (Cons t ss)
  then show ?case by (simp add: data_len_def Let_def)
qed (simp add: data_len_def)

lemma size_word:
  assumes "n < 2 ^ 24"
  shows "unat ((of_nat n OR DataBlockUncompressedBit) AND 0xFFFFFF) = n"
    and "bit (of_nat n OR DataBlockUncompressedBit) 24"
    and "unat ((of_nat n :: 32 word) AND 0xFFFFFF) = n"
    and "\<not> bit (of_nat n :: 32 word) 24"
proof -
  have m: "(0xFFFFFF :: 32 word) = mask 24" by (simp add: mask_eq_exp_minus_1)
  have t: "unat (take_bit 24 (of_nat n) :: 32 word) = n"
    using assms by (simp add: unsigned_take_bit_eq unat_of_nat_less take_bit_nat_eq_self_iff)
  show "unat ((of_nat n :: 32 word) AND 0xFFFFFF) = n"
    unfolding m take_bit_eq_mask [symmetric] by (rule t)
  show "unat ((of_nat n OR DataBlockUncompressedBit) AND 0xFFFFFF) = n"
    unfolding m take_bit_eq_mask [symmetric] using t by (simp add: DataBlockUncompressedBit_def)
  show "\<not> bit (of_nat n :: 32 word) 24"
    using bit_nat_iff_small [OF assms] by (simp add: bit_of_nat_iff)
  show "bit (of_nat n OR DataBlockUncompressedBit) 24"
    by (simp add: DataBlockUncompressedBit_def bit_or_iff bit_push_bit_iff)
qed

context squash_codec
begin

lemma emitBlock_step:
  assumes E: "emitBlock wr w fw = (w', fw', None)" and buf: "fw_buf fw \<noteq> []" "length (fw_buf fw) < 2 ^ 24"
    and c: "w_compressor w = comp" and e: "w_entries w (fw_path fw) = Some e"
  shows "\<exists>disk sw.
     w' = w\<lparr> w_out := w_out w @ disk, w_outPos := w_outPos w + of_nat (length disk),
            w_entries := (w_entries w)(fw_path fw \<mapsto> e\<lparr> fileBlockSizes := fileBlockSizes e @ [sw] \<rparr>) \<rparr> \<and>
     fw' = fw\<lparr> fw_buf := [] \<rparr> \<and> unat (sw AND 0xFFFFFF) = length disk \<and>
     (if bit sw 24 then disk else dec disk) = fw_buf fw"
proof -
  obtain out err where C: "Compress comp [] (fw_buf fw) = (out, err)" by (rule prod.exhaust)
  define raw where "raw = (err = Some ErrIncompressible \<or> (err = None \<and> length out \<ge> length (fw_buf fw)))"
  define disk where "disk = (if raw then fw_buf fw else out)"
  define sw where "sw = (if raw then of_nat (length (fw_buf fw)) OR DataBlockUncompressedBit
                         else of_nat (length out))"
  have eq: "emitBlock wr w fw =
      (if \<not> raw \<and> err \<noteq> None then (w, fw, err)
       else case io_Write wr (w_out w) disk of
          (out', n, Some e) \<Rightarrow> (w\<lparr> w_out := out', w_outPos := w_outPos w + of_nat n \<rparr>, fw, Some e)
        | (out', n, None) \<Rightarrow>
            (w\<lparr> w_out := out', w_outPos := w_outPos w + of_nat n,
                w_entries := upd_entry (w_entries w) (fw_path fw)
                  (\<lambda>e. e\<lparr> fileBlockSizes := fileBlockSizes e @ [sw] \<rparr>) \<rparr>,
             fw\<lparr> fw_buf := [] \<rparr>, None))"
    using buf(1) C c unfolding disk_def sw_def raw_def by (simp add: emitBlock_def Let_def)
  have ok: "raw \<or> err = None" using E eq by (auto split: if_splits)
  obtain out' n where W: "io_Write wr (w_out w) disk = (out', n, None)"
    and res: "w' = w\<lparr> w_out := out', w_outPos := w_outPos w + of_nat n,
        w_entries := upd_entry (w_entries w) (fw_path fw) (\<lambda>e. e\<lparr> fileBlockSizes := fileBlockSizes e @ [sw] \<rparr>) \<rparr>"
      "fw' = fw\<lparr> fw_buf := [] \<rparr>"
    using E ok unfolding eq by (auto split: prod.splits option.splits if_splits)
  have small: "\<not> raw \<Longrightarrow> length out < length (fw_buf fw)" using ok by (auto simp: raw_def)
  have "unat (sw AND 0xFFFFFF) = length disk"
    using buf(2) small by (auto simp: sw_def disk_def size_word)
  moreover have "(if bit sw 24 then disk else dec disk) = fw_buf fw"
    using buf(2) small size_word(2) [of "length (fw_buf fw)"] size_word(4) [of "length out"]
      restores [of "fw_buf fw" out] C ok
    by (auto simp: sw_def disk_def)
  ultimately show ?thesis
    using io_Write_ok [OF W] res e by (intro exI [of _ disk] exI [of _ sw]) (simp add: upd_entry_def)
qed

end

section \<open>Invariant and abstract file tree\<close>

definition file_data :: "(bytes \<Rightarrow> bytes) \<Rightarrow> bytes \<Rightarrow> entry \<Rightarrow> bytes" where
  "file_data dec out e = read_data dec (fileBlockSizes e) (drop (unat (fileBlocksStart e)) out)"

definition sealed_ok :: "(bytes \<Rightarrow> bytes) \<Rightarrow> nat \<Rightarrow> bytes \<Rightarrow> entry \<Rightarrow> bool" where
  "sealed_ok dec bs out e =
     (superblockSize \<le> unat (fileBlocksStart e) \<and>
      unat (fileBlocksStart e) + data_len (fileBlockSizes e) \<le> length out \<and>
      fileSize e = of_nat (length (file_data dec out e)) \<and>
      length (fileBlockSizes e) = block_count (length (file_data dec out e)) bs)"

definition open_ok :: "(bytes \<Rightarrow> bytes) \<Rightarrow> nat \<Rightarrow> bytes \<Rightarrow> entry \<Rightarrow> bytes \<Rightarrow> bool" where
  "open_ok dec bs out e buf =
     (superblockSize \<le> unat (fileBlocksStart e) \<and>
      unat (fileBlocksStart e) + data_len (fileBlockSizes e) = length out \<and>
      length (file_data dec out e) = length (fileBlockSizes e) * bs \<and> length buf < bs)"

definition link_ok :: "(string \<rightharpoonup> entry) \<Rightarrow> entry \<Rightarrow> bool" where
  "link_ok es e =
     (case hardlinkTarget e of
        None \<Rightarrow> False
      | Some t \<Rightarrow> (case es t of None \<Rightarrow> False | Some te \<Rightarrow> e_kind te = kindFile))"

definition file_ok :: "(bytes \<Rightarrow> bytes) \<Rightarrow> Writer \<Rightarrow> entry \<Rightarrow> bool" where
  "file_ok dec w e =
     (case w_curFile w of
        None \<Rightarrow> sealed_ok dec (w_blockSize w) (w_out w) e
      | Some fw \<Rightarrow>
          if fw_path fw = e_path e
          then open_ok dec (w_blockSize w) (w_out w) e (fw_buf fw) \<and>
               fileSize e = of_nat (length (file_data dec (w_out w) e) + length (fw_buf fw))
          else sealed_ok dec (w_blockSize w) (w_out w) e)"

definition entry_ok :: "(bytes \<Rightarrow> bytes) \<Rightarrow> Writer \<Rightarrow> string \<Rightarrow> entry \<Rightarrow> bool" where
  "entry_ok dec w p e =
     (e_path e = p \<and> validatePath p = None \<and>
      (e_kind e = kindHardlink \<longrightarrow> link_ok (w_entries w) e) \<and>
      (e_kind e = kindFile \<longrightarrow> file_ok dec w e))"

definition writer_inv :: "(bytes \<Rightarrow> bytes) \<Rightarrow> Writer \<Rightarrow> bool" where
  "writer_inv dec w \<longleftrightarrow>
     0 < w_blockSize w \<and> w_blockSize w \<le> 2 ^ 20 \<and> superblockSize \<le> length (w_out w) \<and>
     w_outPos w = of_nat (length (w_out w)) \<and>
     distinct (w_entryOrder w) \<and> set (w_entryOrder w) = dom (w_entries w) \<and>
     (\<forall>p e. w_entries w p = Some e \<longrightarrow> entry_ok dec w p e) \<and>
     (case w_curFile w of
        None \<Rightarrow> True
      | Some fw \<Rightarrow> (\<exists>e. w_entries w (fw_path fw) = Some e \<and> e_kind e = kindFile))"

datatype node =
    NFile bytes
  | NDir
  | NSymlink string
  | NHardlink string
  | NCharDev "32 word" "32 word"
  | NBlockDev "32 word" "32 word"
  | NFIFO
  | NSocket

type_synonym file_tree = "string \<rightharpoonup> Attrs \<times> node"

definition file_content :: "(bytes \<Rightarrow> bytes) \<Rightarrow> Writer \<Rightarrow> entry \<Rightarrow> bytes" where
  "file_content dec w e =
     file_data dec (w_out w) e @
     (case w_curFile w of
        None \<Rightarrow> []
      | Some fw \<Rightarrow> if fw_path fw = e_path e then fw_buf fw else [])"

definition abs_node :: "(bytes \<Rightarrow> bytes) \<Rightarrow> Writer \<Rightarrow> entry \<Rightarrow> node" where
  "abs_node dec w e =
     (case e_kind e of
        kindFile \<Rightarrow> NFile (file_content dec w e)
      | kindDir \<Rightarrow> NDir
      | kindSymlink \<Rightarrow> NSymlink (symlinkTarget e)
      | kindHardlink \<Rightarrow> NHardlink (case hardlinkTarget e of None \<Rightarrow> [] | Some t \<Rightarrow> t)
      | kindCharDev \<Rightarrow> NCharDev (devMajor e) (devMinor e)
      | kindBlockDev \<Rightarrow> NBlockDev (devMajor e) (devMinor e)
      | kindFIFO \<Rightarrow> NFIFO
      | kindSocket \<Rightarrow> NSocket)"

definition abs_tree :: "(bytes \<Rightarrow> bytes) \<Rightarrow> Writer \<Rightarrow> file_tree" where
  "abs_tree dec w p = map_option (\<lambda>e. (e_attrs e, abs_node dec w e)) (w_entries w p)"

text \<open>The operations of a client and their effect on the abstract tree.\<close>

datatype wop =
    OFile Attrs
  | ODir Attrs
  | OSymlink Attrs string
  | OHardlink string string
  | OCharDev Attrs "32 word" "32 word"
  | OBlockDev Attrs "32 word" "32 word"
  | OFIFO Attrs
  | OSocket Attrs
  | OWrite string bytes

definition run_op :: "sink \<Rightarrow> Writer \<Rightarrow> wop \<Rightarrow> Writer \<times> sq_err option" where
  "run_op wr w op =
     (case op of
        OFile a \<Rightarrow> CreateFile wr w a
      | ODir a \<Rightarrow> CreateDir wr w a
      | OSymlink a t \<Rightarrow> CreateSymlink wr w a t
      | OHardlink l t \<Rightarrow> CreateHardlink wr w l t
      | OCharDev a x y \<Rightarrow> CreateCharDevice wr w a x y
      | OBlockDev a x y \<Rightarrow> CreateBlockDevice wr w a x y
      | OFIFO a \<Rightarrow> CreateFIFO wr w a
      | OSocket a \<Rightarrow> CreateSocket wr w a
      | OWrite p d \<Rightarrow> (case fileWriter_Write wr w p d of (w', _, e) \<Rightarrow> (w', e)))"

definition spec_op :: "wop \<Rightarrow> file_tree \<Rightarrow> file_tree" where
  "spec_op op t =
     (case op of
        OFile a \<Rightarrow> t(a_Path a \<mapsto> (a, NFile []))
      | ODir a \<Rightarrow> t(a_Path a \<mapsto> (a, NDir))
      | OSymlink a x \<Rightarrow> t(a_Path a \<mapsto> (a, NSymlink x))
      | OHardlink l x \<Rightarrow> t(l \<mapsto> (zero_Attrs, NHardlink x))
      | OCharDev a x y \<Rightarrow> t(a_Path a \<mapsto> (a, NCharDev x y))
      | OBlockDev a x y \<Rightarrow> t(a_Path a \<mapsto> (a, NBlockDev x y))
      | OFIFO a \<Rightarrow> t(a_Path a \<mapsto> (a, NFIFO))
      | OSocket a \<Rightarrow> t(a_Path a \<mapsto> (a, NSocket))
      | OWrite p d \<Rightarrow>
          (case t p of
             Some (a, NFile b) \<Rightarrow> t(p \<mapsto> (a, NFile (b @ d)))
           | _ \<Rightarrow> t))"

fun run_ops :: "sink \<Rightarrow> Writer \<Rightarrow> wop list \<Rightarrow> sq_err + Writer" where
  "run_ops wr w [] = Inr w"
| "run_ops wr w (op # ops) =
     (case run_op wr w op of (w', Some e) \<Rightarrow> Inl e | (w', None) \<Rightarrow> run_ops wr w' ops)"

lemma file_data_more:
  assumes "unat (fileBlocksStart e) + data_len (fileBlockSizes e) \<le> length out"
  shows "file_data dec (out @ d) e = file_data dec out e"
  using assms read_data_more [of "fileBlockSizes e" "drop (unat (fileBlocksStart e)) out" dec d]
  by (simp add: file_data_def)

lemma sealed_ok_more: "sealed_ok dec bs out e \<Longrightarrow> sealed_ok dec bs (out @ d) e"
  using file_data_more [of e out dec d] by (auto simp: sealed_ok_def)

lemma block_count_tail: "0 < r \<Longrightarrow> r \<le> bs \<Longrightarrow> block_count (k * bs + r) bs = Suc k"
  unfolding block_count_def by (rule div_nat_eqI) (simp_all add: algebra_simps)

lemma block_count_exact: "0 < bs \<Longrightarrow> block_count (k * bs) bs = k"
  unfolding block_count_def by (rule div_nat_eqI) (simp_all add: algebra_simps)

section \<open>Refinement of the abstract file tree\<close>

lemma length_read_data_le: "open_ok dec bs out e buf \<Longrightarrow> length buf < bs"
  by (simp add: open_ok_def)

lemma add_entry_simps [simp]:
  "w_entries (add_entry w e) = (w_entries w)(e_path e \<mapsto> e)"
  "w_entryOrder (add_entry w e) = w_entryOrder w @ [e_path e]"
  "w_out (add_entry w e) = w_out w" "w_curFile (add_entry w e) = w_curFile w"
  "w_cfg (add_entry w e) = w_cfg w" "w_outPos (add_entry w e) = w_outPos w"
  "w_closed (add_entry w e) = w_closed w"
  by (simp_all add: add_entry_def)

lemma mk_entry_simps [simp]:
  "e_path (mk_entry p k a) = p" "e_kind (mk_entry p k a) = k" "e_attrs (mk_entry p k a) = a"
  "fileBlockSizes (mk_entry p k a) = []" "fileSize (mk_entry p k a) = 0"
  "hardlinkTarget (mk_entry p k a) = None"
  by (simp_all add: mk_entry_def)

lemma link_ok_fresh: "link_ok es x \<Longrightarrow> es p = None \<Longrightarrow> link_ok (es(p \<mapsto> e)) x"
  by (auto simp: link_ok_def split: option.splits)

lemma link_ok_file: "link_ok es x \<Longrightarrow> e_kind e = kindFile \<Longrightarrow> link_ok (es(p \<mapsto> e)) x"
  by (auto simp: link_ok_def split: option.splits)

lemma abs_node_content:
  "(e_kind x = kindFile \<Longrightarrow> file_content dec w' x = file_content dec w x) \<Longrightarrow>
     abs_node dec w' x = abs_node dec w x"
  by (cases "e_kind x") (simp_all add: abs_node_def)

text \<open>A fresh entry added while no file is open: the tree gains exactly that node.\<close>

lemma add_entry_ok:
  assumes inv: "writer_inv dec w" and cur: "w_curFile w = None"
    and fresh: "w_entries w (e_path e) = None" and valid: "validatePath (e_path e) = None"
    and link: "e_kind e = kindHardlink \<longrightarrow> link_ok (w_entries w) e" and kind: "e_kind e \<noteq> kindFile"
  shows "writer_inv dec (add_entry w e) \<and>
         abs_tree dec (add_entry w e) = (abs_tree dec w)(e_path e \<mapsto> (e_attrs e, abs_node dec w e))"
proof -
  have keep: "link_ok (w_entries w) x \<Longrightarrow> link_ok ((w_entries w)(e_path e \<mapsto> e)) x" for x
    using fresh by (rule link_ok_fresh [rotated])
  have "entry_ok dec (add_entry w e) p x" if "w_entries (add_entry w e) p = Some x" for p x
  proof (cases "p = e_path e")
    case True
    then show ?thesis using that valid link keep kind by (simp add: entry_ok_def)
  next
    case False
    then have "entry_ok dec w p x" using that inv by (simp add: writer_inv_def)
    then show ?thesis
      using keep cur by (simp add: entry_ok_def file_ok_def w_blockSize_def)
  qed
  then have "writer_inv dec (add_entry w e)"
    using inv fresh cur by (auto simp: writer_inv_def w_blockSize_def)
  moreover have "abs_node dec (add_entry w e) x = abs_node dec w x" for x
    using cur by (intro abs_node_content) (simp add: file_content_def)
  then have "abs_tree dec (add_entry w e) p =
      ((abs_tree dec w)(e_path e \<mapsto> (e_attrs e, abs_node dec w e))) p" for p
    by (simp add: abs_tree_def)
  ultimately show ?thesis by blast
qed

lemma beginEntry_cases:
  assumes "beginEntry wr w p = (w', None)"
  shows "flushCurFile wr w = (w', None) \<and> validatePath p = None \<and> w_entries w' p = None \<and> \<not> w_closed w"
  using assms by (auto simp: beginEntry_def split: if_splits prod.splits option.splits)

lemma open_new_file:
  assumes inv: "writer_inv dec w" and cur: "w_curFile w = None" and bound: "length (w_out w) < 2 ^ 64"
    and fresh: "w_entries w (a_Path a) = None" and valid: "validatePath (a_Path a) = None"
  defines "e \<equiv> (mk_entry (a_Path a) kindFile a)\<lparr> fileBlocksStart := w_outPos w \<rparr>"
  defines "w' \<equiv> (add_entry w e)\<lparr> w_curFile := Some \<lparr> fw_path = a_Path a, fw_buf = [] \<rparr> \<rparr>"
  shows "writer_inv dec w' \<and> abs_tree dec w' = (abs_tree dec w)(a_Path a \<mapsto> (a, NFile []))"
proof -
  have start: "unat (fileBlocksStart e) = length (w_out w)"
    using inv bound by (simp add: e_def writer_inv_def unat_of_nat_less)
  have new: "file_data dec (w_out w) e = []" by (simp add: file_data_def e_def mk_entry_def)
  have bs: "0 < w_blockSize w" "superblockSize \<le> length (w_out w)" using inv by (simp_all add: writer_inv_def)
  have keep: "link_ok (w_entries w) x \<Longrightarrow> link_ok ((w_entries w)(a_Path a \<mapsto> e)) x" for x
    using fresh by (rule link_ok_fresh [rotated])
  have old: "e_path x = p" if "w_entries w p = Some x" for p x
    using inv that by (simp add: writer_inv_def entry_ok_def)
  have e: "e_path e = a_Path a" "e_kind e = kindFile" "e_attrs e = a" "fileBlockSizes e = []" "fileSize e = 0"
    by (simp_all add: e_def)
  have w': "w_entries w' = (w_entries w)(a_Path a \<mapsto> e)" "w_out w' = w_out w" "w_outPos w' = w_outPos w"
    "w_curFile w' = Some \<lparr> fw_path = a_Path a, fw_buf = [] \<rparr>" "w_blockSize w' = w_blockSize w"
    "w_entryOrder w' = w_entryOrder w @ [a_Path a]"
    by (simp_all add: w'_def w_blockSize_def e)
  have "entry_ok dec w' p x" if "w_entries w' p = Some x" for p x
  proof (cases "p = a_Path a")
    case True
    then have "x = e" using that by (simp add: w')
    then show ?thesis
      using True start valid new bs
      by (simp add: entry_ok_def file_ok_def open_ok_def w' e data_len_def)
  next
    case False
    then have x: "w_entries w p = Some x" using that by (simp add: w')
    then have "entry_ok dec w p x" using inv by (simp add: writer_inv_def)
    then show ?thesis
      using keep False cur old [OF x] by (simp add: entry_ok_def file_ok_def w')
  qed
  then have "writer_inv dec w'"
    using inv fresh e by (auto simp: writer_inv_def w')
  moreover have "abs_tree dec w' p = ((abs_tree dec w)(a_Path a \<mapsto> (a, NFile []))) p" for p
  proof (cases "p = a_Path a")
    case True
    then show ?thesis using new e by (simp add: abs_tree_def abs_node_def file_content_def w')
  next
    case False
    have "abs_node dec w' x = abs_node dec w x" if "w_entries w p = Some x" for x
      using old [OF that] False cur by (intro abs_node_content) (simp add: file_content_def w')
    then show ?thesis
      using False by (cases "w_entries w p") (simp_all add: abs_tree_def w')
  qed
  ultimately show ?thesis by blast
qed

text \<open>
  The current file is touched: its entry replaced by one with the same path, kind and
  attributes, data appended to the output.  Every other entry keeps its meaning.
\<close>

lemma touch_file:
  assumes inv: "writer_inv dec w" and cur: "w_curFile w = Some fw"
    and e: "w_entries w (fw_path fw) = Some e" "e_kind e = kindFile"
    and w': "w' = w\<lparr> w_out := w_out w @ d, w_outPos := w_outPos w + of_nat (length d),
               w_entries := (w_entries w)(fw_path fw \<mapsto> e2), w_curFile := cf \<rparr>"
    and e2: "e_path e2 = fw_path fw" "e_kind e2 = kindFile" "e_attrs e2 = e_attrs e"
    and cf: "cf = None \<or> (\<exists>b. cf = Some \<lparr> fw_path = fw_path fw, fw_buf = b \<rparr>)"
    and ok: "file_ok dec w' e2"
  shows "writer_inv dec w' \<and>
         abs_tree dec w' = (abs_tree dec w)(fw_path fw \<mapsto> (e_attrs e, NFile (file_content dec w' e2)))"
proof -
  have path: "e_path e' = p" if "w_entries w p = Some e'" for p e'
    using inv that by (simp add: writer_inv_def entry_ok_def)
  have other: "sealed_ok dec (w_blockSize w) (w_out w) e'"
    if "w_entries w p = Some e'" "p \<noteq> fw_path fw" "e_kind e' = kindFile" for p e'
    using inv that cur by (auto simp: writer_inv_def entry_ok_def file_ok_def)
  have "entry_ok dec w' p e'" if "w_entries w' p = Some e'" for p e'
  proof (cases "p = fw_path fw")
    case True
    then show ?thesis using that inv e e2 ok by (auto simp: w' entry_ok_def writer_inv_def)
  next
    case False
    then have old: "w_entries w p = Some e'" using that by (simp add: w')
    then have "entry_ok dec w p e'" using inv by (simp add: writer_inv_def)
    moreover have "link_ok (w_entries w) e' \<Longrightarrow> link_ok (w_entries w') e'"
      using link_ok_file [OF _ e2(2)] by (simp add: w')
    moreover have "file_ok dec w' e'" if "e_kind e' = kindFile"
    proof -
      have "sealed_ok dec (w_blockSize w) (w_out w @ d) e'"
        using other [OF old False that] by (rule sealed_ok_more)
      then show ?thesis
        using cf path [OF old] False by (elim disjE exE) (simp_all add: file_ok_def w' w_blockSize_def)
    qed
    ultimately show ?thesis by (simp add: entry_ok_def)
  qed
  moreover have "dom (w_entries w') = dom (w_entries w)" using e by (auto simp: w')
  ultimately have "writer_inv dec w'"
    using inv cf e2 by (elim disjE exE) (simp_all add: writer_inv_def w' w_blockSize_def)
  moreover have "abs_tree dec w' p = abs_tree dec w p" if p: "p \<noteq> fw_path fw" for p
  proof (cases "w_entries w p")
    case None
    then show ?thesis using p by (simp add: abs_tree_def w')
  next
    case (Some e')
    have "file_content dec w' e' = file_content dec w e'" if "e_kind e' = kindFile"
    proof -
      have "file_data dec (w_out w @ d) e' = file_data dec (w_out w) e'"
        using other [OF Some p that] by (intro file_data_more) (simp add: sealed_ok_def)
      then show ?thesis
        using p cur cf path [OF Some] by (elim disjE exE) (simp_all add: w' file_content_def)
    qed
    then have "abs_node dec w' e' = abs_node dec w e'"
      by (cases "e_kind e'") (simp_all add: abs_node_def)
    then show ?thesis using Some p by (simp add: abs_tree_def w')
  qed
  moreover have "abs_tree dec w' (fw_path fw) = Some (e_attrs e, NFile (file_content dec w' e2))"
    using e2 by (simp add: abs_tree_def w' abs_node_def)
  ultimately show ?thesis by (intro conjI ext) simp_all
qed

lemma emitBlock_mono: "emitBlock wr w fw = (w', fw', e) \<Longrightarrow> length (w_out w) \<le> length (w_out w')"
  by (auto simp: emitBlock_def Let_def dest!: io_Write_count split: if_splits prod.splits option.splits)

lemma Write_loop_mono:
  "fileWriter_Write_loop wr w fw p k = (w', fw', n, e) \<Longrightarrow> length (w_out w) \<le> length (w_out w')"
proof (induction wr w fw p k rule: fileWriter_Write_loop.induct)
  case (1 wr w fw p k)
  define j where "j = (if length p > w_blockSize w - length (fw_buf fw) then w_blockSize w - length (fw_buf fw) else length p)"
  define fw1 where "fw1 = fw\<lparr> fw_buf := fw_buf fw @ take j p \<rparr>"
  note eq = fileWriter_Write_loop.simps [of wr w fw p k, unfolded Let_def, folded j_def, folded fw1_def]
  consider "w' = w"
    | w2 fw2 e2 where "emitBlock wr w fw1 = (w2, fw2, Some e2)" "w' = w2"
    | w2 fw2 where "p \<noteq> []" "length (fw_buf fw) \<le> w_blockSize w" "w_blockSize w \<noteq> 0"
        "length (fw_buf fw1) = w_blockSize w" "emitBlock wr w fw1 = (w2, fw2, None)"
        "fileWriter_Write_loop wr w2 fw2 (drop j p) (k + j) = (w', fw', n, e)"
    | "p \<noteq> []" "length (fw_buf fw) \<le> w_blockSize w" "w_blockSize w \<noteq> 0"
        "length (fw_buf fw1) \<noteq> w_blockSize w"
        "fileWriter_Write_loop wr w fw1 (drop j p) (k + j) = (w', fw', n, e)"
    using 1(3) unfolding eq by (auto split: if_splits prod.splits option.splits)
  then show ?case
  proof cases
    case (2 w2 fw2 e2)
    then show ?thesis using emitBlock_mono by blast
  next
    case (3 w2 fw2)
    then have "length (w_out w2) \<le> length (w_out w')"
      using 1(1) [of "w_blockSize w - length (fw_buf fw)" j fw1 "k + j" "drop j p" w2 "(fw2, None)" fw2 None]
      by (simp add: j_def fw1_def)
    then show ?thesis using emitBlock_mono [OF 3(5)] by simp
  next
    case 4
    then show ?thesis
      using 1(2) [of "w_blockSize w - length (fw_buf fw)" j fw1 "k + j" "drop j p"]
      by (simp add: j_def fw1_def)
  qed simp
qed

lemma flushCurFile_mono: "flushCurFile wr w = (w', e) \<Longrightarrow> length (w_out w) \<le> length (w_out w')"
  by (auto simp: flushCurFile_def flushTail_def dest!: emitBlock_mono
      split: option.splits prod.splits if_splits)

lemma beginEntry_mono: "beginEntry wr w p = (w', e) \<Longrightarrow> length (w_out w) \<le> length (w_out w')"
  by (auto simp: beginEntry_def dest!: flushCurFile_mono split: if_splits prod.splits option.splits)

lemma run_op_mono: "run_op wr w op = (w', e) \<Longrightarrow> length (w_out w) \<le> length (w_out w')"
proof (cases op)
  case (OWrite p d)
  assume "run_op wr w op = (w', e)"
  then show ?thesis
    using OWrite by (auto simp: run_op_def fileWriter_Write_def dest!: Write_loop_mono
        split: option.splits if_splits prod.splits)
qed (auto simp: run_op_def CreateFile_def CreateDir_def CreateSymlink_def CreateHardlink_def
    CreateCharDevice_def CreateBlockDevice_def create_device_def CreateFIFO_def CreateSocket_def
    dest!: flushCurFile_mono beginEntry_mono split: if_splits prod.splits option.splits)

lemma run_ops_mono: "run_ops wr w ops = Inr w' \<Longrightarrow> length (w_out w) \<le> length (w_out w')"
proof (induction ops arbitrary: w)
  case (Cons op ops)
  then obtain w1 where "run_op wr w op = (w1, None)" "run_ops wr w1 ops = Inr w'"
    by (auto split: prod.splits option.splits)
  then show ?case using Cons.IH [of w1] run_op_mono [of wr w op w1 None] by simp
qed simp

text \<open>An operation that is rejected after the pending file data was written changes no node.\<close>

lemma create_rejected:
  assumes "run_op wr w op = (w', Some e)" "flushCurFile wr w = (w1, None)" "\<forall>p d. op \<noteq> OWrite p d"
  shows "w' = w \<or> w' = w1"
  using assms
  by (cases op) (auto simp: run_op_def CreateFile_def CreateDir_def CreateSymlink_def CreateHardlink_def
    CreateCharDevice_def CreateBlockDevice_def create_device_def CreateFIFO_def CreateSocket_def beginEntry_def
    split: if_splits prod.splits option.splits)

context squash_codec
begin

text \<open>One block appended to an open file: what the reader sees grows by the block's content.\<close>

lemma file_data_block:
  assumes "unat (fileBlocksStart e) + data_len (fileBlockSizes e) = length out"
    and "unat (sw AND 0xFFFFFF) = length disk"
  shows "file_data dec (out @ disk) (e\<lparr> fileBlockSizes := fileBlockSizes e @ [sw] \<rparr>) =
         file_data dec out e @ (if bit sw 24 then disk else dec disk)"
proof -
  have "drop (unat (fileBlocksStart e)) (out @ disk) = drop (unat (fileBlocksStart e)) out @ disk"
    using assms(1) by simp
  then show ?thesis
    using read_data_snoc [of "fileBlockSizes e" "drop (unat (fileBlocksStart e)) out" sw disk dec] assms
    by (simp add: file_data_def)
qed

text \<open>
  The loop of \<^verbatim>\<open>Write\<close> on an open file: only the output, its position and the file's own block
  list change; the file gained exactly the bytes given.
\<close>

definition grows :: "Writer \<Rightarrow> fileWriter \<Rightarrow> entry \<Rightarrow> Writer \<Rightarrow> fileWriter \<Rightarrow> bytes \<Rightarrow> bool" where
  "grows w fw e w' fw' p \<longleftrightarrow>
     (\<exists>d ss. w' = w\<lparr> w_out := w_out w @ d, w_outPos := w_outPos w + of_nat (length d),
                w_entries := (w_entries w)(fw_path fw \<mapsto> e\<lparr> fileBlockSizes := ss \<rparr>) \<rparr> \<and>
        fw_path fw' = fw_path fw \<and>
        open_ok dec (w_blockSize w) (w_out w @ d) (e\<lparr> fileBlockSizes := ss \<rparr>) (fw_buf fw') \<and>
        file_data dec (w_out w @ d) (e\<lparr> fileBlockSizes := ss \<rparr>) @ fw_buf fw' =
        file_data dec (w_out w) e @ fw_buf fw @ p)"

lemma grows_refl:
  assumes "w_entries w (fw_path fw) = Some e" "open_ok dec (w_blockSize w) (w_out w) e (fw_buf fw)"
  shows "grows w fw e w fw []"
proof -
  have "(w_entries w)(fw_path fw \<mapsto> e) = w_entries w" using assms(1) by auto
  then show ?thesis
    using assms(2) unfolding grows_def
    by (intro exI [of _ "[]"] exI [of _ "fileBlockSizes e"]) simp
qed

lemma Write_loop_grows:
  "fileWriter_Write_loop wr w fw p k = (w', fw', n, None) \<Longrightarrow>
   w_compressor w = comp \<Longrightarrow> w_blockSize w \<le> 2 ^ 20 \<Longrightarrow>
   w_entries w (fw_path fw) = Some e \<Longrightarrow> open_ok dec (w_blockSize w) (w_out w) e (fw_buf fw) \<Longrightarrow>
   grows w fw e w' fw' p \<and> n = k + length p"
proof (induction wr w fw p k arbitrary: e rule: fileWriter_Write_loop.induct)
  case (1 wr w fw p k)
  note buf = length_read_data_le [OF 1(7)]
  show ?case
  proof (cases "p = []")
    case True
    then have "w' = w" "fw' = fw" "n = k"
      using 1(3) by (simp_all add: fileWriter_Write_loop.simps [of wr w fw "[]" k])
    then show ?thesis using grows_refl [OF 1(6,7)] True by simp
  next
    case False
    define bs where "bs = w_blockSize w"
    define j where "j = (if length p > bs - length (fw_buf fw) then bs - length (fw_buf fw) else length p)"
    define fw1 where "fw1 = fw\<lparr> fw_buf := fw_buf fw @ take j p \<rparr>"
    have j: "0 < j" "j \<le> length p" "length (fw_buf fw1) \<le> bs" "bs \<noteq> 0"
      using buf False by (auto simp: j_def fw1_def bs_def)
    have step: "fileWriter_Write_loop wr w fw p k =
        (if length (fw_buf fw1) = bs
         then (case emitBlock wr w fw1 of
                 (w2, fw2, Some e) \<Rightarrow> (w2, fw2, k + j, Some e)
               | (w2, fw2, None) \<Rightarrow> fileWriter_Write_loop wr w2 fw2 (drop j p) (k + j))
         else fileWriter_Write_loop wr w fw1 (drop j p) (k + j))"
      unfolding fileWriter_Write_loop.simps [of wr w fw p k] Let_def bs_def [symmetric]
        j_def [symmetric] fw1_def [symmetric]
      using buf False j(4) by (simp add: bs_def [symmetric])
    show ?thesis
    proof (cases "length (fw_buf fw1) = bs")
      case True
      then obtain w2 fw2 where emit: "emitBlock wr w fw1 = (w2, fw2, None)"
        and rest: "fileWriter_Write_loop wr w2 fw2 (drop j p) (k + j) = (w', fw', n, None)"
        using 1(3) step by (auto split: prod.splits option.splits)
      have "fw_buf fw1 \<noteq> []" "length (fw_buf fw1) < 2 ^ 24"
        using True j(4) 1(5) by (auto simp: bs_def)
      then obtain disk sw where w2: "w2 = w\<lparr> w_out := w_out w @ disk,
            w_outPos := w_outPos w + of_nat (length disk),
            w_entries := (w_entries w)(fw_path fw \<mapsto> e\<lparr> fileBlockSizes := fileBlockSizes e @ [sw] \<rparr>) \<rparr>"
        and fw2: "fw2 = fw1\<lparr> fw_buf := [] \<rparr>" and sw: "unat (sw AND 0xFFFFFF) = length disk"
        and content: "(if bit sw 24 then disk else dec disk) = fw_buf fw1"
        using emitBlock_step [OF emit _ _ 1(4), of e] 1(6) by (auto simp: fw1_def)
      define e2 where "e2 = e\<lparr> fileBlockSizes := fileBlockSizes e @ [sw] \<rparr>"
      have data: "file_data dec (w_out w @ disk) e2 = file_data dec (w_out w) e @ fw_buf fw1"
        using file_data_block [of e "w_out w" sw disk] 1(7) sw content by (simp add: open_ok_def e2_def)
      have open2: "open_ok dec (w_blockSize w2) (w_out w2) e2 (fw_buf fw2)"
        using 1(7) data sw True j(4)
        by (simp add: open_ok_def w2 fw2 e2_def bs_def w_blockSize_def algebra_simps)
      have comp2: "w_compressor w2 = comp" "w_blockSize w2 \<le> 2 ^ 20" "w_entries w2 (fw_path fw2) = Some e2"
        using 1(4,5) by (simp_all add: w2 fw2 fw1_def w_compressor_def w_blockSize_def e2_def)
      have IH: "grows w2 fw2 e2 w' fw' (drop j p) \<and> n = k + j + length (drop j p)"
        using 1(1) [of "bs - length (fw_buf fw)" j fw1 "k + j" "drop j p" w2 "(fw2, None)" fw2 None e2]
          False buf j(4) True emit rest comp2 open2
        by (simp add: j_def fw1_def bs_def)
      then obtain d ss where g: "w' = w2\<lparr> w_out := w_out w2 @ d, w_outPos := w_outPos w2 + of_nat (length d),
            w_entries := (w_entries w2)(fw_path fw2 \<mapsto> e2\<lparr> fileBlockSizes := ss \<rparr>) \<rparr>"
        "fw_path fw' = fw_path fw2"
        "open_ok dec (w_blockSize w2) (w_out w2 @ d) (e2\<lparr> fileBlockSizes := ss \<rparr>) (fw_buf fw')"
        "file_data dec (w_out w2 @ d) (e2\<lparr> fileBlockSizes := ss \<rparr>) @ fw_buf fw' =
         file_data dec (w_out w2) e2 @ fw_buf fw2 @ drop j p"
        by (auto simp: grows_def)
      have "grows w fw e w' fw' p"
        unfolding grows_def
        using g data by (intro exI [of _ "disk @ d"] exI [of _ ss])
          (simp add: w2 fw2 e2_def fw1_def w_blockSize_def)
      then show ?thesis using IH j(2) by simp
    next
      case False2: False
      then have "length (fw_buf fw1) < bs" using j(3) by simp
      then have open1: "open_ok dec (w_blockSize w) (w_out w) e (fw_buf fw1)"
        using 1(7) by (simp add: open_ok_def bs_def)
      have IH: "grows w fw1 e w' fw' (drop j p) \<and> n = k + j + length (drop j p)"
        using 1(2) [of "bs - length (fw_buf fw)" j fw1 "k + j" "drop j p" e]
          False buf j(4) False2 step 1(3-6) open1
        by (simp add: j_def fw1_def bs_def)
      then show ?thesis using j(2) by (auto simp: grows_def fw1_def)
    qed
  qed
qed

lemma flushCurFile_ok:
  assumes F: "flushCurFile wr w = (w', None)" and inv: "writer_inv dec w" and c: "w_compressor w = comp"
  shows "writer_inv dec w' \<and> abs_tree dec w' = abs_tree dec w \<and> w_curFile w' = None \<and>
         w_cfg w' = w_cfg w \<and> w_closed w' = w_closed w \<and> length (w_out w) \<le> length (w_out w')"
proof (cases "w_curFile w")
  case None
  then show ?thesis using F inv by (simp add: flushCurFile_def)
next
  case (Some fw)
  obtain e where e: "w_entries w (fw_path fw) = Some e" "e_kind e = kindFile"
    using inv Some by (auto simp: writer_inv_def)
  have path: "e_path e = fw_path fw" and fok: "file_ok dec w e"
    using inv e by (auto simp: writer_inv_def entry_ok_def)
  have opn: "open_ok dec (w_blockSize w) (w_out w) e (fw_buf fw)"
    and size: "fileSize e = of_nat (length (file_data dec (w_out w) e) + length (fw_buf fw))"
    using fok Some path by (simp_all add: file_ok_def)
  have bs: "0 < w_blockSize w" "w_blockSize w \<le> 2 ^ 20" using inv by (simp_all add: writer_inv_def)
  have "\<exists>d ss. w' = w\<lparr> w_out := w_out w @ d, w_outPos := w_outPos w + of_nat (length d),
           w_entries := (w_entries w)(fw_path fw \<mapsto> e\<lparr> fileBlockSizes := ss \<rparr>), w_curFile := None \<rparr> \<and>
         file_data dec (w_out w @ d) (e\<lparr> fileBlockSizes := ss \<rparr>) = file_data dec (w_out w) e @ fw_buf fw \<and>
         sealed_ok dec (w_blockSize w) (w_out w @ d) (e\<lparr> fileBlockSizes := ss \<rparr>)"
  proof (cases "fw_buf fw = []")
    case True
    have "(w_entries w)(fw_path fw \<mapsto> e) = w_entries w" using e(1) by auto
    moreover have "sealed_ok dec (w_blockSize w) (w_out w) e"
      using opn size True block_count_exact [OF bs(1)] by (simp add: sealed_ok_def open_ok_def)
    ultimately show ?thesis
      using F Some True by (intro exI [of _ "[]"] exI [of _ "fileBlockSizes e"])
        (auto simp: flushCurFile_def flushTail_def)
  next
    case False
    then obtain w1 fw1 where emit: "emitBlock wr w fw = (w1, fw1, None)" and w': "w' = w1\<lparr> w_curFile := None \<rparr>"
      using F Some by (auto simp: flushCurFile_def flushTail_def split: prod.splits option.splits)
    have "length (fw_buf fw) < 2 ^ 24" using length_read_data_le [OF opn] bs(2) by simp
    from emitBlock_step [OF emit False this c e(1)] obtain disk sw
      where w1: "w1 = w\<lparr> w_out := w_out w @ disk, w_outPos := w_outPos w + of_nat (length disk),
            w_entries := (w_entries w)(fw_path fw \<mapsto> e\<lparr> fileBlockSizes := fileBlockSizes e @ [sw] \<rparr>) \<rparr>"
        and sw: "unat (sw AND 0xFFFFFF) = length disk"
        and content: "(if bit sw 24 then disk else dec disk) = fw_buf fw" by auto
    define e2 where "e2 = e\<lparr> fileBlockSizes := fileBlockSizes e @ [sw] \<rparr>"
    have data: "file_data dec (w_out w @ disk) e2 = file_data dec (w_out w) e @ fw_buf fw"
      using file_data_block [of e "w_out w" sw disk] opn sw content by (simp add: open_ok_def e2_def)
    have "block_count (length (file_data dec (w_out w @ disk) e2)) (w_blockSize w) =
        Suc (length (fileBlockSizes e))"
      using block_count_tail [of "length (fw_buf fw)"] False length_read_data_le [OF opn] opn data
      by (simp add: open_ok_def)
    then have "sealed_ok dec (w_blockSize w) (w_out w @ disk) e2"
      using opn sw size data by (simp add: sealed_ok_def open_ok_def e2_def)
    then show ?thesis
      using w' w1 data by (intro exI [of _ disk] exI [of _ "fileBlockSizes e @ [sw]"]) (simp add: e2_def)
  qed
  then obtain d ss where w': "w' = w\<lparr> w_out := w_out w @ d, w_outPos := w_outPos w + of_nat (length d),
           w_entries := (w_entries w)(fw_path fw \<mapsto> e\<lparr> fileBlockSizes := ss \<rparr>), w_curFile := None \<rparr>"
    and data: "file_data dec (w_out w @ d) (e\<lparr> fileBlockSizes := ss \<rparr>) = file_data dec (w_out w) e @ fw_buf fw"
    and sealed: "sealed_ok dec (w_blockSize w) (w_out w @ d) (e\<lparr> fileBlockSizes := ss \<rparr>)" by blast
  have "file_ok dec w' (e\<lparr> fileBlockSizes := ss \<rparr>)"
    using sealed by (simp add: w' file_ok_def w_blockSize_def)
  from touch_file [OF inv Some e w' _ _ _ _ this]
  have "writer_inv dec w'" and "abs_tree dec w' = (abs_tree dec w)(fw_path fw \<mapsto>
      (e_attrs e, NFile (file_data dec (w_out w) e @ fw_buf fw)))"
    using path e data by (simp_all add: w' file_content_def)
  moreover have "abs_tree dec w (fw_path fw) = Some (e_attrs e, NFile (file_data dec (w_out w) e @ fw_buf fw))"
    using e path Some by (simp add: abs_tree_def abs_node_def file_content_def)
  ultimately show ?thesis by (simp add: w' fun_upd_idem)
qed

lemma fileWriter_Write_ok:
  assumes W: "fileWriter_Write wr w path p = (w', n, None)" and inv: "writer_inv dec w"
    and c: "w_compressor w = comp"
  shows "writer_inv dec w' \<and> abs_tree dec w' = spec_op (OWrite path p) (abs_tree dec w) \<and>
         n = length p \<and> w_cfg w' = w_cfg w"
proof -
  obtain fw w1 fw1 where cur: "w_curFile w = Some fw" "fw_path fw = path" "\<not> w_closed w"
    and loop: "fileWriter_Write_loop wr w fw p 0 = (w1, fw1, n, None)"
    and w': "w' = w1\<lparr> w_curFile := Some fw1, w_entries := upd_entry (w_entries w1) path
               (\<lambda>e. e\<lparr> fileSize := fileSize e + of_nat n \<rparr>) \<rparr>"
    using W by (auto simp: fileWriter_Write_def split: option.splits if_splits prod.splits)
  obtain e where e: "w_entries w (fw_path fw) = Some e" "e_kind e = kindFile"
    using inv cur by (auto simp: writer_inv_def)
  have path: "e_path e = fw_path fw" and fok: "file_ok dec w e"
    using inv e by (auto simp: writer_inv_def entry_ok_def)
  have opn: "open_ok dec (w_blockSize w) (w_out w) e (fw_buf fw)"
    and sz: "fileSize e = of_nat (length (file_data dec (w_out w) e) + length (fw_buf fw))"
    using fok cur path by (simp_all add: file_ok_def)
  have bs: "w_blockSize w \<le> 2 ^ 20" using inv by (simp add: writer_inv_def)
  obtain d ss where g: "w1 = w\<lparr> w_out := w_out w @ d, w_outPos := w_outPos w + of_nat (length d),
        w_entries := (w_entries w)(fw_path fw \<mapsto> e\<lparr> fileBlockSizes := ss \<rparr>) \<rparr>" "fw_path fw1 = fw_path fw"
    and opn1: "open_ok dec (w_blockSize w) (w_out w @ d) (e\<lparr> fileBlockSizes := ss \<rparr>) (fw_buf fw1)"
    and data: "file_data dec (w_out w @ d) (e\<lparr> fileBlockSizes := ss \<rparr>) @ fw_buf fw1 =
        file_data dec (w_out w) e @ fw_buf fw @ p"
    and n: "n = length p"
    using Write_loop_grows [OF loop c bs e(1) opn] by (auto simp: grows_def)
  define e2 where "e2 = e\<lparr> fileBlockSizes := ss, fileSize := fileSize e + of_nat n \<rparr>"
  have same: "file_data dec out e2 = file_data dec out (e\<lparr> fileBlockSizes := ss \<rparr>)" for out
    by (simp add: file_data_def e2_def)
  have w'_eq: "w' = w\<lparr> w_out := w_out w @ d, w_outPos := w_outPos w + of_nat (length d),
      w_entries := (w_entries w)(fw_path fw \<mapsto> e2), w_curFile := Some fw1 \<rparr>"
    using cur by (simp add: w' g upd_entry_def e2_def)
  have "file_ok dec w' e2"
    using opn1 sz n arg_cong [OF data, of "\<lambda>x. of_nat (length x) :: 64 word"] path g(2)
    by (simp add: w'_eq file_ok_def same w_blockSize_def open_ok_def) (simp add: e2_def)
  moreover have "fw1 = \<lparr> fw_path = fw_path fw, fw_buf = fw_buf fw1 \<rparr>" using g(2) by simp
  ultimately have "writer_inv dec w'" and "abs_tree dec w' = (abs_tree dec w)(fw_path fw \<mapsto>
      (e_attrs e, NFile (file_content dec w' e2)))"
    using touch_file [OF inv cur(1) e w'_eq] path e by (auto simp: e2_def)
  moreover have "file_content dec w' e2 = (file_data dec (w_out w) e @ fw_buf fw) @ p"
    using data path g(2) by (simp add: file_content_def w'_eq same) (simp add: e2_def)
  moreover have "abs_tree dec w path = Some (e_attrs e, NFile (file_data dec (w_out w) e @ fw_buf fw))"
    using e path cur by (simp add: abs_tree_def abs_node_def file_content_def)
  ultimately show ?thesis using n cur by (simp add: spec_op_def w'_eq)
qed

lemma create_simple_ok:
  assumes B: "beginEntry wr w (e_path e) = (w1, None)" and inv: "writer_inv dec w"
    and c: "w_compressor w = comp" and kind: "e_kind e \<notin> {kindFile, kindHardlink}"
  shows "writer_inv dec (add_entry w1 e) \<and> w_cfg (add_entry w1 e) = w_cfg w \<and>
         abs_tree dec (add_entry w1 e) = (abs_tree dec w)(e_path e \<mapsto> (e_attrs e, abs_node dec w1 e))"
proof -
  note b = beginEntry_cases [OF B]
  have f: "writer_inv dec w1" "abs_tree dec w1 = abs_tree dec w" "w_curFile w1 = None" "w_cfg w1 = w_cfg w"
    using flushCurFile_ok [OF _ inv c] b by blast+
  then show ?thesis using add_entry_ok [OF f(1,3)] b kind by simp
qed

lemma CreateFile_ok:
  assumes C: "CreateFile wr w a = (w', None)" and inv: "writer_inv dec w" and c: "w_compressor w = comp"
    and bound: "length (w_out w') < 2 ^ 64"
  shows "writer_inv dec w' \<and> abs_tree dec w' = spec_op (OFile a) (abs_tree dec w) \<and> w_cfg w' = w_cfg w"
proof -
  obtain w1 where F: "flushCurFile wr w = (w1, None)" and v: "validatePath (a_Path a) = None"
    and fresh: "w_entries w1 (a_Path a) = None"
    and w': "w' = (add_entry w1 ((mk_entry (a_Path a) kindFile a)\<lparr> fileBlocksStart := w_outPos w1 \<rparr>))
              \<lparr> w_curFile := Some \<lparr> fw_path = a_Path a, fw_buf = [] \<rparr> \<rparr>"
    using C by (auto simp: CreateFile_def split: if_splits prod.splits option.splits)
  have f: "writer_inv dec w1" "abs_tree dec w1 = abs_tree dec w" "w_curFile w1 = None" "w_cfg w1 = w_cfg w"
    using flushCurFile_ok [OF F inv c] by blast+
  have "length (w_out w1) < 2 ^ 64" using bound by (simp add: w')
  from open_new_file [OF f(1,3) this fresh v] f(2,4) show ?thesis by (simp add: w' spec_op_def)
qed

lemma CreateHardlink_ok:
  assumes C: "CreateHardlink wr w l t = (w', None)" and inv: "writer_inv dec w" and c: "w_compressor w = comp"
  shows "writer_inv dec w' \<and> abs_tree dec w' = spec_op (OHardlink l t) (abs_tree dec w) \<and> w_cfg w' = w_cfg w"
proof -
  define e where "e = (mk_entry l kindHardlink zero_Attrs)\<lparr> hardlinkTarget := Some t \<rparr>"
  obtain w1 te where F: "flushCurFile wr w = (w1, None)" and v: "validatePath l = None"
    and fresh: "w_entries w1 l = None" and te: "w_entries w1 t = Some te" "e_kind te = kindFile"
    and w': "w' = add_entry w1 e"
    using C by (auto simp: CreateHardlink_def e_def split: if_splits prod.splits option.splits)
  have f: "writer_inv dec w1" "abs_tree dec w1 = abs_tree dec w" "w_curFile w1 = None" "w_cfg w1 = w_cfg w"
    using flushCurFile_ok [OF F inv c] by blast+
  have "writer_inv dec (add_entry w1 e) \<and>
      abs_tree dec (add_entry w1 e) = (abs_tree dec w1)(e_path e \<mapsto> (e_attrs e, abs_node dec w1 e))"
    by (rule add_entry_ok [OF f(1,3)]) (use fresh v te in \<open>simp_all add: e_def link_ok_def\<close>)
  then show ?thesis using f(2,4) by (simp add: w' spec_op_def e_def abs_node_def)
qed

lemma run_op_refines:
  assumes R: "run_op wr w op = (w', None)" and inv: "writer_inv dec w" and c: "w_compressor w = comp"
    and bound: "length (w_out w') < 2 ^ 64"
  shows "writer_inv dec w' \<and> abs_tree dec w' = spec_op op (abs_tree dec w) \<and> w_cfg w' = w_cfg w"
proof (cases op)
  case (OFile a)
  then show ?thesis using CreateFile_ok [OF _ inv c bound] R by (simp add: run_op_def)
next
  case (ODir a)
  then show ?thesis
    using R create_simple_ok [of wr w "mk_entry (a_Path a) kindDir a", OF _ inv c]
    by (auto simp: run_op_def CreateDir_def spec_op_def abs_node_def split: prod.splits option.splits)
next
  case (OSymlink a t)
  then show ?thesis
    using R create_simple_ok [of wr w "(mk_entry (a_Path a) kindSymlink a)\<lparr> symlinkTarget := t \<rparr>", OF _ inv c]
    by (auto simp: run_op_def CreateSymlink_def spec_op_def abs_node_def split: prod.splits option.splits if_splits)
next
  case (OHardlink l t)
  then show ?thesis using CreateHardlink_ok [OF _ inv c] R by (simp add: run_op_def)
next
  case (OCharDev a x y)
  then show ?thesis
    using R create_simple_ok [of wr w "(mk_entry (a_Path a) kindCharDev a)\<lparr> devMajor := x, devMinor := y \<rparr>", OF _ inv c]
    by (auto simp: run_op_def CreateCharDevice_def create_device_def spec_op_def abs_node_def
        split: prod.splits option.splits)
next
  case (OBlockDev a x y)
  then show ?thesis
    using R create_simple_ok [of wr w "(mk_entry (a_Path a) kindBlockDev a)\<lparr> devMajor := x, devMinor := y \<rparr>", OF _ inv c]
    by (auto simp: run_op_def CreateBlockDevice_def create_device_def spec_op_def abs_node_def
        split: prod.splits option.splits)
next
  case (OFIFO a)
  then show ?thesis
    using R create_simple_ok [of wr w "mk_entry (a_Path a) kindFIFO a", OF _ inv c]
    by (auto simp: run_op_def CreateFIFO_def spec_op_def abs_node_def split: prod.splits option.splits)
next
  case (OSocket a)
  then show ?thesis
    using R create_simple_ok [of wr w "mk_entry (a_Path a) kindSocket a", OF _ inv c]
    by (auto simp: run_op_def CreateSocket_def spec_op_def abs_node_def split: prod.splits option.splits)
next
  case (OWrite p d)
  then obtain n where "fileWriter_Write wr w p d = (w', n, None)"
    using R by (auto simp: run_op_def split: prod.splits)
  then show ?thesis using fileWriter_Write_ok [OF _ inv c] OWrite by blast
qed

lemma run_ops_refines:
  assumes "run_ops wr w ops = Inr w'" "writer_inv dec w" "w_compressor w = comp"
    and "length (w_out w') < 2 ^ 64"
  shows "writer_inv dec w' \<and> abs_tree dec w' = fold spec_op ops (abs_tree dec w) \<and> w_cfg w' = w_cfg w"
  using assms
proof (induction ops arbitrary: w)
  case (Cons op ops)
  then obtain w1 where w1: "run_op wr w op = (w1, None)" "run_ops wr w1 ops = Inr w'"
    by (auto split: prod.splits option.splits)
  have "length (w_out w1) < 2 ^ 64" using run_ops_mono [OF w1(2)] Cons.prems(4) by simp
  note R = run_op_refines [OF w1(1) Cons.prems(2,3) this]
  then show ?case using Cons.IH [OF w1(2)] Cons.prems(3,4) by (simp add: w_compressor_def)
qed simp

lemma create_rejected_tree:
  assumes "run_op wr w op = (w', Some e)" "flushCurFile wr w = (w1, None)" "\<forall>p d. op \<noteq> OWrite p d"
    and "writer_inv dec w" "w_compressor w = comp"
  shows "writer_inv dec w' \<and> abs_tree dec w' = abs_tree dec w"
  using create_rejected [OF assms(1-3)] flushCurFile_ok [OF assms(2,4,5)] assms(4) by auto

end

lemma NewWriter_inv:
  assumes "NewWriter wr seek opts = Inr w"
  shows "writer_inv dec w \<and> abs_tree dec w = Map.empty \<and> cfg_compressor (w_cfg w) \<noteq> None \<and>
         \<not> w_closed w \<and> length (w_out w) = superblockSize"
proof -
  have opts: "0 < unat (cfg_blockSize c) \<and> unat (cfg_blockSize c) \<le> 2 ^ 20 \<Longrightarrow>
      apply_options os c = Inr c' \<Longrightarrow> 0 < unat (cfg_blockSize c') \<and> unat (cfg_blockSize c') \<le> 2 ^ 20"
    for os c c'
  proof (induction os arbitrary: c)
    case (Cons o' os)
    obtain c1 where c1: "apply_option o' c = Inr c1" "apply_options os c1 = Inr c'"
      using Cons.prems(2) by (auto simp: ebind_Inr_conv)
    have "0 < unat (cfg_blockSize c1) \<and> unat (cfg_blockSize c1) \<le> 2 ^ 20"
      using c1(1) Cons.prems(1)
      by (auto simp: apply_option_def MinBlockSize_def MaxBlockSize_def word_less_nat_alt
          split: Option.splits option.splits if_splits)
    then show ?case using Cons.IH c1(2) by blast
  qed simp
  obtain cfg out n where cfg: "apply_options opts \<lparr> cfg_blockSize = DefaultBlockSize, cfg_compressor = None, cfg_mtime = None \<rparr> = Inr cfg"
      "cfg_compressor cfg \<noteq> None"
    and out: "io_Write wr [] (replicate superblockSize (char_of (0 :: nat))) = (out, n, None)"
    and w: "w = \<lparr> w_out = out, w_cfg = cfg, w_closed = False, w_finished = False,
         w_outPos = of_nat superblockSize, w_entries = Map.empty, w_entryOrder = [], w_curFile = None, w_ids = newIDTable \<rparr>"
    using assms by (auto simp: NewWriter_def split: sum.splits if_splits prod.splits option.splits)
  have "length out = superblockSize" using io_Write_ok [OF out] by simp
  moreover have "abs_tree dec w = Map.empty" by (rule ext) (simp add: w abs_tree_def)
  ultimately show ?thesis
    using opts [OF _ cfg(1)] cfg(2)
    by (simp add: w writer_inv_def w_blockSize_def DefaultBlockSize_def)
qed

text \<open>A valid path is a slash followed by at least one good component.\<close>

lemma validatePath_iff:
  "validatePath p = None \<longleftrightarrow> (\<exists>cs. cs \<noteq> [] \<and> (\<forall>c \<in> set cs. good_comp c) \<and> p = slash # join slash cs)"
proof
  assume v: "validatePath p = None"
  then obtain q where p: "p = slash # q" by (cases p) (auto simp: validatePath_def split: if_splits)
  have "\<forall>c \<in> set (Split q slash). good_comp c"
    using v Split_no_sep [of _ q slash] by (auto simp: validatePath_def p good_comp_def list_ex_iff split: if_splits)
  then show "\<exists>cs. cs \<noteq> [] \<and> (\<forall>c \<in> set cs. good_comp c) \<and> p = slash # join slash cs"
    using p by (intro exI [of _ "Split q slash"]) simp
next
  assume "\<exists>cs. cs \<noteq> [] \<and> (\<forall>c \<in> set cs. good_comp c) \<and> p = slash # join slash cs"
  then obtain cs where cs: "cs \<noteq> []" "\<forall>c \<in> set cs. good_comp c" and p: "p = slash # join slash cs" by blast
  have split: "Split (join slash cs) slash = cs" using Split_join [OF cs(1)] cs(2) by (auto simp: good_comp_def)
  have "join slash cs \<noteq> []" using split cs by (metis Split.simps(1) good_comp_def list.set_intros(1))
  moreover have "\<not> HasSuffix p ''/''"
  proof
    assume "HasSuffix p ''/''"
    then obtain t where "join slash cs = t @ [slash]"
      using p \<open>join slash cs \<noteq> []\<close> by (auto simp: HasSuffix_iff Cons_eq_append_conv)
    then have "last (Split (join slash cs) slash) = []" by (simp add: Split_snoc)
    then show False using split cs by (metis good_comp_def last_in_set)
  qed
  ultimately show "validatePath p = None"
    using p split cs by (auto simp: validatePath_def list_ex_iff good_comp_def)
qed

end
