(* ===== verification/Squash_Close.thy ===== *)
theory Squash_Close
  imports Squash_Writer
begin

text \<open>
  \<^verbatim>\<open>Writer.Close\<close> of \<^verbatim>\<open>src/squashfs/writer.go\<close> and the passes it is made of: tree building, inode
  numbering, link counts, id interning, leaf inodes, directories, tables and the final
  superblock.  Go's iteration order over the entry map is a parameter (the list of keys in the
  order the range statement visits them).  The recursive walks carry fuel: a child's path is
  longer than its parent's, so one more than the longest path is enough.
\<close>

section \<open>Tree (buildTree)\<close>

definition root_path :: string where "root_path = ''/''"

fun link_children :: "(string \<rightharpoonup> entry) \<Rightarrow> string list \<Rightarrow> sq_err + (string \<rightharpoonup> entry)" where
  "link_children es [] = Inr es"
| "link_children es (p # ps) =
     (if p = root_path then link_children es ps
      else case es (Dir p) of
             None \<Rightarrow> Inl (EMsg ''squashfs: entry has no parent directory'')
           | Some parent \<Rightarrow>
               if e_kind parent \<noteq> kindDir then Inl (EMsg ''squashfs: parent is not a directory'')
               else link_children (es(Dir p \<mapsto> parent\<lparr> children := children parent @ [p] \<rparr>)) ps)"

definition is_dir :: "(string \<rightharpoonup> entry) \<Rightarrow> string \<Rightarrow> bool" where
  "is_dir es p = (case es p of None \<Rightarrow> False | Some e \<Rightarrow> e_kind e = kindDir)"

definition kids :: "(string \<rightharpoonup> entry) \<Rightarrow> string \<Rightarrow> string list" where
  "kids es p = (case es p of None \<Rightarrow> [] | Some e \<Rightarrow> children e)"

fun sortRec :: "nat \<Rightarrow> (string \<rightharpoonup> entry) \<Rightarrow> string \<Rightarrow> (string \<rightharpoonup> entry)"
and sortRec_list :: "nat \<Rightarrow> (string \<rightharpoonup> entry) \<Rightarrow> string list \<Rightarrow> (string \<rightharpoonup> entry)" where
  "sortRec 0 es d = es"
| "sortRec (Suc f) es d =
     (let cs = sort_key Base (kids es d);
          es1 = upd_entry es d (\<lambda>e. e\<lparr> children := cs \<rparr>)
      in sortRec_list f es1 cs)"
| "sortRec_list f es [] = es"
| "sortRec_list f es (c # cs) =
     sortRec_list f (if is_dir es c then sortRec f es c else es) cs"

definition synthetic_root :: "gotime \<Rightarrow> entry" where
  "synthetic_root mtime =
     mk_entry root_path kindDir \<lparr> a_Path = [], a_Mode = 0x1ED, a_UID = 0, a_GID = 0, a_Mtime = mtime \<rparr>"

definition walk_fuel :: "string list \<Rightarrow> nat" where
  "walk_fuel order = Suc (foldr (\<lambda>p. max (length p)) order 1)"

definition buildTree :: "Writer \<Rightarrow> sq_err + (string \<rightharpoonup> entry)" where
  "buildTree w =
     (let es = (case w_entries w root_path of
                  Some _ \<Rightarrow> w_entries w
                | None \<Rightarrow> (w_entries w)(root_path \<mapsto> synthetic_root (cfg_mtime (w_cfg w))))
      in case link_children es (w_entryOrder w) of
           Inl e \<Rightarrow> Inl e
         | Inr es1 \<Rightarrow> Inr (sortRec (walk_fuel (w_entryOrder w)) es1 root_path))"

section \<open>Inode numbers and link counts\<close>

fun assign :: "nat \<Rightarrow> (string \<rightharpoonup> entry) \<times> 32 word \<Rightarrow> string \<Rightarrow> 32 word \<Rightarrow> (string \<rightharpoonup> entry) \<times> 32 word"
and assign_list :: "nat \<Rightarrow> (string \<rightharpoonup> entry) \<times> 32 word \<Rightarrow> string list \<Rightarrow> 32 word \<Rightarrow> (string \<rightharpoonup> entry) \<times> 32 word" where
  "assign 0 st p parent = st"
| "assign (Suc f) (es, nxt) p parent =
     (case es p of
        None \<Rightarrow> (es, nxt)
      | Some e \<Rightarrow>
          if e_kind e = kindHardlink then (es, nxt)
          else let es1 = es(p \<mapsto> e\<lparr> inodeNumber := nxt, parentInode := parent \<rparr>)
               in if e_kind e = kindDir then assign_list f (es1, nxt + 1) (children e) nxt
                  else (es1, nxt + 1))"
| "assign_list f st [] parent = st"
| "assign_list f st (c # cs) parent = assign_list f (assign f st c parent) cs parent"

definition assignInodeNumbers :: "nat \<Rightarrow> (string \<rightharpoonup> entry) \<Rightarrow> (string \<rightharpoonup> entry)" where
  "assignInodeNumbers fuel es = fst (assign fuel (es, 1) root_path 1)"

text \<open>The first loop of \<^verbatim>\<open>computeLinkCounts\<close> over the keys in iteration order.\<close>

fun count_links :: "(string \<rightharpoonup> entry) \<Rightarrow> string list \<Rightarrow> (string \<rightharpoonup> entry)" where
  "count_links es [] = es"
| "count_links es (p # ps) =
     (case es p of
        None \<Rightarrow> count_links es ps
      | Some e \<Rightarrow>
          (case e_kind e of
             kindDir \<Rightarrow> count_links es ps
           | kindHardlink \<Rightarrow>
               (case hardlinkTarget e of
                  None \<Rightarrow> count_links es ps
                | Some t \<Rightarrow> count_links (upd_entry es t (\<lambda>te. te\<lparr> nlinks := nlinks te + 1 \<rparr>)) ps)
           | _ \<Rightarrow> count_links (es(p \<mapsto> e\<lparr> nlinks := 1 \<rparr>)) ps))"

fun count_dirs :: "nat \<Rightarrow> (string \<rightharpoonup> entry) \<Rightarrow> string \<Rightarrow> (string \<rightharpoonup> entry)"
and count_dirs_list :: "nat \<Rightarrow> (string \<rightharpoonup> entry) \<times> 32 word \<Rightarrow> string list \<Rightarrow> (string \<rightharpoonup> entry) \<times> 32 word" where
  "count_dirs 0 es d = es"
| "count_dirs (Suc f) es d =
     (case count_dirs_list f (es, 0) (kids es d) of
        (es1, subdirs) \<Rightarrow> upd_entry es1 d (\<lambda>e. e\<lparr> nlinks := 2 + subdirs \<rparr>))"
| "count_dirs_list f st [] = st"
| "count_dirs_list f (es, n) (c # cs) =
     (if is_dir es c then count_dirs_list f (count_dirs f es c, n + 1) cs
      else count_dirs_list f (es, n) cs)"

definition computeLinkCounts :: "string list \<Rightarrow> nat \<Rightarrow> (string \<rightharpoonup> entry) \<Rightarrow> (string \<rightharpoonup> entry)" where
  "computeLinkCounts iter fuel es = count_dirs fuel (count_links es iter) root_path"

section \<open>Ids\<close>

definition intern_entry ::
  "(string \<rightharpoonup> entry) \<times> idTable \<Rightarrow> string \<Rightarrow> sq_err + (string \<rightharpoonup> entry) \<times> idTable" where
  "intern_entry st p =
     (case st of (es, t) \<Rightarrow>
        (case es p of
           None \<Rightarrow> Inr st
         | Some e \<Rightarrow>
             (case idTable_Intern t (a_UID (e_attrs e)) of
                (t1, Inl err) \<Rightarrow> Inl err
              | (t1, Inr u) \<Rightarrow>
                  (case idTable_Intern t1 (a_GID (e_attrs e)) of
                     (t2, Inl err) \<Rightarrow> Inl err
                   | (t2, Inr g) \<Rightarrow> Inr (es(p \<mapsto> e\<lparr> uidIdx := u, gidIdx := g \<rparr>), t2)))))"

fun intern_list ::
  "(string \<rightharpoonup> entry) \<times> idTable \<Rightarrow> string list \<Rightarrow> sq_err + (string \<rightharpoonup> entry) \<times> idTable" where
  "intern_list st [] = Inr st"
| "intern_list st (p # ps) =
     (case fst st p of
        None \<Rightarrow> Inl EPanic
      | Some e \<Rightarrow>
          if e_kind e = kindHardlink then intern_list st ps
          else ebind (intern_entry st p) (\<lambda>st'. intern_list st' ps))"

definition internIDs ::
  "string list \<Rightarrow> (string \<rightharpoonup> entry) \<times> idTable \<Rightarrow> sq_err + (string \<rightharpoonup> entry) \<times> idTable" where
  "internIDs order st =
     (case intern_list st order of
        Inl e \<Rightarrow> Inl e
      | Inr (es, t) \<Rightarrow>
          (case es root_path of
             None \<Rightarrow> Inr (es, t)
           | Some root \<Rightarrow>
               if uidIdx root = 0 \<and> gidIdx root = 0 then intern_entry (es, t) root_path
               else Inr (es, t)))"

section \<open>Inodes and directories\<close>

definition entryMtime :: "writerConfig \<Rightarrow> entry \<Rightarrow> sq_err + 32 word" where
  "entryMtime cfg e =
     (let t = (if cfg_mtime cfg \<noteq> None then cfg_mtime cfg else a_Mtime (e_attrs e))
      in case t of
           None \<Rightarrow> Inr 0
         | Some sec \<Rightarrow>
             if sec < 0 \<or> sec > 0xFFFFFFFF then Inl (EMsg ''squashfs: mtime out of uint32 epoch range'')
             else Inr (of_int sec))"

definition writeOneInode ::
  "writerConfig \<Rightarrow> (string \<rightharpoonup> entry) \<Rightarrow> metaWriter \<Rightarrow> string \<Rightarrow> sq_err + (string \<rightharpoonup> entry) \<times> metaWriter" where
  "writeOneInode cfg es m p =
     (case es p of
        None \<Rightarrow> Inl EPanic
      | Some e \<Rightarrow>
          (case entryMtime cfg e of
             Inl err \<Rightarrow> Inl err
           | Inr mtime \<Rightarrow>
               (case encodeInode e mtime (cfg_blockSize cfg) of
                  Inl err \<Rightarrow> Inl err
                | Inr body \<Rightarrow>
                    (case metaWriter_Write m body of
                       (m', _, Some err) \<Rightarrow> Inl err
                     | (m', _, None) \<Rightarrow>
                         Inr (es(p \<mapsto> e\<lparr> inodeRef := metaWriter_Ref m \<rparr>), m')))))"

fun writeLeafInodes ::
  "writerConfig \<Rightarrow> (string \<rightharpoonup> entry) \<Rightarrow> metaWriter \<Rightarrow> string list \<Rightarrow> sq_err + (string \<rightharpoonup> entry) \<times> metaWriter" where
  "writeLeafInodes cfg es m [] = Inr (es, m)"
| "writeLeafInodes cfg es m (p # ps) =
     (case es p of
        None \<Rightarrow> Inl EPanic
      | Some e \<Rightarrow>
          if e_kind e = kindDir \<or> e_kind e = kindHardlink then writeLeafInodes cfg es m ps
          else case writeOneInode cfg es m p of
                 Inl err \<Rightarrow> Inl err
               | Inr (es', m') \<Rightarrow> writeLeafInodes cfg es' m' ps)"

text \<open>Hard links take over their target's inode coordinates after the leaf pass.\<close>

fun resolveHardlinks :: "(string \<rightharpoonup> entry) \<Rightarrow> string list \<Rightarrow> (string \<rightharpoonup> entry)" where
  "resolveHardlinks es [] = es"
| "resolveHardlinks es (p # ps) =
     (case es p of
        None \<Rightarrow> resolveHardlinks es ps
      | Some e \<Rightarrow>
          (case (e_kind e, hardlinkTarget e) of
             (kindHardlink, Some t) \<Rightarrow>
                (case es t of
                   None \<Rightarrow> resolveHardlinks es ps
                 | Some te \<Rightarrow>
                     resolveHardlinks (es(p \<mapsto> e\<lparr> inodeRef := inodeRef te, inodeNumber := inodeNumber te \<rparr>)) ps)
           | _ \<Rightarrow> resolveHardlinks es ps))"

definition inodeBlockByteOf :: "metaRef \<Rightarrow> metaWriter \<Rightarrow> 64 word" where
  "inodeBlockByteOf r m = BlockByteOffset m (blockIdx r)"

definition child_entry ::
  "(string \<rightharpoonup> entry) \<Rightarrow> metaWriter \<Rightarrow> string \<Rightarrow> sq_err + dirEntry" where
  "child_entry es im p =
     (case es p of
        None \<Rightarrow> Inl EPanic
      | Some c \<Rightarrow>
          let r = (case (e_kind c, hardlinkTarget c) of
                     (kindHardlink, Some t) \<Rightarrow> (case es t of None \<Rightarrow> inodeRef c | Some te \<Rightarrow> inodeRef te)
                   | _ \<Rightarrow> inodeRef c);
              blockByte = inodeBlockByteOf r im
          in if blockByte > 0xFFFFFFFF then Inl (EMsg ''squashfs: inode table exceeds 4 GiB'')
             else Inr \<lparr> de_name = Base (e_path c), childInode = inodeNumber c,
                        inodeBlockByte = ucast blockByte, inodeBlockOff = ref_offset (inodeRef c),
                        basicType = basicTypeFor es c \<rparr>)"

fun child_entries ::
  "(string \<rightharpoonup> entry) \<Rightarrow> metaWriter \<Rightarrow> string list \<Rightarrow> sq_err + dirEntry list" where
  "child_entries es im [] = Inr []"
| "child_entries es im (c # cs) =
     ebind (child_entry es im c) (\<lambda>d. ebind (child_entries es im cs) (\<lambda>ds. Inr (d # ds)))"

fun writeDirs ::
  "nat \<Rightarrow> writerConfig \<Rightarrow> (string \<rightharpoonup> entry) \<times> metaWriter \<times> metaWriter \<Rightarrow> string \<Rightarrow>
   sq_err + (string \<rightharpoonup> entry) \<times> metaWriter \<times> metaWriter"
and writeDirs_list ::
  "nat \<Rightarrow> writerConfig \<Rightarrow> (string \<rightharpoonup> entry) \<times> metaWriter \<times> metaWriter \<Rightarrow> string list \<Rightarrow>
   sq_err + (string \<rightharpoonup> entry) \<times> metaWriter \<times> metaWriter" where
  "writeDirs 0 cfg st d = Inl EDiverge"
| "writeDirs (Suc f) cfg st d =
     (case writeDirs_list f cfg st (kids (fst st) d) of
        Inl e \<Rightarrow> Inl e
      | Inr (es, im, dm) \<Rightarrow>
          (case child_entries es im (kids es d) of
             Inl e \<Rightarrow> Inl e
           | Inr ents \<Rightarrow>
               (case writeDirListing dm ents of
                  Inl e \<Rightarrow> Inl e
                | Inr (dm', startRef, listingBytes) \<Rightarrow>
                    let es1 = upd_entry es d (\<lambda>e. e\<lparr> dirBlockOffset := ref_offset startRef,
                                 dirBlockStart := BlockByteOffset dm' (blockIdx startRef),
                                 dirListingSize := listingBytes \<rparr>)
                    in (case writeOneInode cfg es1 im d of
                          Inl e \<Rightarrow> Inl e
                        | Inr (es2, im') \<Rightarrow> Inr (es2, im', dm')))))"
| "writeDirs_list f cfg st [] = Inr st"
| "writeDirs_list f cfg st (c # cs) =
     (if is_dir (fst st) c
      then ebind (writeDirs f cfg st c) (\<lambda>st'. writeDirs_list f cfg st' cs)
      else writeDirs_list f cfg st cs)"

section \<open>Close\<close>

definition totalInodeCount :: "(string \<rightharpoonup> entry) \<Rightarrow> string list \<Rightarrow> 32 word" where
  "totalInodeCount es iter =
     foldl (\<lambda>n p. case es p of None \<Rightarrow> n | Some e \<Rightarrow> if e_kind e \<noteq> kindHardlink then n + 1 else n) 0 iter"

definition clamp32 :: "int \<Rightarrow> 32 word" where
  "clamp32 sec = (if sec < 0 then 0 else if sec > 0xFFFFFFFF then 0xFFFFFFFF else of_int sec)"

definition imageMtime :: "writerConfig \<Rightarrow> (string \<rightharpoonup> entry) \<Rightarrow> string list \<Rightarrow> 32 word" where
  "imageMtime cfg es iter =
     (case cfg_mtime cfg of
        Some sec \<Rightarrow> clamp32 sec
      | None \<Rightarrow>
          clamp32 (foldl (\<lambda>mx p. case es p of
                       None \<Rightarrow> mx
                     | Some e \<Rightarrow> (case a_Mtime (e_attrs e) of
                                    None \<Rightarrow> mx
                                  | Some s \<Rightarrow> if s > mx then s else mx)) 0 iter))"

definition padAlignment :: nat where "padAlignment = 4096"

text \<open>The three range loops over the entry map, each with its own visiting order.\<close>

record iterations =
  it_links :: "string list"
  it_count :: "string list"
  it_mtime :: "string list"

text \<open>Everything \<^verbatim>\<open>Close\<close> computes before it emits the tables.\<close>

record plan =
  pl_entries :: "string \<rightharpoonup> entry"
  pl_ids :: idTable
  pl_inodeMeta :: metaWriter
  pl_dirMeta :: metaWriter

definition try_flush :: "metaWriter \<Rightarrow> sq_err + metaWriter" where
  "try_flush m = (case metaWriter_Flush m of (m', Some e) \<Rightarrow> Inl e | (m', None) \<Rightarrow> Inr m')"

definition try_out :: "bytes \<times> 64 word \<times> sq_err option \<Rightarrow> sq_err + bytes \<times> 64 word" where
  "try_out r = (case r of (out, n, Some e) \<Rightarrow> Inl e | (out, n, None) \<Rightarrow> Inr (out, n))"

definition try_ids :: "bytes \<times> (sq_err + 64 word list \<times> 64 word) \<Rightarrow> sq_err + bytes \<times> 64 word list \<times> 64 word" where
  "try_ids r = (case r of (out, Inl e) \<Rightarrow> Inl e | (out, Inr (offs, n)) \<Rightarrow> Inr (out, offs, n))"

definition close_plan :: "iterations \<Rightarrow> Writer \<Rightarrow> sq_err + plan" where
  "close_plan it w =
     (let fuel = walk_fuel (w_entryOrder w); cfg = w_cfg w in
      ebind (buildTree w) (\<lambda>es0.
      let es1 = assignInodeNumbers fuel es0;
          es2 = computeLinkCounts (it_links it) fuel es1
      in ebind (internIDs (w_entryOrder w) (es2, w_ids w)) (\<lambda>(es3, ids).
         ebind (writeLeafInodes cfg es3 (newMetaWriter (w_compressor w)) (w_entryOrder w)) (\<lambda>(es4, im).
         let es5 = resolveHardlinks es4 (w_entryOrder w)
         in ebind (writeDirs fuel cfg (es5, im, newMetaWriter (w_compressor w)) root_path) (\<lambda>(es6, im1, dm1).
            ebind (try_flush im1) (\<lambda>im2.
            ebind (try_flush dm1) (\<lambda>dm2.
              Inr \<lparr> pl_entries = es6, pl_ids = ids, pl_inodeMeta = im2, pl_dirMeta = dm2 \<rparr>)))))))"

definition rootInodeRefOf :: "plan \<Rightarrow> 64 word" where
  "rootInodeRefOf pl =
     (case pl_entries pl root_path of
        None \<Rightarrow> 0
      | Some root \<Rightarrow> metaRef_encode (inodeRef root)
                       (BlockByteOffset (pl_inodeMeta pl) (blockIdx (inodeRef root))))"

definition final_superblock ::
  "iterations \<Rightarrow> Writer \<Rightarrow> plan \<Rightarrow> 64 word \<Rightarrow> 64 word \<Rightarrow> 64 word \<Rightarrow> superblock" where
  "final_superblock it w pl dirStart idStart used =
     \<lparr> inodeCount = totalInodeCount (pl_entries pl) (it_count it),
       sb_modTime = imageMtime (w_cfg w) (pl_entries pl) (it_mtime it),
       sb_blockSize = cfg_blockSize (w_cfg w), fragCount = 0,
       sb_compressor = comp_ID (w_compressor w),
       blockLog = blockLogFor (cfg_blockSize (w_cfg w)),
       sb_flags = FlagNoFragments OR FlagNoXattrs,
       idCount = idTable_Count (pl_ids pl), rootInodeRef = rootInodeRefOf pl,
       bytesUsed = used, idTableStart = idStart,
       xattrTableStart = 0xFFFFFFFFFFFFFFFF, inodeTableStart = w_outPos w,
       directoryTableStart = dirStart, fragmentTableStart = 0xFFFFFFFFFFFFFFFF,
       exportTableStart = 0xFFFFFFFFFFFFFFFF \<rparr>"

text \<open>Padding of the output to the alignment boundary.\<close>

definition pad_image :: "sink \<Rightarrow> bytes \<Rightarrow> 64 word \<Rightarrow> sq_err + bytes" where
  "pad_image wr out used =
     (let rem = unat used mod padAlignment
      in if rem = 0 then Inr out
         else case io_Write wr out (replicate (padAlignment - rem) (char_of (0 :: nat))) of
                (out', n, Some e) \<Rightarrow> Inl e
              | (out', n, None) \<Rightarrow> Inr out')"

text \<open>
  The emission phase.  The result is the output before the final seek (data, tables, padding)
  with the superblock that replaces the placeholder.
\<close>

definition emit_tables :: "sink \<Rightarrow> iterations \<Rightarrow> Writer \<Rightarrow> plan \<Rightarrow> sq_err + bytes \<times> superblock" where
  "emit_tables wr it w pl =
     ebind (try_out (metaWriter_EmitTo (pl_inodeMeta pl) wr (w_out w))) (\<lambda>(o1, n1).
     let dirStart = w_outPos w + n1 in
     ebind (try_out (metaWriter_EmitTo (pl_dirMeta pl) wr o1)) (\<lambda>(o2, n2).
     let idDataStart = dirStart + n2 in
     ebind (try_ids (idTable_WriteData (pl_ids pl) wr o2 (w_compressor w) idDataStart)) (\<lambda>(o3, offs, n3).
     let idStart = idDataStart + n3 in
     ebind (try_out (idTable_WriteLookup wr o3 offs)) (\<lambda>(o4, n4).
     let used = idStart + n4
     in ebind (pad_image wr o4 used) (\<lambda>o5. Inr (o5, final_superblock it w pl dirStart idStart used))))))"

text \<open>
  \<^verbatim>\<open>Close\<close>: the new state and, on success, the bytes of the finished image.  \<open>seek\<close> tells whether
  the seek back to the start succeeds, \<open>sbw\<close> whether the final superblock write does.
\<close>

definition Writer_Close ::
  "sink \<Rightarrow> iterations \<Rightarrow> bool \<Rightarrow> bool \<Rightarrow> Writer \<Rightarrow> Writer \<times> (sq_err + bytes)" where
  "Writer_Close wr it seek sbw w =
     (if w_closed w then (w, Inl ErrClosed)
      else case flushCurFile wr w of
             (w1, Some e) \<Rightarrow> (w1, Inl e)
           | (w1, None) \<Rightarrow>
               (let w2 = w1\<lparr> w_closed := True \<rparr> in
                case close_plan it w2 of
                  Inl e \<Rightarrow> (w2, Inl e)
                | Inr pl \<Rightarrow>
                    (let w3 = w2\<lparr> w_entries := pl_entries pl, w_ids := pl_ids pl \<rparr> in
                     case emit_tables wr it w3 pl of
                       Inl e \<Rightarrow> (w3, Inl e)
                     | Inr (out, sb) \<Rightarrow>
                         if \<not> seek \<or> \<not> sbw then (w3, Inl EWrite)
                         else (w3\<lparr> w_finished := True \<rparr>,
                               Inr (superblock_encode sb @ drop superblockSize out)))))"

section \<open>What the passes leave alone\<close>

text \<open>The part of an entry the client determined; the passes of \<^verbatim>\<open>Close\<close> only fill in the rest.\<close>

definition core :: "entry \<Rightarrow> entry" where
  "core e =
     e\<lparr> inodeNumber := 0, inodeRef := \<lparr> blockIdx = 0, ref_offset = 0 \<rparr>, nlinks := 0, uidIdx := 0,
        gidIdx := 0, children := [], dirBlockStart := 0, dirBlockOffset := 0, dirListingSize := 0,
        parentInode := 0 \<rparr>"

definition same_core :: "(string \<rightharpoonup> entry) \<Rightarrow> (string \<rightharpoonup> entry) \<Rightarrow> bool" where
  "same_core es es' \<longleftrightarrow> (\<forall>p. map_option core (es' p) = map_option core (es p))"

lemma same_core_refl [simp]: "same_core es es"
  by (simp add: same_core_def)

lemma same_core_trans [trans]: "same_core a b \<Longrightarrow> same_core b c \<Longrightarrow> same_core a c"
  by (simp add: same_core_def)

lemma same_core_upd: "es p = Some e \<Longrightarrow> core e' = core e \<Longrightarrow> same_core es (es(p \<mapsto> e'))"
  by (simp add: same_core_def)

lemma same_core_upd_entry: "(\<And>e. core (f e) = core e) \<Longrightarrow> same_core es (upd_entry es p f)"
  by (simp add: same_core_def upd_entry_def split: option.split)

lemma core_simps [simp]:
  "core (e\<lparr> inodeNumber := a \<rparr>) = core e" "core (e\<lparr> inodeRef := b \<rparr>) = core e" "core (e\<lparr> nlinks := c \<rparr>) = core e"
  "core (e\<lparr> uidIdx := d \<rparr>) = core e" "core (e\<lparr> gidIdx := d \<rparr>) = core e" "core (e\<lparr> children := x \<rparr>) = core e"
  "core (e\<lparr> dirBlockStart := f \<rparr>) = core e" "core (e\<lparr> dirBlockOffset := g \<rparr>) = core e"
  "core (e\<lparr> dirListingSize := h \<rparr>) = core e" "core (e\<lparr> parentInode := i \<rparr>) = core e"
  by (simp_all add: core_def)

lemma same_core_Some:
  assumes "same_core es es'" "es p = Some e"
  obtains e' where "es' p = Some e'" "core e' = core e"
proof -
  have "map_option core (es' p) = Some (core e)" using assms by (simp add: same_core_def)
  then show ?thesis using that by (cases "es' p") auto
qed

lemma same_core_None: "same_core es es' \<Longrightarrow> es p = None \<longleftrightarrow> es' p = None"
  by (metis map_option_is_None same_core_def)

lemma core_fields:
  assumes "core e' = core e"
  shows "e_path e' = e_path e" "e_kind e' = e_kind e" "e_attrs e' = e_attrs e"
    "fileBlocksStart e' = fileBlocksStart e" "fileBlockSizes e' = fileBlockSizes e"
    "fileSize e' = fileSize e" "symlinkTarget e' = symlinkTarget e" "hardlinkTarget e' = hardlinkTarget e"
    "devMajor e' = devMajor e" "devMinor e' = devMinor e"
proof -
  have "e_path (core e') = e_path (core e)" "e_kind (core e') = e_kind (core e)"
    "e_attrs (core e') = e_attrs (core e)" "fileBlocksStart (core e') = fileBlocksStart (core e)"
    "fileBlockSizes (core e') = fileBlockSizes (core e)" "fileSize (core e') = fileSize (core e)"
    "symlinkTarget (core e') = symlinkTarget (core e)" "hardlinkTarget (core e') = hardlinkTarget (core e)"
    "devMajor (core e') = devMajor (core e)" "devMinor (core e') = devMinor (core e)"
    using assms by simp_all
  then show "e_path e' = e_path e" "e_kind e' = e_kind e" "e_attrs e' = e_attrs e"
    "fileBlocksStart e' = fileBlocksStart e" "fileBlockSizes e' = fileBlockSizes e"
    "fileSize e' = fileSize e" "symlinkTarget e' = symlinkTarget e" "hardlinkTarget e' = hardlinkTarget e"
    "devMajor e' = devMajor e" "devMinor e' = devMinor e"
    by (simp_all add: core_def)
qed

lemma link_children_core: "link_children es ps = Inr es' \<Longrightarrow> same_core es es'"
proof (induction es ps rule: link_children.induct)
  case (2 es p ps)
  show ?case
  proof (cases "p = root_path")
    case True
    then show ?thesis using 2 by simp
  next
    case False
    then obtain parent where parent: "es (Dir p) = Some parent" "e_kind parent = kindDir"
      and rest: "link_children (es(Dir p \<mapsto> parent\<lparr> children := children parent @ [p] \<rparr>)) ps = Inr es'"
      using 2(3) by (auto split: option.splits if_splits)
    have "same_core es (es(Dir p \<mapsto> parent\<lparr> children := children parent @ [p] \<rparr>))"
      using parent by (intro same_core_upd) simp_all
    then show ?thesis using same_core_trans 2(2) [OF False parent(1)] parent(2) rest by blast
  qed
qed simp

lemma sortRec_core: "same_core es (sortRec f es d)" "same_core es (sortRec_list f es cs)"
proof (induction f es d and f es cs rule: sortRec_sortRec_list.induct)
  case (2 f es d)
  have "same_core es (upd_entry es d (\<lambda>e. e\<lparr> children := sort_key Base (kids es d) \<rparr>))"
    by (rule same_core_upd_entry) simp
  then show ?case using 2 same_core_trans by (simp add: Let_def)
next
  case (4 f es c cs)
  then show ?case using same_core_trans by (cases "is_dir es c") auto
qed simp_all

lemma assign_core: "same_core (fst st) (fst (assign f st p parent))"
  "same_core (fst st) (fst (assign_list f st cs parent))"
proof (induction f st p parent and f st cs parent rule: assign_assign_list.induct)
  case (2 f es nxt p parent)
  show ?case
  proof (cases "es p")
    case (Some e)
    have "same_core es (es(p \<mapsto> e\<lparr> inodeNumber := nxt, parentInode := parent \<rparr>))"
      using Some by (intro same_core_upd) simp_all
    moreover have "same_core (es(p \<mapsto> e\<lparr> inodeNumber := nxt, parentInode := parent \<rparr>))
        (fst (assign_list f (es(p \<mapsto> e\<lparr> inodeNumber := nxt, parentInode := parent \<rparr>), nxt + 1) (children e) nxt))"
      if "e_kind e = kindDir"
      using 2 [OF Some _ refl] that by (simp del: fun_upd_apply)
    ultimately show ?thesis using same_core_trans Some by (auto simp: Let_def)
  qed simp
next
  case (4 f st c cs parent)
  then show ?case using same_core_trans by simp
qed simp_all

lemma count_links_core: "same_core es (count_links es ps)"
proof (induction ps arbitrary: es)
  case (Cons p ps)
  show ?case
  proof (cases "es p")
    case None
    then show ?thesis using Cons by simp
  next
    case (Some e)
    have "same_core es (es(p \<mapsto> e\<lparr> nlinks := 1 \<rparr>))" using Some by (intro same_core_upd) simp_all
    moreover have "same_core es (upd_entry es t (\<lambda>te. te\<lparr> nlinks := nlinks te + 1 \<rparr>))" for t
      by (rule same_core_upd_entry) simp
    ultimately show ?thesis
      using Some Cons same_core_trans by (cases "e_kind e"; cases "hardlinkTarget e") (simp_all, blast+)
  qed
qed simp

lemma count_dirs_core: "same_core es (count_dirs f es d)" "same_core (fst st) (fst (count_dirs_list f st cs))"
proof (induction f es d and f st cs rule: count_dirs_count_dirs_list.induct)
  case (2 f es d)
  obtain es1 n where eq: "count_dirs_list f (es, 0) (kids es d) = (es1, n)" by (rule prod.exhaust)
  have "same_core es1 (upd_entry es1 d (\<lambda>e. e\<lparr> nlinks := 2 + n \<rparr>))"
    by (rule same_core_upd_entry) simp
  then show ?case using 2 eq same_core_trans by simp
next
  case (4 f es n c cs)
  then show ?case using same_core_trans by (cases "is_dir es c") auto
qed simp_all

lemma intern_entry_core: "intern_entry (es, t) p = Inr (es', t') \<Longrightarrow> same_core es es'"
  by (auto simp: intern_entry_def intro!: same_core_upd split: option.splits prod.splits sum.splits)

lemma intern_list_core: "intern_list st ps = Inr st' \<Longrightarrow> same_core (fst st) (fst st')"
proof (induction st ps rule: intern_list.induct)
  case (2 st p ps)
  obtain e where e: "fst st p = Some e" using 2(3) by (auto split: option.splits)
  show ?case
  proof (cases "e_kind e = kindHardlink")
    case True
    then show ?thesis using 2 e by simp
  next
    case False
    then obtain st1 where st1: "intern_entry st p = Inr st1" "intern_list st1 ps = Inr st'"
      using 2(3) e by (auto simp: ebind_Inr_conv)
    have "same_core (fst st) (fst st1)"
      using st1(1) intern_entry_core by (metis prod.collapse)
    then show ?thesis using 2(2) [OF e False st1(2)] same_core_trans by blast
  qed
qed simp

lemma internIDs_core: "internIDs order st = Inr st' \<Longrightarrow> same_core (fst st) (fst st')"
proof -
  assume I: "internIDs order st = Inr st'"
  then obtain es t where l: "intern_list st order = Inr (es, t)"
    by (auto simp: internIDs_def split: sum.splits)
  have "same_core es (fst st')"
    using I l intern_entry_core [of es t root_path "fst st'" "snd st'"]
    by (auto simp: internIDs_def split: option.splits if_splits)
  then show ?thesis using intern_list_core [OF l] same_core_trans by simp
qed

lemma writeOneInode_core: "writeOneInode cfg es m p = Inr (es', m') \<Longrightarrow> same_core es es'"
  by (auto simp: writeOneInode_def intro!: same_core_upd split: option.splits sum.splits prod.splits)

lemma writeLeafInodes_core: "writeLeafInodes cfg es m ps = Inr (es', m') \<Longrightarrow> same_core es es'"
proof (induction ps arbitrary: es m)
  case (Cons p ps)
  then show ?case
    using writeOneInode_core same_core_trans
    by (auto split: option.splits if_splits sum.splits prod.splits) blast
qed simp

lemma resolveHardlinks_core: "same_core es (resolveHardlinks es ps)"
proof (induction ps arbitrary: es)
  case (Cons p ps)
  show ?case
  proof (cases "\<exists>e t te. es p = Some e \<and> e_kind e = kindHardlink \<and> hardlinkTarget e = Some t \<and> es t = Some te")
    case True
    then obtain e t te where e: "es p = Some e" "e_kind e = kindHardlink" "hardlinkTarget e = Some t" "es t = Some te"
      by blast
    have "same_core es (es(p \<mapsto> e\<lparr> inodeRef := inodeRef te, inodeNumber := inodeNumber te \<rparr>))"
      using e(1) by (intro same_core_upd) simp_all
    then show ?thesis using e same_core_trans Cons by simp
  next
    case False
    then have "resolveHardlinks es (p # ps) = resolveHardlinks es ps"
      by (auto split: option.splits entryKind.splits)
    then show ?thesis using Cons by simp
  qed
qed simp

section \<open>Invariants of the two metadata streams\<close>

text \<open>A stream of the image under construction: well-formed and on the writer's compressor.\<close>

definition stream_ok :: "Compressor \<Rightarrow> metaWriter \<Rightarrow> bool" where
  "stream_ok c m = (meta_inv m \<and> mw_comp m = c)"

lemma stream_ok_new [simp]: "stream_ok c (newMetaWriter c)"
  by (simp add: stream_ok_def) (simp add: newMetaWriter_def)

lemma stream_ok_Write: "metaWriter_Write m p = (m', n, None) \<Longrightarrow> stream_ok c m \<Longrightarrow> stream_ok c m'"
  using metaWriter_Write_inv by (simp add: stream_ok_def)

lemma writeOneInode_cases:
  assumes "writeOneInode cfg es m p = Inr (es', m')"
  obtains e mtime body n where "es p = Some e" "entryMtime cfg e = Inr mtime"
    "encodeInode e mtime (cfg_blockSize cfg) = Inr body" "metaWriter_Write m body = (m', n, None)"
    "es' = es(p \<mapsto> e\<lparr> inodeRef := metaWriter_Ref m \<rparr>)"
  using assms by (auto simp: writeOneInode_def split: option.splits sum.splits prod.splits)

lemma writeOneInode_stream:
  "writeOneInode cfg es m p = Inr (es', m') \<Longrightarrow> stream_ok c m \<Longrightarrow> stream_ok c m'"
  using stream_ok_Write by (elim writeOneInode_cases)

lemma writeLeafInodes_stream:
  "writeLeafInodes cfg es m ps = Inr (es', m') \<Longrightarrow> stream_ok c m \<Longrightarrow> stream_ok c m'"
proof (induction ps arbitrary: es m)
  case (Cons p ps)
  then show ?case
    using writeOneInode_stream by (auto split: option.splits if_splits sum.splits prod.splits)
qed simp

lemma write_group_stream:
  "write_group m base es lb = Inr (m', lb') \<Longrightarrow> stream_ok c m \<Longrightarrow> stream_ok c m'"
proof (induction es arbitrary: m lb)
  case (Cons e es)
  then show ?case
    using stream_ok_Write by (auto split: if_splits prod.splits option.splits)
qed simp

lemma write_groups_stream:
  "write_groups m es lb = Inr (m', lb') \<Longrightarrow> stream_ok c m \<Longrightarrow> stream_ok c m'"
proof (induction m es lb rule: write_groups.induct)
  case (2 m base rest lb)
  define count where "count = group_len base rest 1"
  obtain m1 n m2 lb2 where w: "metaWriter_Write m (dir_header_bytes count base) = (m1, n, None)"
    and g: "write_group m1 base (take count (base # rest)) (lb + 12) = Inr (m2, lb2)"
    and r: "write_groups m2 (drop count (base # rest)) lb2 = Inr (m', lb')"
    using 2(2) by (auto simp: Let_def count_def split: prod.splits option.splits sum.splits)
  show ?case
    using 2(1) [OF count_def w [symmetric] refl refl g refl r]
      write_group_stream [OF g] stream_ok_Write [OF w 2(3)] by simp
qed simp

lemma writeDirListing_stream:
  "writeDirListing m es = Inr (m', r, n) \<Longrightarrow> stream_ok c m \<Longrightarrow> stream_ok c m'"
  using write_groups_stream by (auto simp: writeDirListing_def split: sum.splits prod.splits)

text \<open>One directory: its subdirectories first, then its listing, then its inode.\<close>

lemma writeDirs_SucD:
  assumes "writeDirs (Suc f) cfg (es0, im0, dm0) d = Inr (es', im', dm')"
  shows "\<exists>es im dm ents r n. writeDirs_list f cfg (es0, im0, dm0) (kids es0 d) = Inr (es, im, dm) \<and>
    child_entries es im (kids es d) = Inr ents \<and> writeDirListing dm ents = Inr (dm', r, n) \<and>
    writeOneInode cfg (upd_entry es d (\<lambda>e. e\<lparr> dirBlockOffset := ref_offset r,
        dirBlockStart := BlockByteOffset dm' (blockIdx r), dirListingSize := n \<rparr>)) im d = Inr (es', im')"
  using assms by (auto simp: Let_def split: sum.splits prod.splits)

lemma writeDirs_ok:
  "writeDirs f cfg st d = Inr st' \<Longrightarrow> stream_ok c (fst (snd st)) \<Longrightarrow> stream_ok c (snd (snd st)) \<Longrightarrow>
     stream_ok c (fst (snd st')) \<and> stream_ok c (snd (snd st')) \<and> same_core (fst st) (fst st')"
  "writeDirs_list f cfg st cs = Inr st' \<Longrightarrow> stream_ok c (fst (snd st)) \<Longrightarrow> stream_ok c (snd (snd st)) \<Longrightarrow>
     stream_ok c (fst (snd st')) \<and> stream_ok c (snd (snd st')) \<and> same_core (fst st) (fst st')"
proof (induction f cfg st d and f cfg st cs arbitrary: st' and st' rule: writeDirs_writeDirs_list.induct)
  case (2 f cfg st d)
  obtain es' im' dm' es0 im0 dm0 where st': "st' = (es', im', dm')" and st: "st = (es0, im0, dm0)"
    by (metis prod_cases3)
  from writeDirs_SucD [OF 2(2) [unfolded st' st]] obtain es im dm ents r n
    where l: "writeDirs_list f cfg st (kids (fst st) d) = Inr (es, im, dm)"
      and dl: "writeDirListing dm ents = Inr (dm', r, n)"
      and i: "writeOneInode cfg (upd_entry es d (\<lambda>e. e\<lparr> dirBlockOffset := ref_offset r,
        dirBlockStart := BlockByteOffset dm' (blockIdx r), dirListingSize := n \<rparr>)) im d = Inr (es', im')"
    by (auto simp: st)
  have IH: "stream_ok c im" "stream_ok c dm" "same_core (fst st) es" using 2(1) [OF l 2(3,4)] by simp_all
  moreover have "same_core es es'"
    by (rule same_core_trans [OF same_core_upd_entry writeOneInode_core [OF i]]) simp
  ultimately show ?case
    using writeOneInode_stream [OF i] writeDirListing_stream [OF dl] same_core_trans st' by fastforce
next
  case (4 f cfg st c' cs)
  show ?case
  proof (cases "is_dir (fst st) c'")
    case True
    then obtain st1 where st1: "writeDirs f cfg st c' = Inr st1" "writeDirs_list f cfg st1 cs = Inr st'"
      using 4(4) by (auto simp: ebind_Inr_conv)
    show ?thesis using 4(1) [OF True st1(1) 4(5,6)] 4(2) [OF True st1(2)] same_core_trans by blast
  next
    case False
    then show ?thesis using 4(3) [OF False] 4(4-6) by simp
  qed
qed auto

section \<open>The finished image\<close>

definition with_root :: "Writer \<Rightarrow> (string \<rightharpoonup> entry)" where
  "with_root w =
     (case w_entries w root_path of
        Some _ \<Rightarrow> w_entries w
      | None \<Rightarrow> (w_entries w)(root_path \<mapsto> synthetic_root (cfg_mtime (w_cfg w))))"

lemma buildTree_core: "buildTree w = Inr es \<Longrightarrow> same_core (with_root w) es"
  using link_children_core sortRec_core(1) same_core_trans
  by (auto simp: buildTree_def with_root_def Let_def split: sum.splits) blast+

lemma try_flush_Inr: "try_flush m = Inr m' \<Longrightarrow> metaWriter_Flush m = (m', None)"
  by (auto simp: try_flush_def split: prod.splits option.splits)

lemma try_out_Inr: "try_out r = Inr (out, n) \<longleftrightarrow> r = (out, n, None)"
  by (auto simp: try_out_def split: prod.splits option.splits)

lemma try_ids_Inr: "try_ids r = Inr (out, offs, n) \<longleftrightarrow> r = (out, Inr (offs, n))"
  by (auto simp: try_ids_def split: prod.splits sum.splits)

text \<open>What the plan of \<^verbatim>\<open>Close\<close> consists of.\<close>

lemma close_planE:
  assumes "close_plan it w = Inr pl"
  obtains es es5 im im1 dm1 where "same_core (with_root w) es5"
    "writeDirs (walk_fuel (w_entryOrder w)) (w_cfg w) (es5, im, newMetaWriter (w_compressor w)) root_path =
       Inr (pl_entries pl, im1, dm1)"
    "stream_ok (w_compressor w) im" "metaWriter_Flush im1 = (pl_inodeMeta pl, None)"
    "metaWriter_Flush dm1 = (pl_dirMeta pl, None)"
proof -
  define fuel where "fuel = walk_fuel (w_entryOrder w)"
  obtain es0 es3 ids es4 im es6 im1 dm1 im2 dm2 where b: "buildTree w = Inr es0"
    and i: "internIDs (w_entryOrder w)
        (computeLinkCounts (it_links it) fuel (assignInodeNumbers fuel es0), w_ids w) = Inr (es3, ids)"
    and l: "writeLeafInodes (w_cfg w) es3 (newMetaWriter (w_compressor w)) (w_entryOrder w) = Inr (es4, im)"
    and d: "writeDirs fuel (w_cfg w) (resolveHardlinks es4 (w_entryOrder w), im, newMetaWriter (w_compressor w)) root_path =
        Inr (es6, im1, dm1)"
    and f: "try_flush im1 = Inr im2" "try_flush dm1 = Inr dm2"
    and pl: "pl = \<lparr> pl_entries = es6, pl_ids = ids, pl_inodeMeta = im2, pl_dirMeta = dm2 \<rparr>"
    using assms by (auto simp: close_plan_def Let_def ebind_Inr_conv fuel_def)
  have "same_core (with_root w) es0" using buildTree_core [OF b] .
  also have "same_core es0 (assignInodeNumbers fuel es0)"
    using assign_core(1) [of "(es0, 1)"] by (simp add: assignInodeNumbers_def)
  also have "same_core (assignInodeNumbers fuel es0)
      (computeLinkCounts (it_links it) fuel (assignInodeNumbers fuel es0))"
    unfolding computeLinkCounts_def by (rule same_core_trans [OF count_links_core count_dirs_core(1)])
  also have "same_core (computeLinkCounts (it_links it) fuel (assignInodeNumbers fuel es0)) es3"
    using internIDs_core [OF i] by simp
  also have "same_core es3 es4" using writeLeafInodes_core [OF l] .
  also have "same_core es4 (resolveHardlinks es4 (w_entryOrder w))"
    by (rule resolveHardlinks_core)
  finally have "same_core (with_root w) (resolveHardlinks es4 (w_entryOrder w))" .
  then show ?thesis
    using that d f [THEN try_flush_Inr] writeLeafInodes_stream [OF l] by (simp add: pl fuel_def)
qed

text \<open>The byte layout the emission phase produces.\<close>

lemma round_up_mod:
  assumes "0 < (a :: nat)"
  shows "(n + (a - n mod a)) mod a = 0"
proof -
  have "n + (a - n mod a) = n div a * a + (n mod a + (a - n mod a))"
    using div_mult_mod_eq [of n a] by simp
  also have "n mod a + (a - n mod a) = a" using mod_less_divisor [OF assms, of n] by simp
  finally show ?thesis by simp
qed

lemma pad_image_ok:
  assumes "pad_image wr out used = Inr out'" "used = of_nat (length out)"
  obtains pad where "out' = out @ pad" "length pad < padAlignment"
    "length out' < 2 ^ 64 \<longrightarrow> length out' mod padAlignment = 0"
proof -
  define rem where "rem = unat used mod padAlignment"
  define pad where "pad = (if rem = 0 then [] else replicate (padAlignment - rem) (char_of (0 :: nat)))"
  have out': "out' = out @ pad"
    using assms(1) by (auto simp: pad_image_def pad_def rem_def Let_def dest!: io_Write_ok
        split: if_splits prod.splits option.splits)
  have "rem < padAlignment" by (simp add: rem_def padAlignment_def)
  moreover have "length out' mod padAlignment = 0" if "length out' < 2 ^ 64"
  proof -
    have "rem = length out mod padAlignment"
      using that out' assms(2) by (simp add: rem_def unat_of_nat_less)
    moreover have "(length out + (padAlignment - length out mod padAlignment)) mod padAlignment = 0"
      by (rule round_up_mod) (simp add: padAlignment_def)
    ultimately show ?thesis by (auto simp: out' pad_def)
  qed
  ultimately show ?thesis using that [OF out'] by (auto simp: pad_def)
qed

lemma emit_tables_layout:
  assumes "emit_tables wr it w pl = Inr (out, sb)" "w_outPos w = of_nat (length (w_out w))"
  obtains ids lk pad where
    "out = w_out w @ concat (map block_bytes (mw_blocks (pl_inodeMeta pl))) @
           concat (map block_bytes (mw_blocks (pl_dirMeta pl))) @ ids @ lk @ pad"
    "inodeTableStart sb = of_nat (length (w_out w))"
    "directoryTableStart sb = of_nat (length (w_out w @ concat (map block_bytes (mw_blocks (pl_inodeMeta pl)))))"
    "rootInodeRef sb = rootInodeRefOf pl"
    "bytesUsed sb = of_nat (length out - length pad)" "length pad < padAlignment"
    "sb_blockSize sb = cfg_blockSize (w_cfg w)" "blockLog sb = blockLogFor (cfg_blockSize (w_cfg w))"
    "length out < 2 ^ 64 \<longrightarrow> length out mod padAlignment = 0"
proof -
  define IT where "IT = concat (map block_bytes (mw_blocks (pl_inodeMeta pl)))"
  define DT where "DT = concat (map block_bytes (mw_blocks (pl_dirMeta pl)))"
  obtain o1 n1 o2 n2 o3 offs n3 o4 n4 where e1: "metaWriter_EmitTo (pl_inodeMeta pl) wr (w_out w) = (o1, n1, None)"
    and e2: "metaWriter_EmitTo (pl_dirMeta pl) wr o1 = (o2, n2, None)"
    and e3: "idTable_WriteData (pl_ids pl) wr o2 (w_compressor w) (w_outPos w + n1 + n2) = (o3, Inr (offs, n3))"
    and e4: "idTable_WriteLookup wr o3 offs = (o4, n4, None)"
    and e5: "pad_image wr o4 (w_outPos w + n1 + n2 + n3 + n4) = Inr out"
    and sb: "sb = final_superblock it w pl (w_outPos w + n1) (w_outPos w + n1 + n2 + n3)
               (w_outPos w + n1 + n2 + n3 + n4)"
    using assms(1)
    by (auto simp: emit_tables_def Let_def ebind_Inr_conv try_out_Inr try_ids_Inr)
  have o1: "o1 = w_out w @ IT" "n1 = of_nat (length IT)"
    using emit_blocks_ok e1 unfolding metaWriter_EmitTo_def IT_def by fastforce+
  have o2: "o2 = o1 @ DT" "n2 = of_nat (length DT)"
    using emit_blocks_ok e2 unfolding metaWriter_EmitTo_def DT_def by fastforce+
  obtain ids where o3: "o3 = o2 @ ids" "n3 = of_nat (length ids)"
    using idTable_WriteData_out [OF e3] by blast
  obtain lk where o4: "o4 = o3 @ lk" "n4 = of_nat (length lk)"
    using idTable_WriteLookup_out [OF e4] by blast
  have used: "w_outPos w + n1 + n2 + n3 + n4 = of_nat (length o4)"
    using assms(2) o1 o2 o3 o4 by simp
  obtain pad where pad: "out = o4 @ pad" "length pad < padAlignment"
    "length out < 2 ^ 64 \<longrightarrow> length out mod padAlignment = 0"
    using pad_image_ok [OF e5 used] by blast
  show ?thesis
    using that [of ids lk pad] pad used assms(2) o1 o2 o3 o4
    by (simp add: sb final_superblock_def IT_def DT_def)
qed

text \<open>The region of the image between the inode table and the directory table.\<close>

definition inode_table :: "bytes \<Rightarrow> superblock \<Rightarrow> bytes" where
  "inode_table img sb =
     take (unat (directoryTableStart sb) - unat (inodeTableStart sb)) (drop (unat (inodeTableStart sb)) img)"

text \<open>An inode reference: block offset in the upper 48 bits, in-block offset in the lower 16.\<close>

definition inode_at :: "(bytes \<Rightarrow> bytes) \<Rightarrow> bytes \<Rightarrow> superblock \<Rightarrow> 64 word \<Rightarrow> (inode_header \<times> inode_body) option" where
  "inode_at dec img sb r =
     read_inode (sb_blockSize sb)
       (drop (unat (r AND 0xFFFF)) (read_meta dec (drop (unat (drop_bit 16 r)) (inode_table img sb))))"

lemma metaRef_encode_parts:
  assumes "unat off < 2 ^ 48"
  shows "unat (metaRef_encode r off AND 0xFFFF) = unat (ref_offset r)"
    and "drop_bit 16 (metaRef_encode r off) = off"
proof -
  have m: "(0xFFFF :: 64 word) = mask 16" by (simp add: mask_eq_exp_minus_1)
  have u: "take_bit 16 (ucast (ref_offset r) :: 64 word) = ucast (ref_offset r)"
    by (intro bit_word_eqI) (auto simp: bit_simps dest: bit_imp_le_length)
  have "metaRef_encode r off AND 0xFFFF = ucast (ref_offset r)"
    unfolding m take_bit_eq_mask [symmetric] by (simp add: metaRef_encode_def u take_bit_push_bit)
  then show "unat (metaRef_encode r off AND 0xFFFF) = unat (ref_offset r)"
    by (simp add: unsigned_ucast_eq take_bit_nat_eq_self_iff less_le_trans [OF unat_lt_256_pow(1)])
  have hi: "\<not> bit off n" if "48 \<le> n" for n
  proof -
    have "\<not> bit (unat off) n"
      using assms that by (intro bit_nat_iff_small) (meson less_le_trans one_le_numeral power_increasing)
    then show ?thesis by (cases "n < 64") (auto simp: bit_unsigned_iff dest: bit_imp_le_length)
  qed
  show "drop_bit 16 (metaRef_encode r off) = off"
    using hi by (intro bit_word_eqI)
      (auto simp: metaRef_encode_def bit_simps dest: bit_imp_le_length, meson not_le)
qed

lemma abs_tree_file:
  assumes "w_curFile w = None" "abs_tree dec w p = Some (a, NFile b)"
  shows "\<exists>e. w_entries w p = Some e \<and> e_kind e = kindFile \<and> e_attrs e = a \<and> file_data dec (w_out w) e = b"
proof -
  obtain e where e: "w_entries w p = Some e" "e_attrs e = a" "abs_node dec w e = NFile b"
    using assms(2) by (auto simp: abs_tree_def)
  then have "e_kind e = kindFile" by (cases "e_kind e") (simp_all add: abs_node_def)
  then show ?thesis using e assms(1) by (simp add: abs_node_def file_content_def)
qed

lemma concat_take_length: "length (concat (take k xs)) \<le> length (concat xs)"
  by (metis append_take_drop_id concat_append le_add1 length_append)

context squash_codec
begin

text \<open>The root directory's inode is the last record of the inode table.\<close>

lemma close_plan_root:
  assumes pl: "close_plan it w = Inr pl" and c: "w_compressor w = comp"
    and inv: "w_entries w root_path = None"
  obtains root mtime body im where "pl_entries pl root_path = Some root" "e_kind root = kindDir"
    "inodeRef root = metaWriter_Ref im" "entryMtime (w_cfg w) root = Inr mtime"
    "encodeInode root mtime (cfg_blockSize (w_cfg w)) = Inr body" "stream_ok comp im"
    "meta_run im [MWrite body, MFlush] = Inr (pl_inodeMeta pl)" "fileBlockSizes root = []"
    "same_core (with_root w) (pl_entries pl)"
proof -
  obtain es5 im0 im1 dm1 where core: "same_core (with_root w) es5"
    and d: "writeDirs (walk_fuel (w_entryOrder w)) (w_cfg w) (es5, im0, newMetaWriter comp) root_path =
       Inr (pl_entries pl, im1, dm1)" and im0: "stream_ok comp im0"
    and f: "metaWriter_Flush im1 = (pl_inodeMeta pl, None)"
    using close_planE [OF pl] c by metis
  have all: "same_core (with_root w) (pl_entries pl)"
    using writeDirs_ok(1) [OF d] im0 core same_core_trans by fastforce
  obtain fuel where fuel: "walk_fuel (w_entryOrder w) = Suc fuel" by (simp add: walk_fuel_def)
  from writeDirs_SucD [OF d [unfolded fuel]] obtain es im dm ents n and r :: metaRef
    where l: "writeDirs_list fuel (w_cfg w) (es5, im0, newMetaWriter comp) (kids es5 root_path) = Inr (es, im, dm)"
      and i: "writeOneInode (w_cfg w) (upd_entry es root_path (\<lambda>e. e\<lparr> dirBlockOffset := ref_offset r,
        dirBlockStart := BlockByteOffset dm1 (blockIdx r), dirListingSize := n \<rparr>)) im root_path =
        Inr (pl_entries pl, im1)"
    by blast
  have im: "stream_ok comp im" using writeDirs_ok(2) [OF l] im0 by simp
  from i obtain e mtime body k where e: "entryMtime (w_cfg w) e = Inr mtime"
    "encodeInode e mtime (cfg_blockSize (w_cfg w)) = Inr body" "metaWriter_Write im body = (im1, k, None)"
    and es6: "pl_entries pl root_path = Some (e\<lparr> inodeRef := metaWriter_Ref im \<rparr>)"
    by (elim writeOneInode_cases) simp
  have "with_root w root_path = Some (synthetic_root (cfg_mtime (w_cfg w)))"
    using inv by (simp add: with_root_def)
  from same_core_Some [OF all this] es6
  have ce: "core (e\<lparr> inodeRef := metaWriter_Ref im \<rparr>) = core (synthetic_root (cfg_mtime (w_cfg w)))" by auto
  have "e_kind e = kindDir" "fileBlockSizes e = []"
    using core_fields(2,5) [OF ce] by (simp_all add: synthetic_root_def)
  moreover have "meta_run im [MWrite body, MFlush] = Inr (pl_inodeMeta pl)" using e f by simp
  moreover have "encodeInode (e\<lparr> inodeRef := metaWriter_Ref im \<rparr>) mtime bs = encodeInode e mtime bs" for bs
    using \<open>e_kind e = kindDir\<close>
    by (simp add: encodeInode_def encodeBasicDir_def writeCommonHeader_def encodePerm_def Let_def)
  moreover have "entryMtime (w_cfg w) (e\<lparr> inodeRef := metaWriter_Ref im \<rparr>) = Inr mtime"
    using e(1) by (cases "cfg_mtime (w_cfg w)") (simp_all add: entryMtime_def)
  ultimately show ?thesis
    using e(2) all im by (intro that [OF es6, of im mtime body]) simp_all
qed

lemma root_inode_read:
  assumes "pl_entries pl root_path = Some root" "e_kind root = kindDir"
    "inodeRef root = metaWriter_Ref im" "entryMtime cfg root = Inr mtime"
    "encodeInode root mtime (cfg_blockSize cfg) = Inr body" "stream_ok comp im"
    "meta_run im [MWrite body, MFlush] = Inr (pl_inodeMeta pl)" "fileBlockSizes root = []"
    and table: "inode_table img sb = concat (map block_bytes (mw_blocks (pl_inodeMeta pl)))"
    and sb: "rootInodeRef sb = rootInodeRefOf pl" "sb_blockSize sb = cfg_blockSize cfg"
    and pos: "cfg_blockSize cfg \<noteq> 0"
    and len: "length (concat (map block_bytes (mw_blocks (pl_inodeMeta pl)))) < 2 ^ 48"
  shows "inode_at dec img sb (rootInodeRef sb) = inode_view root mtime"
proof -
  define tbl where "tbl = concat (map block_bytes (mw_blocks (pl_inodeMeta pl)))"
  define r where "r = metaWriter_Ref im"
  define off where "off = BlockByteOffset (pl_inodeMeta pl) (blockIdx r)"
  have inv: "meta_inv im" "mw_comp im = comp" using assms(6) by (simp_all add: stream_ok_def)
  have blocks: "list_all block_ok (mw_blocks (pl_inodeMeta pl))"
    using meta_run_inv [OF assms(7) inv(1)] by (simp add: meta_inv_def)
  obtain n where emit: "metaWriter_EmitTo (pl_inodeMeta pl) no_fail [] = (tbl, n, None)"
    using emit_blocks_no_fail [OF blocks, of "[]" 0] emit_blocks_ok
    unfolding metaWriter_EmitTo_def tbl_def by fastforce
  have "take (length body) (drop (unat (ref_offset r)) (read_meta dec (drop (unat off) tbl))) = body"
    using record_read_back [of im body "[]" "pl_inodeMeta pl" no_fail tbl n] inv assms(7) emit len
    by (simp add: off_def r_def tbl_def)
  then obtain tail where "drop (unat (ref_offset r)) (read_meta dec (drop (unat off) tbl)) = body @ tail"
    by (metis append_take_drop_id)
  moreover have "rootInodeRef sb = metaRef_encode r off"
    using assms(1,3) by (simp add: sb rootInodeRefOf_def r_def off_def)
  moreover have "unat off < 2 ^ 48"
    unfolding off_def BlockByteOffset_def offset_sum_eq
    using len concat_take_length [of "blockIdx r" "map block_bytes (mw_blocks (pl_inodeMeta pl))"]
    by (simp add: take_map unat_of_nat_less)
  ultimately show ?thesis
    using encodeInode_read [OF assms(5) pos, of tail] assms(8) table metaRef_encode_parts [of off r]
    by (simp add: inode_at_def sb tbl_def)
qed

text \<open>
  The finished image: its superblock decodes, its length is a multiple of the alignment with
  less than one alignment unit beyond \<^verbatim>\<open>bytes_used\<close>, the root reference leads to the root
  directory's inode, and every file's data is where its inode says.
\<close>

lemma Writer_Close_image:
  assumes C: "Writer_Close wr it seek sbw w = (w', Inr img)" and inv: "writer_inv dec w"
    and c: "w_compressor w = comp" and len: "length img < 2 ^ 48"
  shows "\<exists>sb root mtime. superblock_decode img = Some sb \<and>
      length img mod padAlignment = 0 \<and> unat (bytesUsed sb) \<le> length img \<and>
      length img < unat (bytesUsed sb) + padAlignment \<and>
      w_entries w' root_path = Some root \<and> e_kind root = kindDir \<and>
      entryMtime (w_cfg w) root = Inr mtime \<and>
      inode_at dec img sb (rootInodeRef sb) = inode_view root mtime \<and>
      (\<forall>p a b. abs_tree dec w p = Some (a, NFile b) \<longrightarrow>
         (\<exists>e. w_entries w' p = Some e \<and> e_kind e = kindFile \<and> e_attrs e = a \<and> file_data dec img e = b))"
proof -
  obtain w1 pl out sb where F: "flushCurFile wr w = (w1, None)"
    and P: "close_plan it (w1\<lparr> w_closed := True \<rparr>) = Inr pl"
    and E: "emit_tables wr it (w1\<lparr> w_closed := True, w_entries := pl_entries pl, w_ids := pl_ids pl \<rparr>) pl = Inr (out, sb)"
    and img: "img = superblock_encode sb @ drop superblockSize out"
    and w': "w_entries w' = pl_entries pl"
    using C by (auto simp: Writer_Close_def Let_def split: if_splits prod.splits option.splits sum.splits)
  have w1: "writer_inv dec w1" "abs_tree dec w1 = abs_tree dec w" "w_curFile w1 = None" "w_cfg w1 = w_cfg w"
    using flushCurFile_ok [OF F inv c] by blast+
  have comp1: "w_compressor (w1\<lparr> w_closed := True \<rparr>) = comp"
    using c w1(4) by (simp add: w_compressor_def)
  have cfg1: "w_cfg (w1\<lparr> w_closed := True \<rparr>) = w_cfg w" using w1(4) by simp
  have noroot: "w_entries (w1\<lparr> w_closed := True \<rparr>) root_path = None"
  proof (rule ccontr)
    assume "w_entries (w1\<lparr> w_closed := True \<rparr>) root_path \<noteq> None"
    then have "validatePath root_path = None" using w1(1) by (auto simp: writer_inv_def entry_ok_def)
    then show False by (simp add: validatePath_def root_path_def)
  qed
  define it_bytes where "it_bytes = concat (map block_bytes (mw_blocks (pl_inodeMeta pl)))"
  define w3 where "w3 = w1\<lparr> w_closed := True, w_entries := pl_entries pl, w_ids := pl_ids pl \<rparr>"
  have w3: "w_out w3 = w_out w1" "w_cfg w3 = w_cfg w" "w_outPos w3 = of_nat (length (w_out w3))"
    using w1 by (simp_all add: w3_def writer_inv_def)
  obtain ids lk pad where out: "out = w_out w1 @ it_bytes @ concat (map block_bytes (mw_blocks (pl_dirMeta pl))) @ ids @ lk @ pad"
    and sb: "inodeTableStart sb = of_nat (length (w_out w1))"
      "directoryTableStart sb = of_nat (length (w_out w1 @ it_bytes))" "rootInodeRef sb = rootInodeRefOf pl"
      "bytesUsed sb = of_nat (length out - length pad)" "sb_blockSize sb = cfg_blockSize (w_cfg w)"
    and pad: "length pad < padAlignment" "length out < 2 ^ 64 \<longrightarrow> length out mod padAlignment = 0"
    using emit_tables_layout [OF E [folded w3_def] w3(3)] unfolding w3(1,2) it_bytes_def by metis
  have hdr: "superblockSize \<le> length (w_out w1)" using w1(1) by (simp add: writer_inv_def)
  have leq: "length img = length out" using hdr by (simp add: img out)
  have dropimg: "drop k img = drop k out" if "superblockSize \<le> k" for k
    using that by (simp add: img)
  have lt: "length out < 2 ^ 64" using len leq by simp
  have table: "inode_table img sb = it_bytes"
  proof -
    have "unat (inodeTableStart sb) = length (w_out w1)"
      "unat (directoryTableStart sb) = length (w_out w1 @ it_bytes)"
      using lt unfolding sb by (intro unat_of_nat_less, simp add: out)+
    then show ?thesis using dropimg [OF hdr] by (simp add: inode_table_def out)
  qed
  obtain root mtime body im where root: "pl_entries pl root_path = Some root" "e_kind root = kindDir"
    "inodeRef root = metaWriter_Ref im" "entryMtime (w_cfg w) root = Inr mtime"
    "encodeInode root mtime (cfg_blockSize (w_cfg w)) = Inr body" "stream_ok comp im"
    "meta_run im [MWrite body, MFlush] = Inr (pl_inodeMeta pl)" "fileBlockSizes root = []"
    and core: "same_core (with_root (w1\<lparr> w_closed := True \<rparr>)) (pl_entries pl)"
    using close_plan_root [OF P comp1 noroot] unfolding cfg1 by metis
  have "cfg_blockSize (w_cfg w) \<noteq> 0" using inv by (auto simp: writer_inv_def w_blockSize_def)
  then have "inode_at dec img sb (rootInodeRef sb) = inode_view root mtime"
    using root_inode_read [OF root(1-8) table [unfolded it_bytes_def] sb(3,5)] len leq out
    by (simp add: it_bytes_def)
  moreover have "\<exists>e. w_entries w' p = Some e \<and> e_kind e = kindFile \<and> e_attrs e = a \<and> file_data dec img e = b"
    if isfile: "abs_tree dec w p = Some (a, NFile b)" for p a b
  proof -
    obtain e where e: "w_entries w1 p = Some e" "e_kind e = kindFile" "e_attrs e = a" "file_data dec (w_out w1) e = b"
      using isfile [folded w1(2)] abs_tree_file [OF w1(3)] by metis
    have ok: "sealed_ok dec (w_blockSize w1) (w_out w1) e"
      using w1(1,3) e(1,2) by (simp add: writer_inv_def entry_ok_def file_ok_def)
    have "with_root (w1\<lparr> w_closed := True \<rparr>) p = Some e"
      using e(1) noroot by (auto simp: with_root_def)
    from same_core_Some [OF core this] obtain e' where e': "pl_entries pl p = Some e'" "core e' = core e" .
    have "file_data dec img e' = file_data dec out e"
      using core_fields [OF e'(2)] ok dropimg by (simp add: file_data_def sealed_ok_def)
    also have "\<dots> = b"
      using file_data_more [of e "w_out w1"] ok e(4) by (simp add: out sealed_ok_def)
    finally show ?thesis using e' e core_fields [OF e'(2)] w' by simp
  qed
  moreover have "unat (bytesUsed sb) = length out - length pad"
    using lt unfolding sb by (intro unat_of_nat_less) simp
  moreover have "superblock_decode img = Some sb" by (simp add: img superblock_decode_encode)
  moreover have "length pad \<le> length out" by (simp add: out)
  ultimately show ?thesis
    using root w' pad lt leq by (intro exI [of _ sb] exI [of _ root] exI [of _ mtime]) auto
qed

end

end
