(* ===== verification/Squash_Demo.thy ===== *)
theory Squash_Demo
  imports Squash_Close
begin

text \<open>
  Small concrete images evaluated step by step, the inputs of the witnesses of the squashfs
  properties.
\<close>

text \<open>A small image for the witnesses: one file written in one go, stored uncompressed.\<close>

definition demo_attrs :: "string \<Rightarrow> Attrs" where
  "demo_attrs p = \<lparr> a_Path = p, a_Mode = 0x1A4, a_UID = 1000, a_GID = 1000, a_Mtime = Some 1700000000 \<rparr>"

definition demo_ops :: "wop list" where
  "demo_ops = [OFile (demo_attrs ''/f''), OWrite ''/f'' ''ab'']"

definition demo_new :: Writer where
  "demo_new =
     \<lparr> w_out = replicate superblockSize (char_of (0 :: nat)),
       w_cfg = \<lparr> cfg_blockSize = DefaultBlockSize, cfg_compressor = Some StoredCompressor, cfg_mtime = None \<rparr>,
       w_closed = False, w_finished = False, w_outPos = of_nat superblockSize, w_entries = Map.empty,
       w_entryOrder = [], w_curFile = None, w_ids = newIDTable \<rparr>"

definition demo_entry :: entry where
  "demo_entry = (mk_entry ''/f'' kindFile (demo_attrs ''/f''))\<lparr> fileBlocksStart := of_nat superblockSize \<rparr>"

definition demo_opened :: Writer where
  "demo_opened = (add_entry demo_new demo_entry)\<lparr> w_curFile := Some \<lparr> fw_path = ''/f'', fw_buf = [] \<rparr> \<rparr>"

definition demo_written :: Writer where
  "demo_written =
     demo_opened\<lparr> w_curFile := Some \<lparr> fw_path = ''/f'', fw_buf = ''ab'' \<rparr>,
                  w_entries := [''/f'' \<mapsto> demo_entry\<lparr> fileSize := 2 \<rparr>] \<rparr>"

lemma demo_NewWriter: "NewWriter no_fail True [WithCompressor (Some StoredCompressor)] = Inr demo_new"
  by (simp add: NewWriter_def apply_option_def demo_new_def)

lemma demo_valid: "validatePath ''/f'' = None"
  by (simp add: validatePath_def HasSuffix_def)

lemma demo_open: "run_op no_fail demo_new (OFile (demo_attrs ''/f'')) = (demo_opened, None)"
  by (simp add: run_op_def CreateFile_def flushCurFile_def demo_opened_def demo_entry_def)
     (simp add: demo_new_def demo_valid demo_attrs_def)

lemma demo_blockSize: "w_blockSize demo_opened = 131072"
  by (simp add: w_blockSize_def demo_opened_def demo_new_def DefaultBlockSize_def)

lemma demo_write: "run_op no_fail demo_opened (OWrite ''/f'' ''ab'') = (demo_written, None)"
proof -
  have cur: "w_curFile demo_opened = Some \<lparr> fw_path = ''/f'', fw_buf = [] \<rparr>" "\<not> w_closed demo_opened"
    by (simp_all add: demo_opened_def demo_new_def)
  have "fileWriter_Write_loop no_fail demo_opened \<lparr> fw_path = ''/f'', fw_buf = [] \<rparr> ''ab'' 0 =
      (demo_opened, \<lparr> fw_path = ''/f'', fw_buf = ''ab'' \<rparr>, 2, None)"
    by (simp add: fileWriter_Write_loop.simps [of _ _ _ "''ab''"] demo_blockSize Let_def
        fileWriter_Write_loop.simps [of _ _ _ "[]"])
  moreover have "w_entries demo_opened ''/f'' = Some demo_entry" "fileSize demo_entry = 0"
    "w_entries demo_opened = [''/f'' \<mapsto> demo_entry]"
    by (simp_all add: demo_opened_def demo_new_def demo_entry_def)
  ultimately show ?thesis
    by (simp add: run_op_def fileWriter_Write_def cur demo_written_def upd_entry_def)
qed

lemma demo_run: "run_ops no_fail demo_new demo_ops = Inr demo_written"
  by (simp add: demo_ops_def demo_open demo_write)

lemma demo_small: "length (w_out demo_written) = 96" "cfg_compressor (w_cfg demo_new) = Some StoredCompressor"
  by (simp_all add: demo_written_def demo_opened_def demo_new_def superblockSize_def)

text \<open>Closing the empty image: only the root directory.\<close>

definition demo_iter :: iterations where
  "demo_iter = \<lparr> it_links = [''/''], it_count = [''/''], it_mtime = [''/''] \<rparr>"

definition demo_root :: entry where
  "demo_root = (synthetic_root None)\<lparr> inodeNumber := 1, parentInode := 1, nlinks := 2 \<rparr>"

definition demo_ids :: idTable where
  "demo_ids = \<lparr> id_index = [0 \<mapsto> 0], id_list = [0] \<rparr>"

definition demo_body :: bytes where
  "demo_body = (case encodeInode demo_root 0 DefaultBlockSize of Inr b \<Rightarrow> b | Inl _ \<Rightarrow> [])"

definition demo_meta :: metaWriter where
  "demo_meta = newMetaWriter StoredCompressor"

definition demo_sealed :: "bytes \<Rightarrow> metaWriter" where
  "demo_sealed b =
     demo_meta\<lparr> mw_blocks := [\<lparr> mb_data = b, mb_uncompressed = True, mb_uncompressedSize = of_nat (length b) \<rparr>] \<rparr>"

definition demo_plan :: plan where
  "demo_plan =
     \<lparr> pl_entries = [''/'' \<mapsto> demo_root\<lparr> inodeRef := metaWriter_Ref demo_meta \<rparr>], pl_ids = demo_ids,
       pl_inodeMeta = demo_sealed demo_body, pl_dirMeta = demo_meta \<rparr>"

lemmas demo_root_defs = demo_root_def synthetic_root_def mk_entry_def

lemma demo_body: "encodeInode demo_root 0 DefaultBlockSize = Inr demo_body" "length demo_body = 32"
  by (simp_all add: demo_body_def encodeInode_def demo_root_defs encodeBasicDir_def)

lemma demo_meta_simps [simp]: "mw_cur demo_meta = []" "mw_blocks demo_meta = []" "mw_comp demo_meta = StoredCompressor"
  by (simp_all add: demo_meta_def newMetaWriter_def)

lemma demo_Write: "length b < 8192 \<Longrightarrow> metaWriter_Write demo_meta b = (demo_meta\<lparr> mw_cur := b \<rparr>, length b, None)"
  using metaWriter_Write_fits [of demo_meta b] by simp

lemma demo_Flush:
  "b \<noteq> [] \<Longrightarrow> metaWriter_Flush (demo_meta\<lparr> mw_cur := b \<rparr>) = (demo_sealed b, None)"
  "metaWriter_Flush demo_meta = (demo_meta, None)"
  by (simp_all add: metaWriter_Flush_def sealCurrent_def demo_sealed_def StoredCompressor_def demo_meta_def newMetaWriter_def)

lemma demo_build: "buildTree (demo_new\<lparr> w_closed := True \<rparr>) = Inr [''/'' \<mapsto> synthetic_root None]"
  by (simp add: buildTree_def demo_new_def root_path_def walk_fuel_def upd_entry_def kids_def
      synthetic_root_def mk_entry_def)

lemma demo_number:
  "computeLinkCounts [''/''] 2 (assignInodeNumbers 2 [''/'' \<mapsto> synthetic_root None]) = [''/'' \<mapsto> demo_root]"
  by (simp add: computeLinkCounts_def assignInodeNumbers_def root_path_def numeral_2_eq_2
      upd_entry_def kids_def demo_root_defs)

lemma demo_intern: "internIDs [] ([''/'' \<mapsto> demo_root], newIDTable) = Inr ([''/'' \<mapsto> demo_root], demo_ids)"
  by (simp add: internIDs_def root_path_def intern_entry_def demo_root_defs idTable_Intern_def
      newIDTable_def maxIDs_def demo_ids_def)

lemma demo_dirs:
  "writeDirs 2 (w_cfg demo_new) ([''/'' \<mapsto> demo_root], demo_meta, demo_meta) ''/'' =
     Inr ([''/'' \<mapsto> demo_root\<lparr> inodeRef := metaWriter_Ref demo_meta \<rparr>], demo_meta\<lparr> mw_cur := demo_body \<rparr>, demo_meta)"
proof -
  have "kids [''/'' \<mapsto> demo_root] ''/'' = []" by (simp add: kids_def demo_root_defs)
  moreover have "writeDirListing demo_meta [] = Inr (demo_meta, metaWriter_Ref demo_meta, 0)"
    by (simp add: writeDirListing_def)
  moreover have "metaWriter_Ref demo_meta = \<lparr> blockIdx = 0, ref_offset = 0 \<rparr>" by (simp add: metaWriter_Ref_def)
  moreover have "entryMtime (w_cfg demo_new) demo_root = Inr 0"
    by (simp add: entryMtime_def demo_new_def demo_root_defs)
  moreover have "cfg_blockSize (w_cfg demo_new) = DefaultBlockSize" by (simp add: demo_new_def)
  moreover have "BlockByteOffset demo_meta 0 = 0" by (simp add: BlockByteOffset_def)
  moreover have "demo_root\<lparr> dirBlockOffset := 0, dirBlockStart := 0, dirListingSize := 0 \<rparr> = demo_root"
    by (simp add: demo_root_defs)
  ultimately show ?thesis
    using demo_body demo_Write [of demo_body] by (simp add: numeral_2_eq_2 upd_entry_def writeOneInode_def)
qed

lemma demo_close_plan: "close_plan demo_iter (demo_new\<lparr> w_closed := True \<rparr>) = Inr demo_plan"
proof -
  have "walk_fuel [] = 2" by (simp add: walk_fuel_def)
  moreover have "w_compressor (demo_new\<lparr> w_closed := True \<rparr>) = StoredCompressor"
    by (simp add: w_compressor_def demo_new_def)
  moreover have "w_entryOrder demo_new = []" "w_ids demo_new = newIDTable" by (simp_all add: demo_new_def)
  moreover have "demo_body \<noteq> []" using demo_body(2) by auto
  ultimately show ?thesis
    using demo_build demo_number demo_intern demo_dirs demo_Flush
    by (simp add: close_plan_def demo_iter_def root_path_def try_flush_def demo_plan_def demo_meta_def [symmetric])
qed

lemma demo_emit:
  "\<exists>out sb. emit_tables no_fail demo_iter
     (demo_new\<lparr> w_closed := True, w_entries := pl_entries demo_plan, w_ids := pl_ids demo_plan \<rparr>) demo_plan =
     Inr (out, sb) \<and> length out = 4096"
proof -
  have "w_compressor (demo_new\<lparr> w_closed := True, w_entries := es, w_ids := t \<rparr>) = StoredCompressor" for es t
    by (simp add: w_compressor_def demo_new_def)
  moreover have "w_outPos demo_new = 96" "length (w_out demo_new) = 96"
    by (simp_all add: demo_new_def superblockSize_def)
  moreover have "PutUint32 0 \<noteq> []" by (metis length_PutUint(2) list.size(3) zero_neq_numeral)
  then have "metaWriter_Flush (demo_meta\<lparr> mw_cur := PutUint32 0 \<rparr>) = (demo_sealed (PutUint32 0), None)"
    by (rule demo_Flush)
  moreover have "metaWriter_Write demo_meta (PutUint32 0) = (demo_meta\<lparr> mw_cur := PutUint32 0 \<rparr>, 4, None)"
    by (simp add: demo_Write)
  ultimately show ?thesis
    using demo_body(2)
    by (simp add: demo_plan_def emit_tables_def demo_meta_def [symmetric] try_out_def metaWriter_EmitTo_def
        MetadataBlockSize_def try_ids_def idTable_WriteData_def demo_ids_def BlockByteOffset_def
        idTable_WriteLookup_def pad_image_def padAlignment_def demo_sealed_def)
qed

lemma demo_idle: "w_curFile demo_new = None" "\<not> w_closed demo_new"
  by (simp_all add: demo_new_def)

lemma demo_close:
  "\<exists>w' img. Writer_Close no_fail demo_iter True True demo_new = (w', Inr img) \<and> length img = 4096"
proof -
  obtain out sb where "emit_tables no_fail demo_iter
     (demo_new\<lparr> w_closed := True, w_entries := pl_entries demo_plan, w_ids := pl_ids demo_plan \<rparr>) demo_plan =
     Inr (out, sb)" "length out = 4096"
    using demo_emit by blast
  then show ?thesis
    using demo_close_plan demo_idle
    by (simp add: Writer_Close_def flushCurFile_def Let_def superblockSize_def)
qed

end
