(* ===== verification/Squash_Props.thy ===== *)
theory Squash_Props
  imports Squash_Demo
begin

text \<open>
  The properties of the squashfs writer, stated over its definitions: the file tree a client
  builds is the one the abstract specification gives, and what is written can be read back
  from the produced bytes at every level (metadata records, ids, inodes, directory listings,
  the finished image).
\<close>

lemma stored_restores:
  "Compress StoredCompressor [] src = (out, None) \<Longrightarrow> length out < length src \<Longrightarrow> id out = src"
  by (simp add: StoredCompressor_def)

text \<open>
  C1.  A new writer driven by any sequence of successful operations represents exactly the
  abstract file tree obtained by applying the operations in order: every file's data blocks
  decode to the bytes written to it, nothing else changes, and the writer's invariant holds.
  The compressor is any whose shorter outputs decompress to their source.
\<close>

theorem writer_refines_tree:
  assumes codec: "\<And>src out. Compress k [] src = (out, None) \<Longrightarrow> length out < length src \<Longrightarrow> dec out = src"
    and "NewWriter wr seek opts = Inr w" and "cfg_compressor (w_cfg w) = Some k"
    and "run_ops wr w ops = Inr w'" and "length (w_out w') < 2 ^ 64"
  shows "abs_tree dec w' = fold spec_op ops Map.empty \<and> writer_inv dec w'"
proof -
  have "squash_codec k dec" using codec by unfold_locales
  moreover have "w_compressor w = k" using assms(3) by (simp add: w_compressor_def)
  ultimately show ?thesis
    using NewWriter_inv [OF assms(2), of dec] squash_codec.run_ops_refines [of k dec wr w ops w'] assms(4,5)
    by simp
qed

theorem writer_refines_tree_witness:
  "NewWriter no_fail True [WithCompressor (Some StoredCompressor)] = Inr demo_new \<and>
   run_ops no_fail demo_new demo_ops = Inr demo_written \<and>
   abs_tree id demo_written ''/f'' = Some (demo_attrs ''/f'', NFile ''ab'')"
  using writer_refines_tree [of StoredCompressor id no_fail True _ demo_new demo_ops demo_written]
    demo_NewWriter demo_run demo_small
  by (simp add: StoredCompressor_def demo_ops_def spec_op_def demo_attrs_def)



text \<open>
  C3.  A record written to a metadata stream at a captured reference is read back from the
  emitted bytes at the reference's on-disk position, whatever is written after it and however
  the blocks were compressed.
\<close>

theorem metadata_record_roundtrip:
  assumes codec: "\<And>src out. Compress k [] src = (out, None) \<Longrightarrow> length out < length src \<Longrightarrow> dec out = src"
    and "meta_run (newMetaWriter k) before = Inr m0"
    and "meta_run m0 (MWrite p # after @ [MFlush]) = Inr m"
    and "metaWriter_EmitTo m wr [] = (img, n, None)" and "length img < 2 ^ 64"
  shows "take (length p) (drop (unat (ref_offset (metaWriter_Ref m0)))
           (read_meta dec (drop (unat (BlockByteOffset m (blockIdx (metaWriter_Ref m0)))) img))) = p"
proof -
  have "squash_codec k dec" using codec by unfold_locales
  moreover have "meta_inv m0" "mw_comp m0 = k"
    using meta_run_inv [OF assms(2)] by (simp_all add: newMetaWriter_def meta_inv_def)
  ultimately show ?thesis using squash_codec.record_read_back [OF _ _ _ assms(3-5)] by blast
qed

theorem metadata_record_roundtrip_witness:
  "\<exists>m img n. meta_run demo_meta (MWrite ''abc'' # [MWrite ''de''] @ [MFlush]) = Inr m \<and>
     metaWriter_EmitTo m no_fail [] = (img, n, None) \<and>
     take 3 (drop (unat (ref_offset (metaWriter_Ref demo_meta)))
       (read_meta id (drop (unat (BlockByteOffset m (blockIdx (metaWriter_Ref demo_meta)))) img))) = ''abc''"
proof -
  define img where "img = block_bytes \<lparr> mb_data = ''abcde'', mb_uncompressed = True, mb_uncompressedSize = 5 \<rparr>"
  have run: "meta_run demo_meta (MWrite ''abc'' # [MWrite ''de''] @ [MFlush]) = Inr (demo_sealed ''abcde'')"
    by (simp add: metaWriter_Write_fits demo_Flush)
  have emit: "metaWriter_EmitTo (demo_sealed ''abcde'') no_fail [] = (img, 7, None)"
    by (simp add: metaWriter_EmitTo_def demo_sealed_def MetadataBlockSize_def img_def block_bytes_def)
  have "length img < 2 ^ 64" by (simp add: img_def block_bytes_def)
  moreover have "meta_run (newMetaWriter StoredCompressor) [] = Inr demo_meta" by (simp add: demo_meta_def)
  ultimately have "take (length ''abc'') (drop (unat (ref_offset (metaWriter_Ref demo_meta)))
      (read_meta id (drop (unat (BlockByteOffset (demo_sealed ''abcde'') (blockIdx (metaWriter_Ref demo_meta)))) img))) = ''abc''"
    using metadata_record_roundtrip [of StoredCompressor id "[]" demo_meta "''abc''" "[MWrite ''de'']"
        "demo_sealed ''abcde''" no_fail img 7] stored_restores run emit by blast
  moreover have "length ''abc'' = 3" by simp
  ultimately show ?thesis using run emit by metis
qed

text \<open>
  C4.  Every inode the writer encodes is read back to the entry's fields: type tag,
  permissions, id indices, time and number, and the body of its kind, a regular file's list of
  block sizes having exactly the number of blocks its size needs.
\<close>

theorem inode_roundtrip:
  assumes "encodeInode e mtime blockSize = Inr body" and "blockSize \<noteq> 0"
    and "length (fileBlockSizes e) < 2 ^ 64"
  shows "read_inode blockSize (body @ rest) = inode_view e mtime \<and> inode_view e mtime \<noteq> None"
  using encodeInode_read [OF assms] assms(1)
  by (cases "e_kind e") (simp_all add: inode_view_def encodeInode_def)

theorem inode_roundtrip_witness:
  "\<exists>body. encodeInode demo_root 0 DefaultBlockSize = Inr body \<and>
     read_inode DefaultBlockSize (body @ ''xyz'') = inode_view demo_root 0 \<and> inode_view demo_root 0 \<noteq> None"
proof -
  have "length (fileBlockSizes demo_root) < 2 ^ 64" by (simp add: demo_root_defs)
  moreover have "DefaultBlockSize \<noteq> 0" by (simp add: DefaultBlockSize_def)
  ultimately show ?thesis
    using inode_roundtrip [OF demo_body(1), of "''xyz''"] demo_body(1) by blast
qed

text \<open>
  C5.  A directory listing appended to the directory table decodes to the directory's entries
  sorted by name, and the reported size is the number of bytes the listing takes; every name
  has between 1 and 256 bytes.
\<close>

theorem directory_listing_roundtrip:
  assumes codec: "\<And>src out. Compress k [] src = (out, None) \<Longrightarrow> length out < length src \<Longrightarrow> dec out = src"
    and "writeDirListing m entries = Inr (m', start, sz)" and "meta_inv m" and "mw_comp m = k"
  shows "\<exists>listing. meta_stream dec m' = meta_stream dec m @ listing \<and>
      sz = of_nat (length listing) \<and> start = metaWriter_Ref m \<and>
      read_dir listing = sort_key de_name entries \<and>
      list_all name_ok entries"
proof -
  have c: "squash_codec k dec" using codec by unfold_locales
  obtain lb where g: "write_groups m (sort_key de_name entries) 0 = Inr (m', lb)" "start = metaWriter_Ref m" "sz = lb"
    using assms(2) by (auto simp: writeDirListing_def split: sum.splits)
  note w = squash_codec.write_groups_adv [OF c g(1) assms(3,4)]
  then have "\<forall>e \<in> set (sort_key de_name entries). name_ok e" by blast
  then show ?thesis
    using w g read_dir_listing squash_codec.meta_adv_stream [OF c]
    by (intro exI [of _ "listing_bytes (sort_key de_name entries)"]) (auto simp: list_all_iff)
qed

definition demo_dirents :: "dirEntry list" where
  "demo_dirents =
     [\<lparr> de_name = ''b'', childInode = 3, inodeBlockByte = 0, inodeBlockOff = 32, basicType = InodeBasicFile \<rparr>,
      \<lparr> de_name = ''a'', childInode = 2, inodeBlockByte = 0, inodeBlockOff = 0, basicType = InodeBasicFile \<rparr>]"

lemma demo_dirents_sorted:
  "sort_key de_name demo_dirents = rev demo_dirents" "map de_name (rev demo_dirents) = [''a'', ''b'']"
  by (simp_all add: demo_dirents_def)

lemma dir_bytes_length [simp]:
  "length (dir_header_bytes n b) = 12" "length (dir_entry_bytes b e) = 8 + length (de_name e)"
  by (simp_all add: dir_header_bytes_def dir_entry_bytes_def)

lemma demo_listing: "\<exists>m' sz. writeDirListing demo_meta demo_dirents = Inr (m', metaWriter_Ref demo_meta, sz)"
  unfolding writeDirListing_def demo_dirents_sorted
  by (simp add: demo_dirents_def maxDirEntriesPerHeader_def metaWriter_Write_fits)

theorem directory_listing_roundtrip_witness:
  "\<exists>m' start sz listing. writeDirListing demo_meta demo_dirents = Inr (m', start, sz) \<and>
     meta_stream id m' = listing \<and> sz = of_nat (length listing) \<and>
     map de_name (read_dir listing) = [''a'', ''b'']"
proof -
  obtain m' sz where W: "writeDirListing demo_meta demo_dirents = Inr (m', metaWriter_Ref demo_meta, sz)"
    using demo_listing by blast
  have "meta_stream id demo_meta = []" "meta_inv demo_meta" by (simp_all add: meta_stream_def meta_inv_def)
  then show ?thesis
    using directory_listing_roundtrip [of StoredCompressor id, OF stored_restores W] W demo_dirents_sorted by auto
qed

text \<open>
  C6.  The id table: interning any sequence of user and group ids keeps the list free of
  duplicates within 65535 entries, and each returned 16-bit index names its id.
\<close>

theorem id_interning:
  assumes "id_inv t" and "idTable_Intern t i = (t', r)"
  shows "id_inv t' \<and> (\<exists>ys. id_list t' = id_list t @ ys) \<and>
         (case r of
            Inr idx \<Rightarrow> unat idx < length (id_list t') \<and> id_list t' ! unat idx = i
          | Inl e \<Rightarrow> i \<notin> set (id_list t) \<and> length (id_list t) = maxIDs \<and> t' = t)"
proof (cases r)
  case (Inr idx)
  then show ?thesis using idTable_Intern_inv [OF assms] by auto
next
  case (Inl e)
  then have n: "id_index t i = None" "length (id_list t) \<ge> maxIDs" "t' = t"
    using assms(2) by (auto simp: idTable_Intern_def Let_def split: option.splits if_splits)
  then show ?thesis
    using Inl assms(1) id_inv_Some [OF assms(1), of i] by (auto simp: id_inv_def)
qed

theorem id_interning_witness:
  "id_inv newIDTable \<and> snd (idTable_Intern newIDTable 1000) = Inr 0 \<and>
   id_list (fst (idTable_Intern newIDTable 1000)) ! 0 = 1000"
  using id_interning [of newIDTable 1000, OF id_inv_new]
  by (cases "idTable_Intern newIDTable 1000")
     (auto simp: idTable_Intern_def newIDTable_def maxIDs_def id_inv_new [unfolded newIDTable_def])

text \<open>
  C7.  The id table on disk: for every interned id, the lookup list gives the file offset of
  the metadata block that holds it, and that block decodes to the id at its position.
\<close>

theorem id_table_roundtrip:
  assumes codec: "\<And>src out. Compress k [] src = (out, None) \<Longrightarrow> length out < length src \<Longrightarrow> dec out = src"
    and "idTable_WriteData t wr out k (of_nat (length out)) = (out', Inr (offs, n))"
    and "length out' < 2 ^ 64" and "i < length (id_list t)"
  shows "i div idsPerMetaBlock < length offs \<and>
         GetUint32 (drop (4 * (i mod idsPerMetaBlock))
           (read_block dec (drop (unat (offs ! (i div idsPerMetaBlock))) out'))) = id_list t ! i"
proof -
  have "squash_codec k dec" using codec by unfold_locales
  from squash_codec.ids_read_back [OF this assms(2-4)] show ?thesis .
qed

theorem id_table_roundtrip_witness:
  "\<exists>out' offs n. idTable_WriteData demo_ids no_fail ''hdr'' StoredCompressor 3 = (out', Inr (offs, n)) \<and>
     GetUint32 (read_block id (drop (unat (offs ! 0)) out')) = 0"
proof -
  have "PutUint32 0 \<noteq> []" by (metis length_PutUint(2) list.size(3) zero_neq_numeral)
  then have f: "metaWriter_Flush (demo_meta\<lparr> mw_cur := PutUint32 0 \<rparr>) = (demo_sealed (PutUint32 0), None)"
    by (rule demo_Flush)
  have w: "metaWriter_Write demo_meta (PutUint32 0) = (demo_meta\<lparr> mw_cur := PutUint32 0 \<rparr>, 4, None)"
    by (simp add: demo_Write)
  obtain out' offs n where W: "idTable_WriteData demo_ids no_fail ''hdr'' StoredCompressor 3 = (out', Inr (offs, n))"
      "length out' = 9"
    using f w by (simp add: idTable_WriteData_def demo_ids_def demo_meta_def [symmetric] metaWriter_EmitTo_def
        demo_sealed_def MetadataBlockSize_def)
  have "idTable_WriteData demo_ids no_fail ''hdr'' StoredCompressor (of_nat (length ''hdr'')) = (out', Inr (offs, n))"
    using W(1) by simp
  from id_table_roundtrip [of StoredCompressor id, OF stored_restores this, where i = 0] W show ?thesis by (auto simp: demo_ids_def)
qed

text \<open>
  C8.  A creation call that is rejected (closed writer, invalid or duplicate path, empty link
  target, missing or non-file hard-link target) after pending file data was written leaves the
  file tree as it was.
\<close>

theorem create_rejected_keeps_tree:
  assumes codec: "\<And>src out. Compress k [] src = (out, None) \<Longrightarrow> length out < length src \<Longrightarrow> dec out = src"
    and "run_op wr w op = (w', Some e)" and "flushCurFile wr w = (w1, None)" and "\<forall>p d. op \<noteq> OWrite p d"
    and "writer_inv dec w" and "w_compressor w = k"
  shows "writer_inv dec w' \<and> abs_tree dec w' = abs_tree dec w"
proof -
  have "squash_codec k dec" using codec by unfold_locales
  from squash_codec.create_rejected_tree [OF this assms(2-6)] show ?thesis .
qed

theorem create_rejected_keeps_tree_witness:
  "run_op no_fail demo_new (OHardlink ''/l'' ''/missing'') = (demo_new, Some ErrHardlinkTarget) \<and>
   abs_tree id (fst (run_op no_fail demo_new (OHardlink ''/l'' ''/missing''))) = abs_tree id demo_new"
proof -
  have r: "run_op no_fail demo_new (OHardlink ''/l'' ''/missing'') = (demo_new, Some ErrHardlinkTarget)"
    by (simp add: run_op_def CreateHardlink_def flushCurFile_def demo_idle)
       (simp add: demo_new_def validatePath_def HasSuffix_def)
  have f: "flushCurFile no_fail demo_new = (demo_new, None)" by (simp add: flushCurFile_def demo_idle)
  have inv: "writer_inv id demo_new" using NewWriter_inv [OF demo_NewWriter] by blast
  have c: "w_compressor demo_new = StoredCompressor" by (simp add: w_compressor_def demo_new_def)
  show ?thesis using create_rejected_keeps_tree [of StoredCompressor id, OF stored_restores r f _ inv c] r by simp
qed

text \<open>
  C9.  A path is accepted exactly when it is a slash followed by one or more components that are
  non-empty, contain no slash and are neither dot nor dot-dot; such a path is its own cleaned
  form.
\<close>

theorem validatePath_canonical:
  "(validatePath p = None) =
     (\<exists>cs. cs \<noteq> [] \<and> list_all good_comp cs \<and> p = slash # join slash cs \<and> Clean p = p)"
  unfolding validatePath_iff list_all_iff using Clean_canonical by auto

end
