(* ===== verification/Compiler_Args.thy ===== *)
theory Compiler_Args
  imports Go_Path "HOL-Library.AList" "HOL-Library.List_Lexorder" "HOL-Library.Char_ord"
begin

text \<open>
  The argument grammars and parsers of \<^verbatim>\<open>src/internal/compiler\<close>: \<^verbatim>\<open>grammar.go\<close>,
  \<^verbatim>\<open>grammar_msvc.go\<close>, \<^verbatim>\<open>parser.go\<close>, \<^verbatim>\<open>parser_msvc.go\<close>, the \<^verbatim>\<open>Invocation\<close> record of
  \<^verbatim>\<open>invocation.go\<close> and the enumerations it uses.  A loop over \<^verbatim>\<open>args\<close> by index is a recursion
  over the remaining arguments; a Go map with string keys is an association list with distinct
  keys, whose order no definition depends on.  Reading a response file is a parameter: the
  content of the file, or None when it cannot be read.
\<close>

named_theorems compiler_args

section \<open>Enumerations and the flag tables\<close>

datatype InvocationMode =
  UnknownMode | CompileMode | PreprocessMode | AssembleMode | LinkMode | DepOnlyMode

datatype Family = UnknownFamily | GNUFamily | MSVCFamily

datatype ValueMode = NoValue | JoinedValue | SeparateValue | JoinedOrSeparate

datatype Category =
    CatUnknown | CatMode | CatOutput | CatInclude | CatSystemInclude | CatDefine | CatUndefine
  | CatLibrary | CatLibraryDir | CatStandard | CatOptim | CatDebug | CatWarning | CatFeature
  | CatMachine | CatLanguage | CatPassthrough

record FlagSpec =
  fs_Name :: string
  fs_Value :: ValueMode
  fs_Category :: Category

definition flag :: "string \<Rightarrow> ValueMode \<Rightarrow> Category \<Rightarrow> FlagSpec" where
  "flag n v c = \<lparr> fs_Name = n, fs_Value = v, fs_Category = c \<rparr>"

definition gnuFlags :: "FlagSpec list" where
  "gnuFlags =
    [flag ''-c'' NoValue CatMode, flag ''-E'' NoValue CatMode, flag ''-S'' NoValue CatMode,
     flag ''-M'' NoValue CatMode, flag ''-MM'' NoValue CatMode,
     flag ''-o'' SeparateValue CatOutput,
     flag ''-I'' JoinedOrSeparate CatInclude,
     flag ''-isystem'' SeparateValue CatSystemInclude, flag ''-iquote'' SeparateValue CatSystemInclude,
     flag ''-D'' JoinedOrSeparate CatDefine, flag ''-U'' JoinedOrSeparate CatUndefine,
     flag ''-l'' JoinedOrSeparate CatLibrary, flag ''-L'' JoinedOrSeparate CatLibraryDir,
     flag ''-std='' JoinedValue CatStandard, flag ''-x'' SeparateValue CatLanguage,
     flag ''-O'' JoinedValue CatOptim, flag ''-g'' JoinedValue CatDebug,
     flag ''-W'' JoinedValue CatWarning, flag ''-f'' JoinedValue CatFeature,
     flag ''-m'' JoinedValue CatMachine,
     flag ''-Wl,'' JoinedValue CatPassthrough, flag ''-Wa,'' JoinedValue CatPassthrough,
     flag ''-Wp,'' JoinedValue CatPassthrough,
     flag ''-Xlinker'' SeparateValue CatPassthrough, flag ''-Xassembler'' SeparateValue CatPassthrough,
     flag ''-Xpreprocessor'' SeparateValue CatPassthrough,
     flag ''-include'' SeparateValue CatPassthrough,
     flag ''-MD'' NoValue CatPassthrough, flag ''-MMD'' NoValue CatPassthrough,
     flag ''-MF'' SeparateValue CatPassthrough, flag ''-MT'' SeparateValue CatPassthrough,
     flag ''-MQ'' SeparateValue CatPassthrough]"

definition msvcFlags :: "FlagSpec list" where
  "msvcFlags =
    [flag ''/c'' NoValue CatMode, flag ''/E'' NoValue CatMode, flag ''/EP'' NoValue CatMode,
     flag ''/P'' NoValue CatMode,
     flag ''/Fo'' JoinedValue CatOutput, flag ''/Fe'' JoinedValue CatOutput,
     flag ''/I'' JoinedOrSeparate CatInclude, flag ''/external:I'' SeparateValue CatSystemInclude,
     flag ''/D'' JoinedOrSeparate CatDefine, flag ''/U'' JoinedOrSeparate CatUndefine,
     flag ''/std'' JoinedValue CatStandard,
     flag ''/Tc'' JoinedOrSeparate CatLanguage, flag ''/Tp'' JoinedOrSeparate CatLanguage,
     flag ''/O'' JoinedValue CatOptim, flag ''/W'' JoinedValue CatWarning,
     flag ''/Zi'' NoValue CatDebug, flag ''/Z7'' NoValue CatDebug, flag ''/ZI'' NoValue CatDebug,
     flag ''/MDd'' NoValue CatPassthrough, flag ''/MTd'' NoValue CatPassthrough,
     flag ''/MD'' NoValue CatPassthrough, flag ''/MT'' NoValue CatPassthrough,
     flag ''/EH'' JoinedValue CatPassthrough,
     flag ''/nologo'' NoValue CatPassthrough, flag ''/showIncludes'' NoValue CatPassthrough,
     flag ''/Fd'' JoinedValue CatPassthrough, flag ''/Fa'' JoinedValue CatPassthrough,
     flag ''/link'' NoValue CatPassthrough]"

text \<open>The tables sorted by name length, longest first, keeping the order of equal lengths.\<close>

definition by_length :: "FlagSpec list \<Rightarrow> FlagSpec list" where
  "by_length = sort_key (\<lambda>s. - int (length (fs_Name s)))"

definition gnuFlagsSorted :: "FlagSpec list" where "gnuFlagsSorted = by_length gnuFlags"

definition msvcFlagsSorted :: "FlagSpec list" where "msvcFlagsSorted = by_length msvcFlags"

section \<open>Invocations\<close>

record Invocation =
  Mode :: InvocationMode
  Inputs :: "string list"
  Output :: string
  Includes :: "string list"
  SystemIncludes :: "string list"
  Defines :: "(string \<times> string) list"
  Undefines :: "string list"
  Libraries :: "string list"
  LibraryDirs :: "string list"
  Std :: string
  Optim :: string
  Debug :: string
  Warnings :: "string list"
  Features :: "string list"
  Machine :: "string list"
  Language :: string
  Passthrough :: "string list"
  Unknown :: "string list"
  RawArgs :: "string list"
  Cwd :: string
  PreprocessedDigest :: "bytes option"
  ManifestDigest :: "bytes option"

definition NewInvocation :: Invocation where
  "NewInvocation =
     \<lparr> Mode = UnknownMode, Inputs = [], Output = [], Includes = [], SystemIncludes = [], Defines = [],
       Undefines = [], Libraries = [], LibraryDirs = [], Std = [], Optim = [], Debug = [], Warnings = [],
       Features = [], Machine = [], Language = [], Passthrough = [], Unknown = [], RawArgs = [], Cwd = [],
       PreprocessedDigest = None, ManifestDigest = None \<rparr>"

section \<open>Matching one flag\<close>

fun match_gnu_specs :: "FlagSpec list \<Rightarrow> string \<Rightarrow> string list \<Rightarrow> (FlagSpec \<times> string \<times> nat) option" where
  "match_gnu_specs [] arg rest = None"
| "match_gnu_specs (spec # specs) arg rest =
     (case fs_Value spec of
        NoValue \<Rightarrow>
          if arg = fs_Name spec then Some (spec, [], 1) else match_gnu_specs specs arg rest
      | SeparateValue \<Rightarrow>
          if arg = fs_Name spec
          then (case rest of v # _ \<Rightarrow> Some (spec, v, 2) | [] \<Rightarrow> Some (spec, [], 1))
          else match_gnu_specs specs arg rest
      | JoinedValue \<Rightarrow>
          if HasPrefix arg (fs_Name spec) then Some (spec, drop (length (fs_Name spec)) arg, 1)
          else match_gnu_specs specs arg rest
      | JoinedOrSeparate \<Rightarrow>
          if arg = fs_Name spec
          then (case rest of v # _ \<Rightarrow> Some (spec, v, 2) | [] \<Rightarrow> Some (spec, [], 1))
          else if HasPrefix arg (fs_Name spec) then Some (spec, drop (length (fs_Name spec)) arg, 1)
          else match_gnu_specs specs arg rest)"

definition matchGNUFlag :: "string \<Rightarrow> string list \<Rightarrow> (FlagSpec \<times> string \<times> nat) option" where
  "matchGNUFlag arg rest = match_gnu_specs gnuFlagsSorted arg rest"

definition isMSVCFlag :: "string \<Rightarrow> bool" where
  "isMSVCFlag arg = (length arg > 1 \<and> (hd arg = CHR ''/'' \<or> hd arg = CHR ''-''))"

definition canonicalizeMSVC :: "string \<Rightarrow> string" where
  "canonicalizeMSVC arg = (if HasPrefix arg ''-'' then CHR ''/'' # drop 1 arg else arg)"

definition trimMSVCColon :: "string \<Rightarrow> string" where
  "trimMSVCColon s = (if HasPrefix s '':'' then drop 1 s else s)"

fun match_msvc_specs :: "FlagSpec list \<Rightarrow> string \<Rightarrow> string list \<Rightarrow> (FlagSpec \<times> string \<times> nat) option" where
  "match_msvc_specs [] canon rest = None"
| "match_msvc_specs (spec # specs) canon rest =
     (case fs_Value spec of
        NoValue \<Rightarrow>
          if canon = fs_Name spec then Some (spec, [], 1) else match_msvc_specs specs canon rest
      | SeparateValue \<Rightarrow>
          if canon = fs_Name spec
          then (case rest of v # _ \<Rightarrow> Some (spec, v, 2) | [] \<Rightarrow> Some (spec, [], 1))
          else match_msvc_specs specs canon rest
      | JoinedValue \<Rightarrow>
          if HasPrefix canon (fs_Name spec) \<and> canon \<noteq> fs_Name spec
          then Some (spec, trimMSVCColon (drop (length (fs_Name spec)) canon), 1)
          else match_msvc_specs specs canon rest
      | JoinedOrSeparate \<Rightarrow>
          if canon = fs_Name spec
          then (case rest of v # _ \<Rightarrow> Some (spec, v, 2) | [] \<Rightarrow> Some (spec, [], 1))
          else if HasPrefix canon (fs_Name spec)
               then Some (spec, trimMSVCColon (drop (length (fs_Name spec)) canon), 1)
          else match_msvc_specs specs canon rest)"

definition matchMSVCFlag :: "string \<Rightarrow> string list \<Rightarrow> (FlagSpec \<times> string \<times> nat) option" where
  "matchMSVCFlag arg rest = match_msvc_specs msvcFlagsSorted (canonicalizeMSVC arg) rest"

lemma match_gnu_consumed:
  "match_gnu_specs specs arg rest = Some (s, v, n) \<Longrightarrow> s \<in> set specs \<and> 1 \<le> n \<and> n \<le> Suc (length rest)"
  by (induction specs arg rest rule: match_gnu_specs.induct)
     (auto split: ValueMode.splits if_splits list.splits)

lemma match_msvc_consumed:
  "match_msvc_specs specs arg rest = Some (s, v, n) \<Longrightarrow> s \<in> set specs \<and> 1 \<le> n \<and> n \<le> Suc (length rest)"
  by (induction specs arg rest rule: match_msvc_specs.induct)
     (auto split: ValueMode.splits if_splits list.splits)

lemma matchGNUFlag_pos [compiler_args]: "matchGNUFlag arg rest = Some (s, v, n) \<Longrightarrow> 0 < n"
  using match_gnu_consumed by (fastforce simp: matchGNUFlag_def)

lemma matchMSVCFlag_pos [compiler_args]: "matchMSVCFlag arg rest = Some (s, v, n) \<Longrightarrow> 0 < n"
  using match_msvc_consumed by (fastforce simp: matchMSVCFlag_def)

section \<open>Applying a flag\<close>

definition apply_mode :: "string \<Rightarrow> Invocation \<Rightarrow> Invocation" where
  "apply_mode name iv =
     (if name = ''-c'' then iv\<lparr> Mode := CompileMode \<rparr>
      else if name = ''-E'' then iv\<lparr> Mode := PreprocessMode \<rparr>
      else if name = ''-S'' then iv\<lparr> Mode := AssembleMode \<rparr>
      else if name = ''-M'' \<or> name = ''-MM'' then iv\<lparr> Mode := DepOnlyMode \<rparr>
      else iv)"

definition applyFlag :: "Invocation \<Rightarrow> FlagSpec \<Rightarrow> string \<Rightarrow> Invocation" where
  "applyFlag iv spec value =
     (case fs_Category spec of
        CatUnknown \<Rightarrow> iv
      | CatMode \<Rightarrow> apply_mode (fs_Name spec) iv
      | CatOutput \<Rightarrow> iv\<lparr> Output := value \<rparr>
      | CatInclude \<Rightarrow> iv\<lparr> Includes := Includes iv @ [value] \<rparr>
      | CatSystemInclude \<Rightarrow> iv\<lparr> SystemIncludes := SystemIncludes iv @ [value] \<rparr>
      | CatDefine \<Rightarrow>
          (case Cut value CHR ''='' of (name, val, _) \<Rightarrow>
             iv\<lparr> Defines := AList.update name val (Defines iv) \<rparr>)
      | CatUndefine \<Rightarrow> iv\<lparr> Undefines := Undefines iv @ [value] \<rparr>
      | CatLibrary \<Rightarrow> iv\<lparr> Libraries := Libraries iv @ [value] \<rparr>
      | CatLibraryDir \<Rightarrow> iv\<lparr> LibraryDirs := LibraryDirs iv @ [value] \<rparr>
      | CatStandard \<Rightarrow> iv\<lparr> Std := value \<rparr>
      | CatOptim \<Rightarrow> iv\<lparr> Optim := value \<rparr>
      | CatDebug \<Rightarrow> iv\<lparr> Debug := value \<rparr>
      | CatWarning \<Rightarrow> iv\<lparr> Warnings := Warnings iv @ [value] \<rparr>
      | CatFeature \<Rightarrow> iv\<lparr> Features := Features iv @ [value] \<rparr>
      | CatMachine \<Rightarrow> iv\<lparr> Machine := Machine iv @ [value] \<rparr>
      | CatLanguage \<Rightarrow> iv\<lparr> Language := value \<rparr>
      | CatPassthrough \<Rightarrow>
          (case fs_Value spec of
             NoValue \<Rightarrow> iv\<lparr> Passthrough := Passthrough iv @ [fs_Name spec] \<rparr>
           | JoinedValue \<Rightarrow> iv\<lparr> Passthrough := Passthrough iv @ [fs_Name spec @ value] \<rparr>
           | SeparateValue \<Rightarrow> iv\<lparr> Passthrough := Passthrough iv @ [fs_Name spec, value] \<rparr>
           | JoinedOrSeparate \<Rightarrow> iv\<lparr> Passthrough := Passthrough iv @ [fs_Name spec, value] \<rparr>))"

definition applyMSVCFlag :: "Invocation \<Rightarrow> FlagSpec \<Rightarrow> string \<Rightarrow> Invocation" where
  "applyMSVCFlag iv spec value =
     (let name = fs_Name spec in
      if name = ''/c'' then iv\<lparr> Mode := CompileMode \<rparr>
      else if name = ''/E'' \<or> name = ''/EP'' \<or> name = ''/P'' then iv\<lparr> Mode := PreprocessMode \<rparr>
      else if name = ''/Zi'' \<or> name = ''/Z7'' \<or> name = ''/ZI'' then iv\<lparr> Debug := name \<rparr>
      else if name = ''/Tc'' then iv\<lparr> Language := ''c'', Inputs := Inputs iv @ [value] \<rparr>
      else if name = ''/Tp'' then iv\<lparr> Language := ''c++'', Inputs := Inputs iv @ [value] \<rparr>
      else applyFlag iv spec value)"

section \<open>Response files and the parsers\<close>

datatype parse_err = EResponseDepth | EReadResponse string

function expandResponseFiles ::
  "(string \<Rightarrow> string option) \<Rightarrow> string list \<Rightarrow> nat \<Rightarrow> parse_err + string list" where
  "expandResponseFiles rd [] depth = (if depth > 16 then Inl EResponseDepth else Inr [])"
| "expandResponseFiles rd (a # as) depth =
     (if depth > 16 then Inl EResponseDepth
      else if \<not> HasPrefix a ''@'' \<or> length a = 1
      then ebind (expandResponseFiles rd as depth) (\<lambda>out. Inr (a # out))
      else case rd (drop 1 a) of
             None \<Rightarrow> Inl (EReadResponse (drop 1 a))
           | Some data \<Rightarrow>
               ebind (expandResponseFiles rd (Fields data) (Suc depth)) (\<lambda>expanded.
               ebind (expandResponseFiles rd as depth) (\<lambda>out. Inr (expanded @ out))))"
  by pat_completeness auto
termination
  by (relation "measures [\<lambda>(_, _, d). 17 - d, \<lambda>(_, as, _). length as]") auto

definition inferDefaultOutput :: "Invocation \<Rightarrow> string \<Rightarrow> Invocation" where
  "inferDefaultOutput iv objExt =
     (if Mode iv \<noteq> CompileMode \<or> Output iv \<noteq> [] \<or> length (Inputs iv) \<noteq> 1 then iv
      else let inp = hd (Inputs iv) in
           if inp = ''-'' then iv
           else let base = (case LastIndexAny inp [CHR ''/'', CHR 0x5C] of
                              Some i \<Rightarrow> drop (Suc i) inp | None \<Rightarrow> inp);
                    stem = (case LastIndexAny base [CHR ''.''] of
                              Some dot \<Rightarrow> (if dot > 0 then take dot base else base) | None \<Rightarrow> base)
                in if stem = [] then iv else iv\<lparr> Output := stem @ objExt \<rparr>)"

definition default_mode :: "Invocation \<Rightarrow> Invocation" where
  "default_mode iv = (if Mode iv = UnknownMode then iv\<lparr> Mode := LinkMode \<rparr> else iv)"

function parse_gnu_loop :: "Invocation \<Rightarrow> string list \<Rightarrow> Invocation" where
  "parse_gnu_loop iv [] = iv"
| "parse_gnu_loop iv (a # rest) =
     (if a = ''--'' then iv\<lparr> Inputs := Inputs iv @ rest \<rparr>
      else if \<not> HasPrefix a ''-'' \<or> a = ''-'' then parse_gnu_loop (iv\<lparr> Inputs := Inputs iv @ [a] \<rparr>) rest
      else case matchGNUFlag a rest of
             None \<Rightarrow> parse_gnu_loop (iv\<lparr> Unknown := Unknown iv @ [a] \<rparr>) rest
           | Some (spec, value, consumed) \<Rightarrow>
               parse_gnu_loop (applyFlag iv spec value) (drop consumed (a # rest)))"
  by pat_completeness auto
termination
  by (relation "measure (\<lambda>(_, as). length as)") (auto dest: matchGNUFlag_pos)

definition ParseGNU :: "(string \<Rightarrow> string option) \<Rightarrow> string list \<Rightarrow> parse_err + Invocation" where
  "ParseGNU rd args =
     ebind (expandResponseFiles rd args 0) (\<lambda>expanded.
       Inr (inferDefaultOutput (default_mode
              (parse_gnu_loop (NewInvocation\<lparr> RawArgs := expanded \<rparr>) expanded)) ''.o''))"

function parse_msvc_loop :: "Invocation \<Rightarrow> string list \<Rightarrow> Invocation" where
  "parse_msvc_loop iv [] = iv"
| "parse_msvc_loop iv (a # rest) =
     (if \<not> isMSVCFlag a then parse_msvc_loop (iv\<lparr> Inputs := Inputs iv @ [a] \<rparr>) rest
      else case matchMSVCFlag a rest of
             None \<Rightarrow> parse_msvc_loop (iv\<lparr> Unknown := Unknown iv @ [a] \<rparr>) rest
           | Some (spec, value, consumed) \<Rightarrow>
               if fs_Name spec = ''/link'' then iv\<lparr> Passthrough := Passthrough iv @ (a # rest) \<rparr>
               else parse_msvc_loop (applyMSVCFlag iv spec value) (drop consumed (a # rest)))"
  by pat_completeness auto
termination
  by (relation "measure (\<lambda>(_, as). length as)") (auto dest: matchMSVCFlag_pos)

definition ParseMSVC :: "(string \<Rightarrow> string option) \<Rightarrow> string list \<Rightarrow> parse_err + Invocation" where
  "ParseMSVC rd args =
     ebind (expandResponseFiles rd args 0) (\<lambda>expanded.
       Inr (inferDefaultOutput (default_mode
              (parse_msvc_loop (NewInvocation\<lparr> RawArgs := expanded \<rparr>) expanded)) ''.obj''))"

section \<open>Properties of an invocation\<close>

definition ReadsStdin :: "Invocation \<Rightarrow> bool" where
  "ReadsStdin iv = list_ex (\<lambda>i. i = ''-'' \<or> i = ''/dev/stdin'') (Inputs iv)"

definition isProbeInvocation :: "Invocation \<Rightarrow> bool" where
  "isProbeInvocation iv = (Output iv = ''/dev/null'' \<or> list_ex (\<lambda>i. i = ''/dev/null'') (Inputs iv))"

definition side_effect_flag :: "string \<Rightarrow> bool" where
  "side_effect_flag a =
     (a = ''-save-temps'' \<or> HasPrefix a ''-save-temps='' \<or> HasPrefix a ''-fdump-'' \<or>
      a = ''-fcallgraph-info'' \<or> HasPrefix a ''-fcallgraph-info='' \<or>
      a = ''-fprofile-generate'' \<or> HasPrefix a ''-fprofile-generate='' \<or>
      a = ''-fprofile-arcs'' \<or> a = ''-ftest-coverage'' \<or> a = ''--coverage'' \<or>
      a = ''-gsplit-dwarf'' \<or>
      a = ''-fdiagnostics-format=sarif-file'' \<or> a = ''-fdiagnostics-format=json-file'')"

definition HasUncapturedSideEffectFlag :: "string list \<Rightarrow> bool" where
  "HasUncapturedSideEffectFlag args = list_ex side_effect_flag args"

definition isAssembly :: "Invocation \<Rightarrow> bool" where
  "isAssembly iv =
     (Language iv = ''assembler'' \<or> Language iv = ''assembler-with-cpp'' \<or>
      list_ex (\<lambda>i. ToLower (Ext i) = ''.s'' \<or> ToLower (Ext i) = ''.S'') (Inputs iv))"

definition cacheableShape :: "Invocation \<Rightarrow> bool" where
  "cacheableShape iv =
     (Mode iv = CompileMode \<and> length (Inputs iv) = 1 \<and> \<not> ReadsStdin iv \<and>
      \<not> isProbeInvocation iv \<and> \<not> HasUncapturedSideEffectFlag (RawArgs iv))"

definition Cacheable :: "Invocation \<Rightarrow> bool" where
  "Cacheable iv = (cacheableShape iv \<and> \<not> isAssembly iv)"

definition DispatchableUnderCAS :: "Invocation \<Rightarrow> bool" where
  "DispatchableUnderCAS iv = cacheableShape iv"

section \<open>Choosing a compiler\<close>

definition normalizeName :: "string \<Rightarrow> string" where
  "normalizeName argv0 =
     TrimSuffix (ToLower (case LastIndexAny argv0 [CHR ''/'', CHR 0x5C] of
                            Some i \<Rightarrow> drop (Suc i) argv0 | None \<Rightarrow> argv0)) ''.exe''"

record CompilerId =
  c_name :: string
  c_path :: string
  c_family :: Family

definition Detect :: "string \<Rightarrow> CompilerId option" where
  "Detect argv0 =
     (let name = normalizeName argv0 in
      if name \<in> {''clang'', ''clang++'', ''cc'', ''c++'', ''gcc'', ''g++''}
      then Some \<lparr> c_name = name, c_path = argv0, c_family = GNUFamily \<rparr>
      else if name = ''cl'' then Some \<lparr> c_name = name, c_path = argv0, c_family = MSVCFamily \<rparr>
      else None)"

section \<open>The first matching entry is the longest\<close>

definition gnu_match :: "FlagSpec \<Rightarrow> string \<Rightarrow> bool" where
  "gnu_match s arg =
     (case fs_Value s of
        NoValue \<Rightarrow> arg = fs_Name s
      | SeparateValue \<Rightarrow> arg = fs_Name s
      | JoinedValue \<Rightarrow> HasPrefix arg (fs_Name s)
      | JoinedOrSeparate \<Rightarrow> HasPrefix arg (fs_Name s))"

definition msvc_match :: "FlagSpec \<Rightarrow> string \<Rightarrow> bool" where
  "msvc_match s canon =
     (case fs_Value s of
        NoValue \<Rightarrow> canon = fs_Name s
      | SeparateValue \<Rightarrow> canon = fs_Name s
      | JoinedValue \<Rightarrow> HasPrefix canon (fs_Name s) \<and> canon \<noteq> fs_Name s
      | JoinedOrSeparate \<Rightarrow> HasPrefix canon (fs_Name s))"

text \<open>What a matched entry yields, given the arguments that follow.\<close>

definition gnu_yield :: "FlagSpec \<Rightarrow> string \<Rightarrow> string list \<Rightarrow> string \<times> nat" where
  "gnu_yield s arg rest =
     (if arg = fs_Name s \<and> fs_Value s \<in> {SeparateValue, JoinedOrSeparate}
      then (case rest of v # _ \<Rightarrow> (v, 2) | [] \<Rightarrow> ([], 1))
      else (drop (length (fs_Name s)) arg, 1))"

definition msvc_yield :: "FlagSpec \<Rightarrow> string \<Rightarrow> string list \<Rightarrow> string \<times> nat" where
  "msvc_yield s canon rest =
     (if canon = fs_Name s \<and> fs_Value s \<in> {SeparateValue, JoinedOrSeparate}
      then (case rest of v # _ \<Rightarrow> (v, 2) | [] \<Rightarrow> ([], 1))
      else (trimMSVCColon (drop (length (fs_Name s)) canon), 1))"

lemma match_gnu_specs_find:
  "match_gnu_specs specs arg rest =
     map_option (\<lambda>s. (s, gnu_yield s arg rest)) (find (\<lambda>s. gnu_match s arg) specs)"
  by (induction specs)
     (auto simp: gnu_match_def gnu_yield_def split: ValueMode.splits list.splits)

lemma match_msvc_specs_find:
  "match_msvc_specs specs arg rest =
     map_option (\<lambda>s. (s, msvc_yield s arg rest)) (find (\<lambda>s. msvc_match s arg) specs)"
  by (induction specs)
     (auto simp: msvc_match_def msvc_yield_def trimMSVCColon_def split: ValueMode.splits list.splits)

definition gnu_find :: "string \<Rightarrow> FlagSpec option" where
  "gnu_find arg = find (\<lambda>s. gnu_match s arg) gnuFlagsSorted"

definition msvc_find :: "string \<Rightarrow> FlagSpec option" where
  "msvc_find arg = find (\<lambda>s. msvc_match s (canonicalizeMSVC arg)) msvcFlagsSorted"

lemma matchGNUFlag_find:
  "matchGNUFlag arg rest = map_option (\<lambda>s. (s, gnu_yield s arg rest)) (gnu_find arg)"
  by (simp add: matchGNUFlag_def match_gnu_specs_find gnu_find_def)

lemma matchMSVCFlag_find:
  "matchMSVCFlag arg rest = map_option (\<lambda>s. (s, msvc_yield s (canonicalizeMSVC arg) rest)) (msvc_find arg)"
  by (simp add: matchMSVCFlag_def match_msvc_specs_find msvc_find_def)

lemma set_by_length [simp]: "set (by_length l) = set l"
  by (simp add: by_length_def)

lemma find_by_length:
  assumes "find P (by_length l) = Some s"
  shows "s \<in> set l \<and> P s \<and> (\<forall>t \<in> set l. P t \<longrightarrow> length (fs_Name t) \<le> length (fs_Name s))"
proof -
  let ?k = "\<lambda>s. - int (length (fs_Name s))"
  obtain i where i: "i < length (by_length l)" "P (by_length l ! i)" "s = by_length l ! i"
    and first: "\<forall>j < i. \<not> P (by_length l ! j)"
    using assms by (auto simp: find_Some_iff)
  have sorted: "sorted (map ?k (by_length l))" by (simp add: by_length_def)
  have "length (fs_Name t) \<le> length (fs_Name s)" if t: "t \<in> set l" "P t" for t
  proof -
    have "t \<in> set (by_length l)" using t by simp
    then obtain j where j: "j < length (by_length l)" "t = by_length l ! j"
      by (metis in_set_conv_nth)
    then have "i \<le> j" using first t by (metis not_le)
    then show ?thesis using sorted_nth_mono [OF sorted, of i j] i j by simp
  qed
  moreover have "s \<in> set l" using i nth_mem set_by_length by metis
  ultimately show ?thesis using i by blast
qed

lemma gnu_find_in: "gnu_find arg = Some s \<Longrightarrow> s \<in> set gnuFlags \<and> gnu_match s arg"
  using find_by_length by (fastforce simp: gnu_find_def gnuFlagsSorted_def)

lemma msvc_find_in: "msvc_find arg = Some s \<Longrightarrow> s \<in> set msvcFlags \<and> msvc_match s (canonicalizeMSVC arg)"
  using find_by_length by (fastforce simp: msvc_find_def msvcFlagsSorted_def)

lemma gnu_match_append: "gnu_match s arg \<Longrightarrow> arg = fs_Name s @ drop (length (fs_Name s)) arg"
  by (auto simp: gnu_match_def HasPrefix_iff split: ValueMode.splits)

lemma gnu_yield_tokens:
  assumes "gnu_match s arg" "gnu_yield s arg rest = (v, n)"
  shows "n = 1 \<and> arg = fs_Name s @ v \<or> n = 2 \<and> arg = fs_Name s \<and> (\<exists>r. rest = v # r)"
  using assms gnu_match_append [OF assms(1)]
  by (auto simp: gnu_yield_def split: if_splits list.splits)

text \<open>The evaluated tables, for computing matches.\<close>

lemma gnuFlagsSorted_eval:
  "gnuFlagsSorted =
    [flag ''-Xpreprocessor'' SeparateValue CatPassthrough,
     flag ''-Xassembler'' SeparateValue CatPassthrough,
     flag ''-isystem'' SeparateValue CatSystemInclude, flag ''-Xlinker'' SeparateValue CatPassthrough,
     flag ''-include'' SeparateValue CatPassthrough,
     flag ''-iquote'' SeparateValue CatSystemInclude,
     flag ''-std='' JoinedValue CatStandard,
     flag ''-Wl,'' JoinedValue CatPassthrough, flag ''-Wa,'' JoinedValue CatPassthrough,
     flag ''-Wp,'' JoinedValue CatPassthrough, flag ''-MMD'' NoValue CatPassthrough,
     flag ''-MM'' NoValue CatMode, flag ''-MD'' NoValue CatPassthrough,
     flag ''-MF'' SeparateValue CatPassthrough, flag ''-MT'' SeparateValue CatPassthrough,
     flag ''-MQ'' SeparateValue CatPassthrough,
     flag ''-c'' NoValue CatMode, flag ''-E'' NoValue CatMode, flag ''-S'' NoValue CatMode,
     flag ''-M'' NoValue CatMode, flag ''-o'' SeparateValue CatOutput,
     flag ''-I'' JoinedOrSeparate CatInclude, flag ''-D'' JoinedOrSeparate CatDefine,
     flag ''-U'' JoinedOrSeparate CatUndefine, flag ''-l'' JoinedOrSeparate CatLibrary,
     flag ''-L'' JoinedOrSeparate CatLibraryDir, flag ''-x'' SeparateValue CatLanguage,
     flag ''-O'' JoinedValue CatOptim, flag ''-g'' JoinedValue CatDebug,
     flag ''-W'' JoinedValue CatWarning, flag ''-f'' JoinedValue CatFeature,
     flag ''-m'' JoinedValue CatMachine]"
  by (simp add: gnuFlagsSorted_def by_length_def gnuFlags_def flag_def)

lemma msvcFlagsSorted_eval:
  "msvcFlagsSorted =
    [flag ''/showIncludes'' NoValue CatPassthrough,
     flag ''/external:I'' SeparateValue CatSystemInclude,
     flag ''/nologo'' NoValue CatPassthrough, flag ''/link'' NoValue CatPassthrough,
     flag ''/std'' JoinedValue CatStandard, flag ''/MDd'' NoValue CatPassthrough,
     flag ''/MTd'' NoValue CatPassthrough,
     flag ''/EP'' NoValue CatMode, flag ''/Fo'' JoinedValue CatOutput, flag ''/Fe'' JoinedValue CatOutput,
     flag ''/Tc'' JoinedOrSeparate CatLanguage, flag ''/Tp'' JoinedOrSeparate CatLanguage,
     flag ''/Zi'' NoValue CatDebug, flag ''/Z7'' NoValue CatDebug, flag ''/ZI'' NoValue CatDebug,
     flag ''/MD'' NoValue CatPassthrough, flag ''/MT'' NoValue CatPassthrough,
     flag ''/EH'' JoinedValue CatPassthrough, flag ''/Fd'' JoinedValue CatPassthrough,
     flag ''/Fa'' JoinedValue CatPassthrough,
     flag ''/c'' NoValue CatMode, flag ''/E'' NoValue CatMode, flag ''/P'' NoValue CatMode,
     flag ''/I'' JoinedOrSeparate CatInclude, flag ''/D'' JoinedOrSeparate CatDefine,
     flag ''/U'' JoinedOrSeparate CatUndefine, flag ''/O'' JoinedValue CatOptim,
     flag ''/W'' JoinedValue CatWarning]"
  by (simp add: msvcFlagsSorted_def by_length_def msvcFlags_def flag_def)

lemmas gnu_eval = gnu_find_def gnuFlagsSorted_eval gnu_match_def flag_def
lemmas msvc_eval = msvc_find_def msvcFlagsSorted_eval msvc_match_def flag_def canonicalizeMSVC_def

section \<open>Response files\<close>

definition at_file :: "string \<Rightarrow> bool" where
  "at_file a = (HasPrefix a ''@'' \<and> length a \<noteq> 1)"

lemma expand_noop:
  "list_all (\<lambda>a. \<not> at_file a) args \<Longrightarrow> d \<le> 16 \<Longrightarrow> expandResponseFiles rd args d = Inr args"
  by (induction args) (auto simp: at_file_def)

lemma expand_result:
  "expandResponseFiles rd args d = Inr out \<Longrightarrow> list_all (\<lambda>a. \<not> at_file a) out"
  by (induction rd args d arbitrary: out rule: expandResponseFiles.induct)
     (auto simp: at_file_def ebind_Inr_conv split: if_splits option.splits)

end
