(* ===== verification/Go_Text.thy ===== *)
theory Go_Text
  imports Go_Prelude
begin

text \<open>
  Further text operations of the Go standard library: \<^verbatim>\<open>strings.ReplaceAll\<close>,
  \<^verbatim>\<open>strings.TrimSpace\<close> on ASCII text, decimal and hexadecimal rendering, with the facts that
  make the renderings unambiguous.
\<close>

function ReplaceAll :: "string \<Rightarrow> string \<Rightarrow> string \<Rightarrow> string" where
  "ReplaceAll [] old new = []"
| "ReplaceAll (c # s) old new =
     (if old \<noteq> [] \<and> HasPrefix (c # s) old then new @ ReplaceAll (drop (length old) (c # s)) old new
      else c # ReplaceAll s old new)"
  by pat_completeness auto
termination
  by (relation "measure (\<lambda>(s, _, _). length s)") auto

definition TrimSpace :: "string \<Rightarrow> string" where
  "TrimSpace s = rev (dropWhile is_space (rev (dropWhile is_space s)))"

definition TrimRight :: "string \<Rightarrow> char list \<Rightarrow> string" where
  "TrimRight s cutset = rev (dropWhile (\<lambda>c. c \<in> set cutset) (rev s))"

lemma ReplaceAll_absent: "\<not> Contains s old \<Longrightarrow> ReplaceAll s old new = s"
  by (induction s old new rule: ReplaceAll.induct) auto

section \<open>Decimal rendering\<close>

definition digit :: "nat \<Rightarrow> char" where
  "digit d = char_of (48 + d)"

fun itoa :: "nat \<Rightarrow> string" where
  "itoa n = (if n < 10 then [digit n] else itoa (n div 10) @ [digit (n mod 10)])"

declare itoa.simps [simp del]

definition digit_val :: "char \<Rightarrow> nat option" where
  "digit_val c = (let n = of_char c :: nat in if 48 \<le> n \<and> n \<le> 57 then Some (n - 48) else None)"

fun atoi_acc :: "nat \<Rightarrow> string \<Rightarrow> nat option" where
  "atoi_acc acc [] = Some acc"
| "atoi_acc acc (c # s) =
     (case digit_val c of None \<Rightarrow> None | Some d \<Rightarrow> atoi_acc (10 * acc + d) s)"

text \<open>The value of a non-empty string of decimal digits.\<close>

definition atoi :: "string \<Rightarrow> nat option" where
  "atoi s = (if s = [] then None else atoi_acc 0 s)"

lemma digit_val_digit: "d < 10 \<Longrightarrow> digit_val (digit d) = Some d"
  by (simp add: digit_val_def digit_def)

lemma atoi_acc_append:
  "atoi_acc acc (s @ t) = (case atoi_acc acc s of None \<Rightarrow> None | Some a \<Rightarrow> atoi_acc a t)"
  by (induction s arbitrary: acc) (auto split: option.splits)

lemma atoi_acc_itoa: "atoi_acc 0 (itoa n) = Some n"
proof (induction n rule: itoa.induct)
  case (1 n)
  then show ?case
    by (subst itoa.simps) (auto simp: atoi_acc_append digit_val_digit)
qed

lemma itoa_not_Nil [simp]: "itoa n \<noteq> []"
  by (subst itoa.simps) simp

lemma atoi_itoa: "atoi (itoa n) = Some n"
  by (simp add: atoi_def atoi_acc_itoa)

lemma itoa_inject [simp]: "itoa m = itoa n \<longleftrightarrow> m = n"
  by (metis atoi_itoa option.inject)

lemma itoa_digits: "c \<in> set (itoa n) \<Longrightarrow> 48 \<le> (of_char c :: nat) \<and> (of_char c :: nat) \<le> 57"
proof (induction n rule: itoa.induct)
  case (1 n)
  have "48 \<le> (of_char (digit d) :: nat) \<and> (of_char (digit d) :: nat) \<le> 57" if "d < 10" for d
    using that by (simp add: digit_def)
  then show ?case
    using 1 by (subst (asm) (2) itoa.simps) (auto split: if_splits)
qed

section \<open>Hexadecimal rendering\<close>

definition hex_digit :: "nat \<Rightarrow> char" where
  "hex_digit d = (if d < 10 then char_of (48 + d) else char_of (87 + d))"

definition hex_val :: "char \<Rightarrow> nat option" where
  "hex_val c =
     (let n = of_char c :: nat in
      if 48 \<le> n \<and> n \<le> 57 then Some (n - 48)
      else if 97 \<le> n \<and> n \<le> 102 then Some (n - 87)
      else if 65 \<le> n \<and> n \<le> 70 then Some (n - 55)
      else None)"

fun EncodeToString :: "bytes \<Rightarrow> string" where
  "EncodeToString [] = []"
| "EncodeToString (b # bs) =
     hex_digit (of_char b div 16) # hex_digit (of_char b mod 16) # EncodeToString bs"

fun DecodeString :: "string \<Rightarrow> bytes option" where
  "DecodeString [] = Some []"
| "DecodeString [c] = None"
| "DecodeString (c # d # s) =
     (case (hex_val c, hex_val d, DecodeString s) of
        (Some h, Some l, Some bs) \<Rightarrow> Some (char_of (16 * h + l) # bs)
      | _ \<Rightarrow> None)"

lemma of_char_lt_256: "(of_char c :: nat) < 256"
  by (metis mod_less_divisor of_char_mod_256 zero_less_numeral)

lemma hex_val_digit: "d < 16 \<Longrightarrow> hex_val (hex_digit d) = Some d"
  by (simp add: hex_val_def hex_digit_def)

lemma DecodeString_EncodeToString: "DecodeString (EncodeToString bs) = Some bs"
proof (induction bs)
  case (Cons b bs)
  have "(of_char b :: nat) < 256" by (rule of_char_lt_256)
  then have "(of_char b :: nat) div 16 < 16" by (simp add: less_mult_imp_div_less)
  moreover have "char_of (16 * ((of_char b :: nat) div 16) + of_char b mod 16) = b"
    by (metis char_of_char mult_div_mod_eq)
  ultimately show ?case using Cons by (simp add: hex_val_digit)
qed simp

lemma EncodeToString_inject [simp]: "EncodeToString a = EncodeToString b \<longleftrightarrow> a = b"
  by (metis DecodeString_EncodeToString option.inject)

lemma length_EncodeToString [simp]: "length (EncodeToString bs) = 2 * length bs"
  by (induction bs) auto

definition hex_char :: "char \<Rightarrow> bool" where
  "hex_char c = (let n = of_char c :: nat in 48 \<le> n \<and> n \<le> 57 \<or> 97 \<le> n \<and> n \<le> 102)"

lemma EncodeToString_hex: "c \<in> set (EncodeToString bs) \<Longrightarrow> hex_char c"
proof (induction bs)
  case (Cons b bs)
  have "(of_char b :: nat) < 256" by (rule of_char_lt_256)
  then have "(of_char b :: nat) div 16 < 16" by (simp add: less_mult_imp_div_less)
  moreover have "hex_char (hex_digit d)" if "d < 16" for d
    using that by (simp add: hex_char_def hex_digit_def)
  ultimately show ?case using Cons by auto
qed simp

section \<open>Signed decimal integers\<close>

text \<open>
  \<^verbatim>\<open>strconv.Itoa\<close> and \<^verbatim>\<open>strconv.Atoi\<close> on 64-bit integers: an optional sign, at least one digit,
  and a range error outside \<open>[-2^63, 2^63)\<close>.
\<close>

definition Itoa :: "int \<Rightarrow> string" where
  "Itoa n = (if n < 0 then CHR ''-'' # itoa (nat (- n)) else itoa (nat n))"

definition in_int64 :: "int \<Rightarrow> bool" where
  "in_int64 n \<longleftrightarrow> - (2 ^ 63) \<le> n \<and> n < 2 ^ 63"

definition Atoi :: "string \<Rightarrow> int option" where
  "Atoi s =
     (let v = (case s of
                 [] \<Rightarrow> None
               | c # t \<Rightarrow> (if c = CHR ''-'' then map_option (\<lambda>n. - int n) (atoi t)
                          else if c = CHR ''+'' then map_option int (atoi t)
                          else map_option int (atoi s)))
      in case v of None \<Rightarrow> None | Some n \<Rightarrow> (if in_int64 n then Some n else None))"

lemma Atoi_Itoa:
  assumes "in_int64 n"
  shows "Atoi (Itoa n) = Some n"
proof (cases "n < 0")
  case True
  then show ?thesis using assms by (simp add: Atoi_def Itoa_def atoi_itoa)
next
  case False
  obtain c t where ct: "itoa (nat n) = c # t" by (cases "itoa (nat n)") simp_all
  then have "c \<in> set (itoa (nat n))" by simp
  then have "48 \<le> (of_char c :: nat)" using itoa_digits by blast
  then have "c \<noteq> CHR ''-''" "c \<noteq> CHR ''+''" by auto
  then show ?thesis
    using assms False ct atoi_itoa [of "nat n"] by (simp add: Atoi_def Itoa_def)
qed

end
