(* ===== verification/Compiler_Rewrite.thy ===== *)
theory Compiler_Rewrite
  imports Compiler_Args Go_Text
begin

text \<open>
  The argument rewriters of \<^verbatim>\<open>rewrite.go\<close> and \<^verbatim>\<open>preprocess.go\<close>: what is stripped, kept and
  relocated when a compile is preprocessed locally, dispatched as preprocessed source or
  dispatched with its source closure.  Paths are Unix paths, on which \<^verbatim>\<open>filepath.ToSlash\<close> is
  the identity.
\<close>

section \<open>Host paths and prefixes\<close>

definition hostPathSubstrings :: "string list" where
  "hostPathSubstrings =
     [''/home/'', ''/Users/'',
      CHR '':'' # CHR 0x5C # ''Users'' @ [CHR 0x5C], CHR '':'' # CHR 0x5C # ''users'' @ [CHR 0x5C]]"

text \<open>The offending argument and substring, if any; None is the nil error.\<close>

fun first_host_substring :: "string \<Rightarrow> string list \<Rightarrow> string option" where
  "first_host_substring a [] = None"
| "first_host_substring a (p # ps) = (if Contains a p then Some p else first_host_substring a ps)"

fun ValidateNoHostPaths :: "string list \<Rightarrow> (string \<times> string) option" where
  "ValidateNoHostPaths [] = None"
| "ValidateNoHostPaths (a # as) =
     (case first_host_substring a hostPathSubstrings of
        Some p \<Rightarrow> Some (p, a)
      | None \<Rightarrow> ValidateNoHostPaths as)"

text \<open>
  A boundary after an occurrence: the end of the string, a slash or an equals sign.  The loop is
  only entered with a non-empty \<^verbatim>\<open>host\<close> (\<^verbatim>\<open>RewritePathPrefix\<close> returns before, otherwise), so the
  occurrence test carries that condition.
\<close>

definition at_boundary :: "string \<Rightarrow> bool" where
  "at_boundary rest = (case rest of [] \<Rightarrow> True | c # _ \<Rightarrow> c = CHR ''/'' \<or> c = CHR ''='')"

function rewrite_loop :: "string \<Rightarrow> string \<Rightarrow> string \<Rightarrow> string" where
  "rewrite_loop [] host vm = []"
| "rewrite_loop (c # s) host vm =
     (if host \<noteq> [] \<and> HasPrefix (c # s) host \<and> at_boundary (drop (length host) (c # s))
      then vm @ rewrite_loop (drop (length host) (c # s)) host vm
      else c # rewrite_loop s host vm)"
  by pat_completeness auto
termination
  by (relation "measure (\<lambda>(s, _, _). length s)") auto

definition rewritePrefix :: "string \<Rightarrow> string \<Rightarrow> string \<Rightarrow> string" where
  "rewritePrefix s host vm = (if \<not> Contains s host then s else rewrite_loop s host vm)"

definition RewritePathPrefix :: "Invocation \<Rightarrow> string \<Rightarrow> string \<Rightarrow> Invocation" where
  "RewritePathPrefix iv hostPrefix vmPrefix =
     (let host = TrimRight hostPrefix ''/'';
          vm = TrimRight vmPrefix ''/'';
          rewrite = (\<lambda>s. rewritePrefix s host vm)
      in if host = [] \<or> vm = [] then iv
         else iv\<lparr> RawArgs := map rewrite (RawArgs iv),
                  Inputs := map rewrite (Inputs iv),
                  Includes := map rewrite (Includes iv),
                  SystemIncludes := map rewrite (SystemIncludes iv),
                  LibraryDirs := map rewrite (LibraryDirs iv),
                  Output := rewrite (Output iv),
                  Defines := map (\<lambda>(k, v). (k, rewrite v)) (Defines iv) \<rparr>)"

definition InjectReproducibilityFlags :: "string list \<Rightarrow> Family \<Rightarrow> string \<Rightarrow> string list" where
  "InjectReproducibilityFlags args family srcRoot =
     (case family of
        MSVCFamily \<Rightarrow> args @ [''/d1trimfile:'' @ srcRoot, ''/PDBSourcePath:'' @ srcRoot]
      | GNUFamily \<Rightarrow> args @ [''-ffile-prefix-map='' @ srcRoot @ ''=.'', ''-Werror=date-time'']
      | UnknownFamily \<Rightarrow> args)"

section \<open>Source-closure dispatch\<close>

fun rewriteOutputFlagGNU :: "string list \<Rightarrow> string \<Rightarrow> string list" where
  "rewriteOutputFlagGNU [] newOut = []"
| "rewriteOutputFlagGNU [a] newOut =
     (if HasPrefix a ''-o'' \<and> a \<noteq> ''-o'' then [''-o'' @ newOut] else [a])"
| "rewriteOutputFlagGNU (a # b # rest) newOut =
     (if a = ''-o'' then ''-o'' # newOut # rewriteOutputFlagGNU rest newOut
      else if HasPrefix a ''-o'' then (''-o'' @ newOut) # rewriteOutputFlagGNU (b # rest) newOut
      else a # rewriteOutputFlagGNU (b # rest) newOut)"

definition RewriteForCAS :: "Invocation \<Rightarrow> string \<Rightarrow> string \<Rightarrow> string \<Rightarrow> Invocation" where
  "RewriteForCAS iv projectRoot srcRoot outRoot =
     (let cp = RewritePathPrefix iv projectRoot srcRoot in
      if Output iv = [] then cp
      else let newOut = outRoot @ ''/'' @ Base (Output iv)
           in cp\<lparr> Output := newOut, RawArgs := rewriteOutputFlagGNU (RawArgs cp) newOut \<rparr>)"

fun split_wp :: "string \<Rightarrow> string list \<Rightarrow> (string \<times> string) option" where
  "split_wp a [] = None"
| "split_wp a (pfx # pfxs) =
     (if HasPrefix a pfx then Some (pfx, drop (length pfx) a) else split_wp a pfxs)"

definition splitWpDepEmission :: "string \<Rightarrow> (string \<times> string) option" where
  "splitWpDepEmission a = split_wp a [''-Wp,-MMD,'', ''-Wp,-MD,'', ''-Wp,-MF,'']"

fun ExtractDepEmissionPaths :: "string list \<Rightarrow> string list" where
  "ExtractDepEmissionPaths [] = []"
| "ExtractDepEmissionPaths (a # rest) =
     (case splitWpDepEmission a of
        Some (_, p) \<Rightarrow> p # ExtractDepEmissionPaths rest
      | None \<Rightarrow>
          (case rest of
             [] \<Rightarrow> []
           | v # rest' \<Rightarrow>
               if a = ''-MF'' then v # ExtractDepEmissionPaths rest'
               else ExtractDepEmissionPaths (v # rest')))"

text \<open>Reading the produced files: \<open>rd\<close> is the file system, None a failed read.\<close>

fun collect_extras ::
  "(string \<Rightarrow> bytes option) \<Rightarrow> string \<Rightarrow> string list \<Rightarrow> (string \<times> bytes) list \<Rightarrow> (string \<times> bytes) list" where
  "collect_extras rd cwd [] extras = extras"
| "collect_extras rd cwd (p # ps) extras =
     (let full = (if \<not> IsAbs p \<and> cwd \<noteq> [] then Join [cwd, p] else p)
      in case rd full of
           None \<Rightarrow> collect_extras rd cwd ps extras
         | Some b \<Rightarrow> collect_extras rd cwd ps (AList.update p b extras))"

definition CollectDepEmissionExtras :: "(string \<Rightarrow> bytes option) \<Rightarrow> Invocation \<Rightarrow> (string \<times> bytes) list" where
  "CollectDepEmissionExtras rd iv = collect_extras rd (Cwd iv) (ExtractDepEmissionPaths (RawArgs iv)) []"

definition rewriteWpDepEmission :: "string \<Rightarrow> string \<Rightarrow> (string \<times> string) option" where
  "rewriteWpDepEmission a outRoot =
     (case splitWpDepEmission a of
        None \<Rightarrow> None
      | Some (prefix, orig) \<Rightarrow> Some (prefix @ Join [outRoot, orig], orig))"

fun RewriteDepEmissionForCAS :: "string list \<Rightarrow> string \<Rightarrow> string list \<times> string list" where
  "RewriteDepEmissionForCAS [] outRoot = ([], [])"
| "RewriteDepEmissionForCAS (a # rest) outRoot =
     (case rewriteWpDepEmission a outRoot of
        Some (rewritten, p) \<Rightarrow>
          (case RewriteDepEmissionForCAS rest outRoot of (out, paths) \<Rightarrow> (rewritten # out, p # paths))
      | None \<Rightarrow>
          (case rest of
             [] \<Rightarrow> ([a], [])
           | v # rest' \<Rightarrow>
               if a = ''-MF'' then
                 (case RewriteDepEmissionForCAS rest' outRoot of (out, paths) \<Rightarrow>
                    (a # Join [outRoot, v] # out, v # paths))
               else if a = ''-MT'' \<or> a = ''-MQ'' then
                 (case RewriteDepEmissionForCAS rest' outRoot of (out, paths) \<Rightarrow> (a # v # out, paths))
               else
                 (case RewriteDepEmissionForCAS (v # rest') outRoot of (out, paths) \<Rightarrow> (a # out, paths))))"

section \<open>Preprocessed dispatch\<close>

definition isWerrorFlag :: "string \<Rightarrow> bool" where
  "isWerrorFlag arg = (arg = ''-Werror'' \<or> HasPrefix arg ''-Werror='')"

definition codegen_category :: "Category \<Rightarrow> bool" where
  "codegen_category c = (c \<in> {CatStandard, CatOptim, CatDebug, CatWarning, CatFeature, CatMachine})"

function gnuKeepForPreprocessed :: "string list \<Rightarrow> string list" where
  "gnuKeepForPreprocessed [] = []"
| "gnuKeepForPreprocessed (a # rest) =
     (if a = ''--'' then []
      else if \<not> HasPrefix a ''-'' \<or> a = ''-'' then gnuKeepForPreprocessed rest
      else case matchGNUFlag a rest of
             None \<Rightarrow> a # gnuKeepForPreprocessed rest
           | Some (spec, _, consumed) \<Rightarrow>
               (if codegen_category (fs_Category spec) \<and>
                   \<not> (fs_Category spec = CatWarning \<and> isWerrorFlag a)
                then take consumed (a # rest) else []) @
               gnuKeepForPreprocessed (drop consumed (a # rest)))"
  by pat_completeness auto
termination
  by (relation "measure length") (auto dest: matchGNUFlag_pos)

definition rewriteGNUForPreprocessed :: "Invocation \<Rightarrow> string \<Rightarrow> string \<Rightarrow> Invocation" where
  "rewriteGNUForPreprocessed iv srcPath lang =
     NewInvocation\<lparr> Mode := CompileMode, Inputs := [srcPath], Output := Output iv, Language := lang,
       RawArgs := [''-x'', lang, ''-c'', srcPath] @
         (if Output iv \<noteq> [] then [''-o'', Output iv] else []) @ gnuKeepForPreprocessed (RawArgs iv),
       Std := Std iv, Optim := Optim iv, Debug := Debug iv, Warnings := Warnings iv,
       Features := Features iv, Machine := Machine iv, Unknown := Unknown iv \<rparr>"

definition cxx_exts :: "string list" where
  "cxx_exts = [''.cpp'', ''.cxx'', ''.cc'', ''.c++'', ''.cp'', ''.hpp'', ''.hxx'']"

fun gnu_input_language :: "string list \<Rightarrow> string" where
  "gnu_input_language [] = ''cpp-output''"
| "gnu_input_language (i # is) =
     (let e = ToLower (Ext i) in
      if e \<in> set cxx_exts then ''c++-cpp-output''
      else if e = ''.s'' \<or> e = ''.S'' then ''assembler''
      else gnu_input_language is)"

definition gnuPreprocessedLanguage :: "string \<Rightarrow> Invocation \<Rightarrow> string" where
  "gnuPreprocessedLanguage compilerName iv =
     (if compilerName = ''clang++'' \<or> compilerName = ''g++'' \<or> compilerName = ''c++'' \<or> Language iv = ''c++''
      then ''c++-cpp-output''
      else if Language iv = ''assembler'' \<or> Language iv = ''assembler-with-cpp'' then ''assembler''
      else gnu_input_language (Inputs iv))"

function msvcKeepForPreprocessed :: "string list \<Rightarrow> string list" where
  "msvcKeepForPreprocessed [] = []"
| "msvcKeepForPreprocessed (a # rest) =
     (if \<not> isMSVCFlag a then msvcKeepForPreprocessed rest
      else case matchMSVCFlag a rest of
             None \<Rightarrow> a # msvcKeepForPreprocessed rest
           | Some (spec, _, consumed) \<Rightarrow>
               if fs_Name spec = ''/link'' then []
               else (if codegen_category (fs_Category spec) \<or>
                        fs_Category spec = CatPassthrough \<and>
                        fs_Name spec \<in> {''/MD'', ''/MDd'', ''/MT'', ''/MTd'', ''/EH''}
                     then take consumed (a # rest) else []) @
                    msvcKeepForPreprocessed (drop consumed (a # rest)))"
  by pat_completeness auto
termination
  by (relation "measure length") (auto dest: matchMSVCFlag_pos)

definition rewriteMSVCForPreprocessed :: "Invocation \<Rightarrow> string \<Rightarrow> string \<Rightarrow> Invocation" where
  "rewriteMSVCForPreprocessed iv srcPath langFlag =
     NewInvocation\<lparr> Mode := CompileMode, Inputs := [srcPath], Output := Output iv,
       Language := (if langFlag = ''/Tp'' then ''c++'' else ''c''),
       RawArgs := [''/c'', ''/nologo'', langFlag @ srcPath] @
         (if Output iv \<noteq> [] then [''/Fo:'' @ Output iv] else []) @ msvcKeepForPreprocessed (RawArgs iv),
       Std := Std iv, Optim := Optim iv, Debug := Debug iv, Warnings := Warnings iv,
       Features := Features iv, Machine := Machine iv, Unknown := Unknown iv \<rparr>"

definition msvcPreprocessedLanguage :: "Invocation \<Rightarrow> string" where
  "msvcPreprocessedLanguage iv =
     (if Language iv = ''c++'' then ''/Tp''
      else if Language iv = ''c'' then ''/Tc''
      else if list_ex (\<lambda>i. ToLower (Ext i) \<in> set (cxx_exts @ [''.ii''])) (Inputs iv) then ''/Tp''
      else ''/Tc'')"

section \<open>Preprocessing and dependency discovery\<close>

definition parseMakeDeps :: "bytes \<Rightarrow> string list" where
  "parseMakeDeps data =
     (let s = (case IndexByte data CHR '':'' of Some i \<Rightarrow> drop (Suc i) data | None \<Rightarrow> data);
          s1 = ReplaceAll s [CHR 0x5C, CHR 0x0D, CHR 0x0A] '' '';
          s2 = ReplaceAll s1 [CHR 0x5C, CHR 0x0A] '' ''
      in Fields s2)"

definition show_includes_prefix :: string where
  "show_includes_prefix = ''Note: including file:''"

fun show_includes_lines :: "string list \<Rightarrow> string list" where
  "show_includes_lines [] = []"
| "show_includes_lines (l # ls) =
     (let line = TrimRight l [CHR 0x0D] in
      if \<not> HasPrefix line show_includes_prefix then show_includes_lines ls
      else let path = TrimSpace (drop (length show_includes_prefix) line)
           in if path \<noteq> [] then path # show_includes_lines ls else show_includes_lines ls)"

definition parseShowIncludes :: "bytes \<Rightarrow> string list" where
  "parseShowIncludes data = show_includes_lines (Split data CHR 0x0A)"

definition filterSources :: "string list \<Rightarrow> string list \<Rightarrow> string list" where
  "filterSources deps sources = (if sources = [] then deps else filter (\<lambda>d. d \<notin> set sources) deps)"

definition mode_or_output :: "(FlagSpec \<times> string \<times> nat) option \<Rightarrow> nat option" where
  "mode_or_output m =
     (case m of
        Some (spec, _, consumed) \<Rightarrow>
          if fs_Category spec = CatMode \<or> fs_Category spec = CatOutput then Some consumed else None
      | None \<Rightarrow> None)"

lemma mode_or_output_pos:
  "mode_or_output (matchGNUFlag a rest) = Some n \<Longrightarrow> 0 < n"
  "mode_or_output (matchMSVCFlag a rest) = Some n \<Longrightarrow> 0 < n"
  by (auto simp: mode_or_output_def split: option.splits prod.splits if_splits
      dest: matchGNUFlag_pos matchMSVCFlag_pos)

function stripGNUModeAndOutput :: "string list \<Rightarrow> string list" where
  "stripGNUModeAndOutput [] = []"
| "stripGNUModeAndOutput (a # rest) =
     (if \<not> HasPrefix a ''-'' \<or> a = ''-'' \<or> a = ''--'' then a # stripGNUModeAndOutput rest
      else case mode_or_output (matchGNUFlag a rest) of
             Some consumed \<Rightarrow> stripGNUModeAndOutput (drop consumed (a # rest))
           | None \<Rightarrow> a # stripGNUModeAndOutput rest)"
  by pat_completeness auto
termination
  by (relation "measure length") (auto dest: mode_or_output_pos)

definition isGNUDepEmissionFlag :: "string \<Rightarrow> bool" where
  "isGNUDepEmissionFlag a =
     (a \<in> {''-MD'', ''-MMD'', ''-MF'', ''-MT'', ''-MQ''} \<or>
      HasPrefix a ''-Wp,-MMD,'' \<or> HasPrefix a ''-Wp,-MD,'' \<or> HasPrefix a ''-Wp,-MF,'' \<or>
      HasPrefix a ''-Wp,-MT,'' \<or> HasPrefix a ''-Wp,-MQ,'')"

function stripGNUModeOutputAndDepEmission :: "string list \<Rightarrow> string list" where
  "stripGNUModeOutputAndDepEmission [] = []"
| "stripGNUModeOutputAndDepEmission (a # rest) =
     (if \<not> HasPrefix a ''-'' \<or> a = ''-'' \<or> a = ''--'' then a # stripGNUModeOutputAndDepEmission rest
      else if isGNUDepEmissionFlag a then
        stripGNUModeOutputAndDepEmission
          (if a = ''-MF'' \<or> a = ''-MT'' \<or> a = ''-MQ'' then drop 1 rest else rest)
      else case mode_or_output (matchGNUFlag a rest) of
             Some consumed \<Rightarrow> stripGNUModeOutputAndDepEmission (drop consumed (a # rest))
           | None \<Rightarrow> a # stripGNUModeOutputAndDepEmission rest)"
  by pat_completeness auto
termination
  by (relation "measure length") (auto dest: mode_or_output_pos)

function stripMSVCModeAndOutput :: "string list \<Rightarrow> string list" where
  "stripMSVCModeAndOutput [] = []"
| "stripMSVCModeAndOutput (a # rest) =
     (if \<not> isMSVCFlag a then a # stripMSVCModeAndOutput rest
      else case mode_or_output (matchMSVCFlag a rest) of
             Some consumed \<Rightarrow> stripMSVCModeAndOutput (drop consumed (a # rest))
           | None \<Rightarrow> a # stripMSVCModeAndOutput rest)"
  by pat_completeness auto
termination
  by (relation "measure length") (auto dest: mode_or_output_pos)

section \<open>The prefix rewriter\<close>

text \<open>
  A string seen by the rewriter is a sequence of literal characters and of occurrences of the
  prefix; an occurrence is taken exactly where the prefix stands before a boundary.
\<close>

datatype seg = Lit char | Hit

primrec seg_src :: "string \<Rightarrow> seg \<Rightarrow> string" where
  "seg_src host (Lit c) = [c]"
| "seg_src host Hit = host"

primrec seg_out :: "string \<Rightarrow> seg \<Rightarrow> string" where
  "seg_out vm (Lit c) = [c]"
| "seg_out vm Hit = vm"

definition segs_src :: "string \<Rightarrow> seg list \<Rightarrow> string" where
  "segs_src host gs = concat (map (seg_src host) gs)"

text \<open>The prefix stands here, followed by the end of the text, a slash or an equals sign.\<close>

definition occurs_here :: "string \<Rightarrow> string \<Rightarrow> bool" where
  "occurs_here host s \<longleftrightarrow> s = host \<or> (\<exists>t. s = host @ CHR ''/'' # t) \<or> (\<exists>t. s = host @ CHR ''='' # t)"

lemma occurs_here_iff: "occurs_here host s \<longleftrightarrow> HasPrefix s host \<and> at_boundary (drop (length host) s)"
  by (auto simp: occurs_here_def HasPrefix_iff at_boundary_def split: list.splits)

fun segs_ok :: "string \<Rightarrow> seg list \<Rightarrow> bool" where
  "segs_ok host [] = True"
| "segs_ok host (g # gs) =
     ((g = Hit) = occurs_here host (segs_src host (g # gs)) \<and> segs_ok host gs)"

lemma rewrite_loop_segs:
  assumes "host \<noteq> []"
  shows "\<exists>gs. s = segs_src host gs \<and> rewrite_loop s host vm = concat (map (seg_out vm) gs) \<and> segs_ok host gs"
  using assms
proof (induction s host vm rule: rewrite_loop.induct)
  case (1 host vm)
  show ?case by (rule exI [of _ "[]"]) (simp add: segs_src_def)
next
  case (2 c s host vm)
  show ?case
  proof (cases "occurs_here host (c # s)")
    case True
    then have hit: "host \<noteq> [] \<and> HasPrefix (c # s) host \<and> at_boundary (drop (length host) (c # s))"
      using 2(3) by (simp add: occurs_here_iff)
    obtain gs where gs: "drop (length host) (c # s) = segs_src host gs"
      "rewrite_loop (drop (length host) (c # s)) host vm = concat (map (seg_out vm) gs)" "segs_ok host gs"
      using 2(1) [OF hit 2(3)] by blast
    have src: "segs_src host (Hit # gs) = c # s"
      using HasPrefix_split [of "c # s" host] hit gs(1) by (simp add: segs_src_def)
    show ?thesis
      using src True hit gs(2,3) by (intro exI [of _ "Hit # gs"]) auto
  next
    case False
    then have miss: "\<not> (host \<noteq> [] \<and> HasPrefix (c # s) host \<and> at_boundary (drop (length host) (c # s)))"
      by (auto simp: occurs_here_iff)
    obtain gs where gs: "s = segs_src host gs"
      "rewrite_loop s host vm = concat (map (seg_out vm) gs)" "segs_ok host gs"
      using 2(2) [OF miss 2(3)] by blast
    have src: "segs_src host (Lit c # gs) = c # s" using gs(1) by (simp add: segs_src_def)
    show ?thesis
      using src False miss gs(2,3) by (intro exI [of _ "Lit c # gs"]) auto
  qed
qed

lemma rewrite_loop_absent: "\<not> Contains s host \<Longrightarrow> rewrite_loop s host vm = s"
  by (induction s host vm rule: rewrite_loop.induct) auto

lemma rewritePrefix_loop: "rewritePrefix s host vm = rewrite_loop s host vm"
  by (simp add: rewritePrefix_def rewrite_loop_absent)

section \<open>Dependency-file paths\<close>

fun plain_targets :: "string list \<Rightarrow> bool" where
  "plain_targets (a # v # rest) =
     ((a = ''-MT'' \<or> a = ''-MQ'' \<longrightarrow> v \<noteq> ''-MF'' \<and> splitWpDepEmission v = None) \<and> plain_targets (v # rest))"
| "plain_targets _ = True"

lemma plain_targets_tl: "plain_targets (a # rest) \<Longrightarrow> plain_targets rest"
  by (cases rest) auto

lemma splitWp_prefix:
  "splitWpDepEmission a = Some (pfx, p) \<Longrightarrow> splitWpDepEmission (pfx @ q) = Some (pfx, q)"
  by (auto simp: splitWpDepEmission_def split: if_splits)

lemma splitWp_other: "splitWpDepEmission ''-MT'' = None" "splitWpDepEmission ''-MQ'' = None"
  "splitWpDepEmission ''-MF'' = None"
  by (simp_all add: splitWpDepEmission_def)

lemma Extract_skip:
  "splitWpDepEmission a = None \<Longrightarrow> a \<noteq> ''-MF'' \<Longrightarrow>
   ExtractDepEmissionPaths (a # rest) = ExtractDepEmissionPaths rest"
  by (cases rest) auto

lemma RewriteDep_paths:
  assumes "plain_targets args"
  shows "snd (RewriteDepEmissionForCAS args outRoot) = ExtractDepEmissionPaths args \<and>
         ExtractDepEmissionPaths (fst (RewriteDepEmissionForCAS args outRoot)) =
           map (\<lambda>p. Join [outRoot, p]) (ExtractDepEmissionPaths args) \<and>
         length (fst (RewriteDepEmissionForCAS args outRoot)) = length args"
  using assms
proof (induction args outRoot rule: RewriteDepEmissionForCAS.induct)
  case (1 outRoot)
  then show ?case by simp
next
  case (2 a rest outRoot)
  show ?case
  proof (cases "splitWpDepEmission a")
    case (Some pp)
    obtain pfx p where sp: "splitWpDepEmission a = Some (pfx, p)" using Some by (cases pp) auto
    then have rw: "rewriteWpDepEmission a outRoot = Some (pfx @ Join [outRoot, p], p)"
      by (simp add: rewriteWpDepEmission_def)
    show ?thesis
      using 2(4) [OF rw refl plain_targets_tl [OF 2(5)]] rw sp splitWp_prefix [OF sp]
      by (simp add: split_beta)
  next
    case None
    then have rw: "rewriteWpDepEmission a outRoot = None" by (simp add: rewriteWpDepEmission_def)
    show ?thesis
    proof (cases rest)
      case Nil
      then show ?thesis using rw None by simp
    next
      case (Cons v rest')
      then have tl: "plain_targets (v # rest')" using 2(5) plain_targets_tl by auto
      consider "a = ''-MF''" | "a = ''-MT'' \<or> a = ''-MQ''" | "a \<noteq> ''-MF''" "a \<noteq> ''-MT''" "a \<noteq> ''-MQ''" by blast
      then show ?thesis
      proof cases
        case 1
        then show ?thesis
          using 2(1) [OF rw Cons 1 plain_targets_tl [OF tl]] rw Cons None by (simp add: split_beta)
      next
        case 2
        then have ne: "a \<noteq> ''-MF''" by auto
        have v: "v \<noteq> ''-MF''" "splitWpDepEmission v = None" using \<open>plain_targets (a # rest)\<close> 2 Cons by auto
        show ?thesis
          using "2.IH"(2) [OF rw Cons ne 2 plain_targets_tl [OF tl]] rw Cons None 2 ne
            Extract_skip [OF v(2,1)] Extract_skip [OF None ne] by (simp add: split_beta)
      next
        case 3
        then have nt: "\<not> (a = ''-MT'' \<or> a = ''-MQ'')" by auto
        show ?thesis
          using "2.IH"(3) [OF rw Cons 3(1) nt tl] rw Cons None 3 Extract_skip [OF None 3(1)]
          by (simp add: split_beta)
      qed
    qed
  qed
qed

section \<open>Re-parsing the arguments of a preprocessed compile\<close>

definition werror_value :: "string \<Rightarrow> bool" where
  "werror_value w = (w = ''error'' \<or> HasPrefix w ''error='')"

text \<open>The fields the kept arguments determine, laid over another invocation.\<close>

definition codegen_of :: "Invocation \<Rightarrow> Invocation \<Rightarrow> Invocation" where
  "codegen_of c iv =
     c\<lparr> Std := Std iv, Optim := Optim iv, Debug := Debug iv,
        Warnings := filter (\<lambda>w. \<not> werror_value w) (Warnings iv), Features := Features iv,
        Machine := Machine iv, Unknown := Unknown iv \<rparr>"

lemma gnu_codegen_joined:
  "s \<in> set gnuFlags \<Longrightarrow> codegen_category (fs_Category s) \<Longrightarrow> fs_Value s = JoinedValue"
  by (auto simp: gnuFlags_def flag_def codegen_category_def)

lemma gnu_warning_name: "s \<in> set gnuFlags \<Longrightarrow> fs_Category s = CatWarning \<Longrightarrow> fs_Name s = ''-W''"
  by (auto simp: gnuFlags_def flag_def)

lemma isWerrorFlag_W: "isWerrorFlag (''-W'' @ v) = werror_value v"
  by (simp add: isWerrorFlag_def werror_value_def)

lemma codegen_of_other:
  "\<not> codegen_category (fs_Category s) \<Longrightarrow> codegen_of c (applyFlag iv s v) = codegen_of c iv"
  by (cases "fs_Category s")
     (simp_all add: codegen_of_def applyFlag_def codegen_category_def apply_mode_def split_beta
        split: ValueMode.split)

lemma codegen_of_apply:
  "codegen_category (fs_Category s) \<Longrightarrow> \<not> (fs_Category s = CatWarning \<and> werror_value v) \<Longrightarrow>
   codegen_of c (applyFlag iv s v) = applyFlag (codegen_of c iv) s v"
  by (cases c; cases iv; cases "fs_Category s")
     (simp_all add: codegen_of_def applyFlag_def codegen_category_def)

lemma codegen_of_werror:
  "fs_Category s = CatWarning \<Longrightarrow> werror_value v \<Longrightarrow> codegen_of c (applyFlag iv s v) = codegen_of c iv"
  by (simp add: codegen_of_def applyFlag_def)

lemma parse_keep_gnu:
  "parse_gnu_loop (codegen_of c iv) (gnuKeepForPreprocessed args) = codegen_of c (parse_gnu_loop iv args)"
proof (induction iv args rule: parse_gnu_loop.induct)
  case (1 iv)
  then show ?case by simp
next
  case (2 iv a rest)
  show ?case
  proof (cases "a = ''--'' \<or> \<not> HasPrefix a ''-'' \<or> a = ''-''")
    case True
    then show ?thesis using 2(1) by (auto simp: codegen_of_def)
  next
    case False
    then have d: "a \<noteq> ''--''" "\<not> (\<not> HasPrefix a ''-'' \<or> a = ''-'')" by auto
    show ?thesis
    proof (cases "gnu_find a")
      case None
      then have m: "matchGNUFlag a r = None" for r by (simp add: matchGNUFlag_find)
      have "codegen_of c (iv\<lparr> Unknown := Unknown iv @ [a] \<rparr>) = (codegen_of c iv)\<lparr> Unknown := Unknown (codegen_of c iv) @ [a] \<rparr>"
        by (simp add: codegen_of_def)
      then show ?thesis using 2(2) [OF d m] m d by simp
    next
      case (Some s)
      obtain v n where y: "gnu_yield s a rest = (v, n)" by (cases "gnu_yield s a rest")
      then have m: "matchGNUFlag a rest = Some (s, v, n)" using Some by (simp add: matchGNUFlag_find)
      note IH = 2(3) [OF d m refl refl]
      have s: "s \<in> set gnuFlags" "gnu_match s a" using gnu_find_in [OF Some] by simp_all
      show ?thesis
      proof (cases "codegen_category (fs_Category s)")
        case False
        then show ?thesis using IH m d codegen_of_other by simp
      next
        case True
        then have j: "fs_Value s = JoinedValue" using gnu_codegen_joined s by blast
        then have n: "n = 1" and v: "v = drop (length (fs_Name s)) a" using y by (simp_all add: gnu_yield_def)
        have any: "matchGNUFlag a r = Some (s, v, 1)" for r
          using Some j v by (simp add: matchGNUFlag_find gnu_yield_def)
        have w: "fs_Category s = CatWarning \<Longrightarrow> isWerrorFlag a = werror_value v"
          using gnu_warning_name [OF s(1)] gnu_match_append [OF s(2)] isWerrorFlag_W [of v] v by simp
        show ?thesis
        proof (cases "fs_Category s = CatWarning \<and> werror_value v")
          case True
          then show ?thesis using IH m d w n codegen_of_werror by simp
        next
          case no: False
          then have e: "\<not> (fs_Category s = CatWarning \<and> isWerrorFlag a)" using w by blast
          have k: "gnuKeepForPreprocessed (a # rest) = a # gnuKeepForPreprocessed rest"
            using d m n True e by auto
          have p: "parse_gnu_loop jv (a # as) = parse_gnu_loop (applyFlag jv s v) as" for jv as
            using d any by simp
          show ?thesis
            unfolding k p using IH n codegen_of_apply [OF True no] by simp
        qed
      qed
    qed
  qed
qed

lemma keep_gnu_subset: "set (gnuKeepForPreprocessed args) \<subseteq> set args"
proof (induction args rule: gnuKeepForPreprocessed.induct)
  case (2 a rest)
  show ?case
  proof (cases "a = ''--'' \<or> \<not> HasPrefix a ''-'' \<or> a = ''-''")
    case True
    then show ?thesis using 2(1) by auto
  next
    case False
    then have d: "a \<noteq> ''--''" "\<not> (\<not> HasPrefix a ''-'' \<or> a = ''-'')" by auto
    show ?thesis
    proof (cases "matchGNUFlag a rest")
      case None
      then show ?thesis using 2(2) [OF d None] d by auto
    next
      case (Some m)
      obtain s v n where m: "matchGNUFlag a rest = Some (s, v, n)" using Some by (cases m) auto
      have "set (gnuKeepForPreprocessed (drop n (a # rest))) \<subseteq> set (a # rest)"
        using 2(3) [OF d m refl refl] set_drop_subset by (rule subset_trans)
      moreover have "set (take n (a # rest)) \<subseteq> set (a # rest)" by (rule set_take_subset)
      ultimately show ?thesis using d m by (simp split: if_splits) blast
    qed
  qed
qed simp

lemma gnu_head_flags:
  "matchGNUFlag ''-x'' (l # r) = Some (flag ''-x'' SeparateValue CatLanguage, l, 2)"
  "matchGNUFlag ''-c'' r' = Some (flag ''-c'' NoValue CatMode, [], 1)"
  "matchGNUFlag ''-o'' (p # r) = Some (flag ''-o'' SeparateValue CatOutput, p, 2)"
  "matchGNUFlag ''-E'' r' = Some (flag ''-E'' NoValue CatMode, [], 1)"
  by (simp_all add: matchGNUFlag_find gnu_eval gnu_yield_def)

lemma ParseGNU_loop:
  "ParseGNU rd args = Inr iv \<Longrightarrow>
   \<exists>expanded. expandResponseFiles rd args 0 = Inr expanded \<and>
     iv = inferDefaultOutput (default_mode (parse_gnu_loop (NewInvocation\<lparr> RawArgs := expanded \<rparr>) expanded)) ''.o''"
  by (auto simp: ParseGNU_def ebind_Inr_conv)

lemma parse_gnu_RawArgs: "RawArgs (parse_gnu_loop iv args) = RawArgs iv"
proof (induction iv args rule: parse_gnu_loop.induct)
  case (2 iv a rest)
  have "RawArgs (applyFlag jv s v) = RawArgs jv" for jv s v
    by (cases "fs_Category s") (simp_all add: applyFlag_def apply_mode_def split_beta split: ValueMode.split)
  then show ?case using 2 by (auto split: option.splits)
qed simp

lemma infer_simps [simp]:
  "Std (inferDefaultOutput iv e) = Std iv" "Optim (inferDefaultOutput iv e) = Optim iv"
  "Debug (inferDefaultOutput iv e) = Debug iv" "Warnings (inferDefaultOutput iv e) = Warnings iv"
  "Features (inferDefaultOutput iv e) = Features iv" "Machine (inferDefaultOutput iv e) = Machine iv"
  "Unknown (inferDefaultOutput iv e) = Unknown iv" "RawArgs (inferDefaultOutput iv e) = RawArgs iv"
  "Mode (inferDefaultOutput iv e) = Mode iv"
  by (auto simp: inferDefaultOutput_def Let_def split: option.splits)

lemma default_mode_simps [simp]:
  "Std (default_mode iv) = Std iv" "Optim (default_mode iv) = Optim iv"
  "Debug (default_mode iv) = Debug iv" "Warnings (default_mode iv) = Warnings iv"
  "Features (default_mode iv) = Features iv" "Machine (default_mode iv) = Machine iv"
  "Unknown (default_mode iv) = Unknown iv" "RawArgs (default_mode iv) = RawArgs iv"
  by (auto simp: default_mode_def)

lemma codegen_of_cong:
  "Std iv = Std jv \<Longrightarrow> Optim iv = Optim jv \<Longrightarrow> Debug iv = Debug jv \<Longrightarrow> Warnings iv = Warnings jv \<Longrightarrow>
   Features iv = Features jv \<Longrightarrow> Machine iv = Machine jv \<Longrightarrow> Unknown iv = Unknown jv \<Longrightarrow>
   codegen_of c iv = codegen_of c jv"
  by (simp add: codegen_of_def)

lemma default_mode_id: "Mode iv \<noteq> UnknownMode \<Longrightarrow> default_mode iv = iv"
  by (simp add: default_mode_def)

lemma infer_id: "Output iv \<noteq> [] \<or> Mode iv \<noteq> CompileMode \<Longrightarrow> inferDefaultOutput iv e = iv"
  by (auto simp: inferDefaultOutput_def)

lemma reparse_gnu:
  assumes P: "ParseGNU rd args = Inr iv" and out: "Output iv \<noteq> []" "\<not> at_file (Output iv)"
    and src: "\<not> HasPrefix src ''-''" "\<not> at_file src" and lang: "\<not> at_file lang"
  shows "ParseGNU rd' (RawArgs (rewriteGNUForPreprocessed iv src lang)) =
         Inr ((rewriteGNUForPreprocessed iv src lang)
                \<lparr> Warnings := filter (\<lambda>w. \<not> werror_value w) (Warnings iv) \<rparr>)"
proof -
  obtain ex where ex: "expandResponseFiles rd args 0 = Inr ex"
    and iv: "iv = inferDefaultOutput (default_mode (parse_gnu_loop (NewInvocation\<lparr> RawArgs := ex \<rparr>) ex)) ''.o''"
    using ParseGNU_loop [OF P] by blast
  let ?keep = "gnuKeepForPreprocessed ex"
  let ?raw = "[''-x'', lang, ''-c'', src, ''-o'', Output iv] @ ?keep"
  let ?c = "NewInvocation\<lparr> Mode := CompileMode, Inputs := [src], Output := Output iv, Language := lang, RawArgs := ?raw \<rparr>"
  have raw: "RawArgs iv = ex" by (simp add: iv parse_gnu_RawArgs)
  have "list_all (\<lambda>a. \<not> at_file a) ?raw"
    using expand_result [OF ex] keep_gnu_subset [of ex] out src lang
    by (auto simp: list_all_iff at_file_def)
  then have noop: "expandResponseFiles rd' ?raw 0 = Inr ?raw" by (rule expand_noop) simp
  have "src \<noteq> ''--''" "src \<noteq> ''-''" using src(1) by auto
  then have head: "parse_gnu_loop (NewInvocation\<lparr> RawArgs := ?raw \<rparr>) ?raw = parse_gnu_loop ?c ?keep"
    using src(1) gnu_head_flags
    by (simp add: flag_def applyFlag_def apply_mode_def NewInvocation_def)
  have "?c = codegen_of ?c (NewInvocation\<lparr> RawArgs := ex \<rparr>)"
    by (simp add: codegen_of_def NewInvocation_def)
  then have "parse_gnu_loop ?c ?keep = codegen_of ?c (parse_gnu_loop (NewInvocation\<lparr> RawArgs := ex \<rparr>) ex)"
    by (metis parse_keep_gnu)
  also have "\<dots> = codegen_of ?c iv" unfolding iv by (rule codegen_of_cong) simp_all
  finally have loop: "parse_gnu_loop (NewInvocation\<lparr> RawArgs := ?raw \<rparr>) ?raw = codegen_of ?c iv"
    using head by simp
  have "ParseGNU rd' ?raw = Inr (codegen_of ?c iv)"
    using noop loop out by (simp add: ParseGNU_def default_mode_id infer_id codegen_of_def)
  moreover have "RawArgs (rewriteGNUForPreprocessed iv src lang) = ?raw"
    using out raw by (simp add: rewriteGNUForPreprocessed_def)
  moreover have "codegen_of ?c iv = (rewriteGNUForPreprocessed iv src lang)
                \<lparr> Warnings := filter (\<lambda>w. \<not> werror_value w) (Warnings iv) \<rparr>"
    using out raw by (simp add: codegen_of_def rewriteGNUForPreprocessed_def NewInvocation_def)
  ultimately show ?thesis by simp
qed

section \<open>The preprocessor command line\<close>

text \<open>
  Arguments whose separate flag values do not look like flags themselves (other than the value of
  a mode or output flag, which is removed with its flag).
\<close>

function plain_values :: "string list \<Rightarrow> bool" where
  "plain_values [] = True"
| "plain_values (a # rest) =
     (if \<not> HasPrefix a ''-'' \<or> a = ''-'' then plain_values rest
      else case matchGNUFlag a rest of
             None \<Rightarrow> plain_values rest
           | Some (spec, v, n) \<Rightarrow>
               (n = 2 \<longrightarrow> fs_Category spec = CatOutput \<or> \<not> HasPrefix v ''-'') \<and> plain_values (drop n (a # rest)))"
  by pat_completeness auto
termination
  by (relation "measure length") (auto dest: matchGNUFlag_pos)

definition mode_output_of :: "InvocationMode \<Rightarrow> string \<Rightarrow> string list \<Rightarrow> Invocation \<Rightarrow> Invocation" where
  "mode_output_of m out raw iv = iv\<lparr> Mode := m, Output := out, RawArgs := raw \<rparr>"

lemma gnu_mode_joined:
  "s \<in> set gnuFlags \<Longrightarrow> fs_Category s = CatMode \<Longrightarrow> fs_Value s = NoValue"
  by (auto simp: gnuFlags_def flag_def)

lemma mode_output_of_skip:
  "fs_Category s = CatMode \<or> fs_Category s = CatOutput \<Longrightarrow>
   mode_output_of m out raw (applyFlag iv s v) = mode_output_of m out raw iv"
  by (auto simp: mode_output_of_def applyFlag_def apply_mode_def)

lemma mode_output_of_apply:
  "fs_Category s \<noteq> CatMode \<Longrightarrow> fs_Category s \<noteq> CatOutput \<Longrightarrow>
   mode_output_of m out raw (applyFlag iv s v) = applyFlag (mode_output_of m out raw iv) s v"
  by (cases iv; cases "fs_Category s")
     (simp_all add: mode_output_of_def applyFlag_def split_beta split: ValueMode.split)

lemma strip_nonflag:
  "\<not> HasPrefix v ''-'' \<Longrightarrow> stripGNUModeAndOutput (v # rest) = v # stripGNUModeAndOutput rest"
  by simp

lemma parse_strip_gnu:
  assumes "plain_values args" "''--'' \<notin> set args"
  shows "parse_gnu_loop (mode_output_of m out raw iv) (stripGNUModeAndOutput args) =
         mode_output_of m out raw (parse_gnu_loop iv args)"
  using assms
proof (induction iv args rule: parse_gnu_loop.induct)
  case (1 iv)
  then show ?case by simp
next
  case (2 iv a rest)
  have nd: "a \<noteq> ''--''" "''--'' \<notin> set rest" using 2(5) by auto
  show ?case
  proof (cases "\<not> HasPrefix a ''-'' \<or> a = ''-''")
    case True
    have "plain_values rest" using 2(4) True by auto
    then have "parse_gnu_loop (mode_output_of m out raw (iv\<lparr> Inputs := Inputs iv @ [a] \<rparr>)) (stripGNUModeAndOutput rest) =
        mode_output_of m out raw (parse_gnu_loop (iv\<lparr> Inputs := Inputs iv @ [a] \<rparr>) rest)"
      using 2(1) [OF nd(1) True] nd(2) by blast
    moreover have "mode_output_of m out raw (iv\<lparr> Inputs := Inputs iv @ [a] \<rparr>) =
        (mode_output_of m out raw iv)\<lparr> Inputs := Inputs (mode_output_of m out raw iv) @ [a] \<rparr>"
      by (simp add: mode_output_of_def)
    ultimately show ?thesis using True nd(1) by auto
  next
    case flag: False
    then have d: "HasPrefix a ''-''" "a \<noteq> ''-''" by auto
    show ?thesis
    proof (cases "gnu_find a")
      case None
      then have m: "matchGNUFlag a r = None" for r by (simp add: matchGNUFlag_find)
      have "plain_values rest" using 2(4) d m by simp
      then have "parse_gnu_loop (mode_output_of m out raw (iv\<lparr> Unknown := Unknown iv @ [a] \<rparr>)) (stripGNUModeAndOutput rest) =
        mode_output_of m out raw (parse_gnu_loop (iv\<lparr> Unknown := Unknown iv @ [a] \<rparr>) rest)"
        using 2(2) [OF nd(1) flag m] nd(2) by blast
      moreover have "mode_output_of m out raw (iv\<lparr> Unknown := Unknown iv @ [a] \<rparr>) =
        (mode_output_of m out raw iv)\<lparr> Unknown := Unknown (mode_output_of m out raw iv) @ [a] \<rparr>"
        by (simp add: mode_output_of_def)
      moreover have "stripGNUModeAndOutput (a # rest) = a # stripGNUModeAndOutput rest"
        using m by (simp add: mode_or_output_def)
      ultimately show ?thesis using d nd(1) m by simp
    next
      case (Some s)
      obtain v n where y: "gnu_yield s a rest = (v, n)" by (cases "gnu_yield s a rest")
      then have mt: "matchGNUFlag a rest = Some (s, v, n)" using Some by (simp add: matchGNUFlag_find)
      have s: "s \<in> set gnuFlags" "gnu_match s a" using gnu_find_in [OF Some] by simp_all
      have rest': "''--'' \<notin> set (drop n (a # rest))" using 2(5) by (meson in_set_dropD)
      have pv: "plain_values (drop n (a # rest))" "n = 2 \<Longrightarrow> fs_Category s = CatOutput \<or> \<not> HasPrefix v ''-''"
        using 2(4) d mt by auto
      note IH = 2(3) [OF nd(1) flag mt refl refl pv(1) rest']
      show ?thesis
      proof (cases "fs_Category s = CatMode \<or> fs_Category s = CatOutput")
        case True
        then have "mode_or_output (matchGNUFlag a rest) = Some n" using mt by (simp add: mode_or_output_def)
        then have "stripGNUModeAndOutput (a # rest) = stripGNUModeAndOutput (drop n (a # rest))"
          using d nd(1) by simp
        then show ?thesis using IH mt d nd(1) mode_output_of_skip [OF True] by simp
      next
        case other: False
        then have st: "stripGNUModeAndOutput (a # rest) = a # stripGNUModeAndOutput rest"
          using mt by (simp add: mode_or_output_def)
        have ap: "applyFlag (mode_output_of m out raw iv) s v = mode_output_of m out raw (applyFlag iv s v)"
          using mode_output_of_apply other by simp
        consider "n = 1" | r where "n = 2" "rest = v # r" "a = fs_Name s"
          using gnu_yield_tokens [OF s(2) y] by blast
        then show ?thesis
        proof cases
          case 1
          have "gnu_yield s a (stripGNUModeAndOutput rest) = (v, 1)"
          proof (cases rest)
            case Nil
            then show ?thesis using y 1 by simp
          next
            case (Cons w r)
            then show ?thesis using y 1 by (auto simp: gnu_yield_def split: if_splits list.splits)
          qed
          then have "matchGNUFlag a (stripGNUModeAndOutput rest) = Some (s, v, 1)"
            using Some by (simp add: matchGNUFlag_find)
          then show ?thesis using st ap IH mt 1 d nd(1) by simp
        next
          case (2 r)
          then have v: "\<not> HasPrefix v ''-''" using pv(2) other by blast
          have "gnu_yield s a (v # x) = (v, 2)" for x using y 2 by (auto simp: gnu_yield_def split: if_splits)
          then have "matchGNUFlag a (v # stripGNUModeAndOutput r) = Some (s, v, 2)"
            using Some by (simp add: matchGNUFlag_find)
          then show ?thesis
            using st ap IH mt 2 d nd(1) strip_nonflag [OF v] by simp
        qed
      qed
    qed
  qed
qed

lemma strip_gnu_subset: "set (stripGNUModeAndOutput args) \<subseteq> set args"
proof (induction args rule: stripGNUModeAndOutput.induct)
  case (2 a rest)
  show ?case
  proof (cases "mode_or_output (matchGNUFlag a rest)")
    case None
    then show ?thesis using 2 by auto
  next
    case (Some n)
    show ?thesis
    proof (cases "\<not> HasPrefix a ''-'' \<or> a = ''-'' \<or> a = ''--''")
      case True
      then show ?thesis using 2(1) by auto
    next
      case False
      have "set (stripGNUModeAndOutput (drop n (a # rest))) \<subseteq> set (a # rest)"
        using 2(3) [OF False Some] set_drop_subset by (rule subset_trans)
      then show ?thesis using Some False by simp
    qed
  qed
qed simp

lemma preprocess_reparse:
  assumes P: "ParseGNU rd args = Inr iv" and plain: "plain_values (RawArgs iv)" "''--'' \<notin> set (RawArgs iv)"
  shows "ParseGNU rd' (''-E'' # stripGNUModeAndOutput (RawArgs iv)) =
         Inr (iv\<lparr> Mode := PreprocessMode, Output := [], RawArgs := ''-E'' # stripGNUModeAndOutput (RawArgs iv) \<rparr>)"
proof -
  obtain ex where ex: "expandResponseFiles rd args 0 = Inr ex"
    and iv: "iv = inferDefaultOutput (default_mode (parse_gnu_loop (NewInvocation\<lparr> RawArgs := ex \<rparr>) ex)) ''.o''"
    using ParseGNU_loop [OF P] by blast
  have raw: "RawArgs iv = ex" by (simp add: iv parse_gnu_RawArgs)
  let ?raw = "''-E'' # stripGNUModeAndOutput ex"
  have "list_all (\<lambda>a. \<not> at_file a) ?raw"
    using expand_result [OF ex] strip_gnu_subset [of ex] by (auto simp: list_all_iff at_file_def)
  then have noop: "expandResponseFiles rd' ?raw 0 = Inr ?raw" by (rule expand_noop) simp
  let ?m = "mode_output_of PreprocessMode [] ?raw"
  have "parse_gnu_loop (NewInvocation\<lparr> RawArgs := ?raw \<rparr>) ?raw =
        parse_gnu_loop (?m (NewInvocation\<lparr> RawArgs := ex \<rparr>)) (stripGNUModeAndOutput ex)"
    using gnu_head_flags(4)
    by (simp add: flag_def applyFlag_def apply_mode_def NewInvocation_def mode_output_of_def)
  also have "\<dots> = ?m (parse_gnu_loop (NewInvocation\<lparr> RawArgs := ex \<rparr>) ex)"
    by (rule parse_strip_gnu) (use plain raw in simp_all)
  also have "\<dots> = ?m iv"
    unfolding iv inferDefaultOutput_def Let_def default_mode_def mode_output_of_def by (simp split: option.split)
  finally show ?thesis
    using noop raw by (simp add: ParseGNU_def default_mode_id infer_id mode_output_of_def)
qed

section \<open>Re-parsing the cl.exe arguments of a preprocessed compile\<close>

definition msvc_codegen_of :: "Invocation \<Rightarrow> Invocation \<Rightarrow> Invocation" where
  "msvc_codegen_of c iv =
     c\<lparr> Std := Std iv, Optim := Optim iv, Debug := Debug iv, Warnings := Warnings iv,
        Features := Features iv, Machine := Machine iv, Unknown := Unknown iv, Passthrough := [] \<rparr>"

abbreviation no_pass :: "Invocation \<Rightarrow> Invocation" where
  "no_pass iv \<equiv> iv\<lparr> Passthrough := [] \<rparr>"

definition runtime_flag :: "FlagSpec \<Rightarrow> bool" where
  "runtime_flag s =
     (fs_Category s = CatPassthrough \<and> fs_Name s \<in> {''/MD'', ''/MDd'', ''/MT'', ''/MTd'', ''/EH''})"

lemma msvcFlags_facts:
  "list_all (\<lambda>s.
     (codegen_category (fs_Category s) \<or> runtime_flag s \<longrightarrow>
        (fs_Value s = NoValue \<or> fs_Value s = JoinedValue) \<and> fs_Name s \<noteq> ''/link'') \<and>
     (fs_Name s \<in> {''/Zi'', ''/Z7'', ''/ZI''} \<longrightarrow> codegen_category (fs_Category s)) \<and>
     (fs_Name s \<in> {''/c'', ''/E'', ''/EP'', ''/P'', ''/Tc'', ''/Tp''} \<longrightarrow>
        \<not> codegen_category (fs_Category s) \<and> fs_Category s \<noteq> CatPassthrough)) msvcFlags"
  by (simp add: msvcFlags_def flag_def codegen_category_def runtime_flag_def)

lemma msvc_kept_value:
  "s \<in> set msvcFlags \<Longrightarrow> codegen_category (fs_Category s) \<or> runtime_flag s \<Longrightarrow>
   fs_Value s \<in> {NoValue, JoinedValue} \<and> fs_Name s \<noteq> ''/link''"
  using msvcFlags_facts unfolding list_all_iff by blast

lemma msvc_debug_flags:
  "s \<in> set msvcFlags \<Longrightarrow> fs_Name s \<in> {''/Zi'', ''/Z7'', ''/ZI''} \<Longrightarrow> codegen_category (fs_Category s)"
  using msvcFlags_facts unfolding list_all_iff by blast

lemma msvc_special_flags:
  "s \<in> set msvcFlags \<Longrightarrow> fs_Name s \<in> {''/c'', ''/E'', ''/EP'', ''/P'', ''/Tc'', ''/Tp''} \<Longrightarrow>
   \<not> codegen_category (fs_Category s) \<and> fs_Category s \<noteq> CatPassthrough"
  using msvcFlags_facts unfolding list_all_iff by blast

lemma msvc_codegen_of_other:
  assumes "s \<in> set msvcFlags" "\<not> codegen_category (fs_Category s)"
  shows "msvc_codegen_of c (applyMSVCFlag iv s v) = msvc_codegen_of c iv"
proof -
  have "msvc_codegen_of c (applyFlag iv s v) = msvc_codegen_of c iv"
    using assms(2) by (cases "fs_Category s")
      (simp_all add: msvc_codegen_of_def applyFlag_def codegen_category_def apply_mode_def split_beta
         split: ValueMode.split)
  moreover have "fs_Name s \<notin> {''/Zi'', ''/Z7'', ''/ZI''}" using assms msvc_debug_flags by blast
  ultimately show ?thesis by (simp add: applyMSVCFlag_def Let_def msvc_codegen_of_def)
qed

lemma msvc_codegen_of_apply:
  assumes "s \<in> set msvcFlags" "codegen_category (fs_Category s)" "no_pass jv = msvc_codegen_of c iv"
  shows "no_pass (applyMSVCFlag jv s v) = msvc_codegen_of c (applyMSVCFlag iv s v)"
proof -
  have n: "fs_Name s \<notin> {''/c'', ''/E'', ''/EP'', ''/P'', ''/Tc'', ''/Tp''}"
    using assms msvc_special_flags by blast
  define p where "p = Passthrough jv"
  have "jv = (no_pass jv)\<lparr> Passthrough := p \<rparr>" by (simp add: p_def)
  then have jv: "jv = (msvc_codegen_of c iv)\<lparr> Passthrough := p \<rparr>" using assms(3) by simp
  have ap: "applyMSVCFlag x s v = (if fs_Name s \<in> {''/Zi'', ''/Z7'', ''/ZI''} then x\<lparr> Debug := fs_Name s \<rparr> else applyFlag x s v)" for x
    using n by (simp add: applyMSVCFlag_def Let_def)
  have "no_pass (applyFlag jv s v) = msvc_codegen_of c (applyFlag iv s v)"
    unfolding jv using assms(2)
    by (cases c; cases iv; cases "fs_Category s")
       (simp_all add: msvc_codegen_of_def applyFlag_def codegen_category_def)
  moreover have "no_pass (jv\<lparr> Debug := d \<rparr>) = msvc_codegen_of c (iv\<lparr> Debug := d \<rparr>)" for d
    unfolding jv by (cases c; cases iv) (simp add: msvc_codegen_of_def)
  ultimately show ?thesis unfolding ap by (simp del: insert_iff)
qed

lemma msvc_pass_apply:
  assumes "s \<in> set msvcFlags" "fs_Category s = CatPassthrough"
  shows "no_pass (applyMSVCFlag jv s v) = no_pass jv"
proof -
  have "fs_Name s \<notin> {''/c'', ''/E'', ''/EP'', ''/P'', ''/Tc'', ''/Tp''}" "fs_Name s \<notin> {''/Zi'', ''/Z7'', ''/ZI''}"
    using assms msvc_special_flags msvc_debug_flags [OF assms(1)] by (auto simp: codegen_category_def)
  then show ?thesis
    using assms(2) by (simp add: applyMSVCFlag_def Let_def applyFlag_def split: ValueMode.split)
qed

lemma parse_keep_msvc:
  "no_pass jv = msvc_codegen_of c iv \<Longrightarrow>
   no_pass (parse_msvc_loop jv (msvcKeepForPreprocessed args)) = msvc_codegen_of c (parse_msvc_loop iv args)"
proof (induction iv args arbitrary: jv rule: parse_msvc_loop.induct)
  case (1 iv)
  then show ?case by simp
next
  case (2 iv a rest)
  show ?case
  proof (cases "isMSVCFlag a")
    case False
    have "no_pass jv = msvc_codegen_of c (iv\<lparr> Inputs := Inputs iv @ [a] \<rparr>)"
      using 2(4) by (simp add: msvc_codegen_of_def)
    from 2(1) [OF False this] False show ?thesis by simp
  next
    case True
    then have nf: "\<not> \<not> isMSVCFlag a" by simp
    show ?thesis
    proof (cases "msvc_find a")
      case None
      then have m: "matchMSVCFlag a r = None" for r by (simp add: matchMSVCFlag_find)
      have "no_pass (jv\<lparr> Unknown := Unknown jv @ [a] \<rparr>) = msvc_codegen_of c (iv\<lparr> Unknown := Unknown iv @ [a] \<rparr>)"
      proof -
        have "Unknown jv = Unknown iv" using arg_cong [OF 2(4), of Unknown] by (simp add: msvc_codegen_of_def)
        moreover have "no_pass (jv\<lparr> Unknown := u \<rparr>) = (no_pass jv)\<lparr> Unknown := u \<rparr>" for u by simp
        ultimately show ?thesis using 2(4) by (simp add: msvc_codegen_of_def)
      qed
      from 2(2) [OF nf m this] show ?thesis using m True by simp
    next
      case (Some s)
      obtain v n where y: "msvc_yield s (canonicalizeMSVC a) rest = (v, n)"
        by (cases "msvc_yield s (canonicalizeMSVC a) rest")
      then have mt: "matchMSVCFlag a rest = Some (s, v, n)" using Some by (simp add: matchMSVCFlag_find)
      have s: "s \<in> set msvcFlags" using msvc_find_in [OF Some] by simp
      show ?thesis
      proof (cases "fs_Name s = ''/link''")
        case True
        then show ?thesis using 2(4) mt \<open>isMSVCFlag a\<close> by (simp add: msvc_codegen_of_def)
      next
        case nl: False
        note IH = 2(3) [OF nf mt refl refl nl]
        show ?thesis
        proof (cases "codegen_category (fs_Category s) \<or> runtime_flag s")
          case False
          then have k: "msvcKeepForPreprocessed (a # rest) = msvcKeepForPreprocessed (drop n (a # rest))"
            using mt True nl by (auto simp: runtime_flag_def)
          have "no_pass jv = msvc_codegen_of c (applyMSVCFlag iv s v)"
            using 2(4) msvc_codegen_of_other [OF s] False by simp
          from IH [OF this] show ?thesis using k mt True nl by simp
        next
          case kept: True
          have val: "fs_Value s \<in> {NoValue, JoinedValue}" using msvc_kept_value [OF s kept] by blast
          then have n: "n = 1" and any: "matchMSVCFlag a r = Some (s, v, 1)" for r
            using y Some by (auto simp: matchMSVCFlag_find msvc_yield_def)
          have k: "msvcKeepForPreprocessed (a # rest) = a # msvcKeepForPreprocessed rest"
            using mt True nl kept n by (auto simp: runtime_flag_def)
          have "no_pass (applyMSVCFlag jv s v) = msvc_codegen_of c (applyMSVCFlag iv s v)"
          proof (cases "codegen_category (fs_Category s)")
            case True
            then show ?thesis using msvc_codegen_of_apply [OF s _ 2(4)] by simp
          next
            case False
            then have "fs_Category s = CatPassthrough" using kept by (simp add: runtime_flag_def)
            then show ?thesis using msvc_pass_apply [OF s] msvc_codegen_of_other [OF s False] 2(4) by simp
          qed
          from IH [OF this] show ?thesis using k any [of rest] any [of "msvcKeepForPreprocessed rest"] True nl n by simp
        qed
      qed
    qed
  qed
qed

lemma keep_msvc_subset: "set (msvcKeepForPreprocessed args) \<subseteq> set args"
proof (induction args rule: msvcKeepForPreprocessed.induct)
  case (2 a rest)
  show ?case
  proof (cases "isMSVCFlag a")
    case False
    then show ?thesis using 2(1) by auto
  next
    case True
    then have nf: "\<not> \<not> isMSVCFlag a" by simp
    show ?thesis
    proof (cases "matchMSVCFlag a rest")
      case None
      then show ?thesis using 2(2) [OF nf None] True by auto
    next
      case (Some m)
      obtain s v n where m: "matchMSVCFlag a rest = Some (s, v, n)" using Some by (cases m) auto
      show ?thesis
      proof (cases "fs_Name s = ''/link''")
        case True
        then show ?thesis using m nf by simp
      next
        case False
        have "set (msvcKeepForPreprocessed (drop n (a # rest))) \<subseteq> set (a # rest)"
          using 2(3) [OF nf m refl refl False] set_drop_subset by (rule subset_trans)
        moreover have "set (take n (a # rest)) \<subseteq> set (a # rest)" by (rule set_take_subset)
        ultimately show ?thesis using nf m False by (simp split: if_splits) blast
      qed
    qed
  qed
qed simp

lemma msvc_head_flags:
  "matchMSVCFlag ''/c'' r = Some (flag ''/c'' NoValue CatMode, [], 1)"
  "matchMSVCFlag ''/nologo'' r = Some (flag ''/nologo'' NoValue CatPassthrough, [], 1)"
  "src \<noteq> [] \<Longrightarrow> \<not> HasPrefix src '':'' \<Longrightarrow>
     matchMSVCFlag (''/Tc'' @ src) r = Some (flag ''/Tc'' JoinedOrSeparate CatLanguage, src, 1)"
  "src \<noteq> [] \<Longrightarrow> \<not> HasPrefix src '':'' \<Longrightarrow>
     matchMSVCFlag (''/Tp'' @ src) r = Some (flag ''/Tp'' JoinedOrSeparate CatLanguage, src, 1)"
  "matchMSVCFlag (''/Fo:'' @ out) r = Some (flag ''/Fo'' JoinedValue CatOutput, out, 1)"
  by (simp_all add: matchMSVCFlag_find msvc_eval msvc_yield_def trimMSVCColon_def)

lemma parse_msvc_step:
  "isMSVCFlag a \<Longrightarrow> matchMSVCFlag a r = Some (s, v, 1) \<Longrightarrow> fs_Name s \<noteq> ''/link'' \<Longrightarrow>
   parse_msvc_loop iv (a # r) = parse_msvc_loop (applyMSVCFlag iv s v) r"
  by simp

lemma parse_msvc_RawArgs: "RawArgs (parse_msvc_loop iv args) = RawArgs iv"
proof (induction iv args rule: parse_msvc_loop.induct)
  case (2 iv a rest)
  have "RawArgs (applyFlag jv s v) = RawArgs jv" for jv s v
    by (cases "fs_Category s") (simp_all add: applyFlag_def apply_mode_def split_beta split: ValueMode.split)
  then have "RawArgs (applyMSVCFlag jv s v) = RawArgs jv" for jv s v
    by (simp add: applyMSVCFlag_def Let_def)
  then show ?case using 2 by (auto split: option.splits)
qed simp

lemma msvc_codegen_of_cong:
  "Std iv = Std jv \<Longrightarrow> Optim iv = Optim jv \<Longrightarrow> Debug iv = Debug jv \<Longrightarrow> Warnings iv = Warnings jv \<Longrightarrow>
   Features iv = Features jv \<Longrightarrow> Machine iv = Machine jv \<Longrightarrow> Unknown iv = Unknown jv \<Longrightarrow>
   msvc_codegen_of c iv = msvc_codegen_of c jv"
  by (simp add: msvc_codegen_of_def)

lemma reparse_msvc:
  assumes P: "ParseMSVC rd args = Inr iv" and out: "Output iv \<noteq> []"
    and src: "src \<noteq> []" "\<not> HasPrefix src '':''" and lf: "langFlag = ''/Tc'' \<or> langFlag = ''/Tp''"
  shows "\<exists>jv. ParseMSVC rd' (RawArgs (rewriteMSVCForPreprocessed iv src langFlag)) = Inr jv \<and>
              no_pass jv = rewriteMSVCForPreprocessed iv src langFlag"
proof -
  obtain ex where ex: "expandResponseFiles rd args 0 = Inr ex"
    and iv: "iv = inferDefaultOutput (default_mode (parse_msvc_loop (NewInvocation\<lparr> RawArgs := ex \<rparr>) ex)) ''.obj''"
    using P by (auto simp: ParseMSVC_def ebind_Inr_conv)
  have raw: "RawArgs iv = ex" by (simp add: iv parse_msvc_RawArgs)
  let ?keep = "msvcKeepForPreprocessed ex"
  let ?raw = "''/c'' # ''/nologo'' # (langFlag @ src) # (''/Fo:'' @ Output iv) # ?keep"
  let ?lang = "if langFlag = ''/Tp'' then ''c++'' else ''c''"
  let ?c = "NewInvocation\<lparr> Mode := CompileMode, Inputs := [src], Output := Output iv, Language := ?lang, RawArgs := ?raw \<rparr>"
  have "list_all (\<lambda>a. \<not> at_file a) ?raw"
    using expand_result [OF ex] keep_msvc_subset [of ex] lf by (auto simp: list_all_iff at_file_def)
  then have noop: "expandResponseFiles rd' ?raw 0 = Inr ?raw" by (rule expand_noop) simp
  have fl: "isMSVCFlag ''/c''" "isMSVCFlag ''/nologo''" "isMSVCFlag (''/Tc'' @ src)" "isMSVCFlag (''/Tp'' @ src)"
    "isMSVCFlag (''/Fo:'' @ o')" for o' by (simp_all add: isMSVCFlag_def)
  let ?h = "?c\<lparr> Passthrough := [''/nologo''] \<rparr>"
  have lang: "matchMSVCFlag (langFlag @ src) r = Some (flag langFlag JoinedOrSeparate CatLanguage, src, 1)"
    "isMSVCFlag (langFlag @ src)" for r
    using lf msvc_head_flags(3,4) [OF src] fl by auto
  have ap: "applyMSVCFlag iv' (flag langFlag JoinedOrSeparate CatLanguage) src =
      iv'\<lparr> Language := ?lang, Inputs := Inputs iv' @ [src] \<rparr>" for iv'
    using lf by (auto simp: applyMSVCFlag_def flag_def)
  have ap': "applyMSVCFlag iv' (flag ''/c'' NoValue CatMode) [] = iv'\<lparr> Mode := CompileMode \<rparr>"
    "applyMSVCFlag iv' (flag ''/nologo'' NoValue CatPassthrough) [] = iv'\<lparr> Passthrough := Passthrough iv' @ [''/nologo''] \<rparr>"
    "applyMSVCFlag iv' (flag ''/Fo'' JoinedValue CatOutput) o' = iv'\<lparr> Output := o' \<rparr>" for iv' o'
    by (simp_all add: applyMSVCFlag_def applyFlag_def flag_def)
  have steps: "parse_msvc_loop iv' (''/c'' # r) = parse_msvc_loop (iv'\<lparr> Mode := CompileMode \<rparr>) r"
    "parse_msvc_loop iv' (''/nologo'' # r) = parse_msvc_loop (iv'\<lparr> Passthrough := Passthrough iv' @ [''/nologo''] \<rparr>) r"
    "parse_msvc_loop iv' ((langFlag @ src) # r) =
       parse_msvc_loop (iv'\<lparr> Language := ?lang, Inputs := Inputs iv' @ [src] \<rparr>) r"
    "parse_msvc_loop iv' ((''/Fo:'' @ o') # r) = parse_msvc_loop (iv'\<lparr> Output := o' \<rparr>) r" for iv' r o'
    using parse_msvc_step [OF fl(1) msvc_head_flags(1)] parse_msvc_step [OF fl(2) msvc_head_flags(2)]
      parse_msvc_step [OF lang(2,1)] parse_msvc_step [OF fl(5) msvc_head_flags(5)] lf
    by (simp_all only: ap ap') (auto simp: flag_def)
  have head: "parse_msvc_loop (NewInvocation\<lparr> RawArgs := ?raw \<rparr>) ?raw = parse_msvc_loop ?h ?keep"
    by (simp only: steps) (simp add: NewInvocation_def)
  have "no_pass ?h = msvc_codegen_of ?c (NewInvocation\<lparr> RawArgs := ex \<rparr>)"
    by (simp add: msvc_codegen_of_def NewInvocation_def)
  from parse_keep_msvc [OF this, of ex]
  have "no_pass (parse_msvc_loop ?h ?keep) = msvc_codegen_of ?c (parse_msvc_loop (NewInvocation\<lparr> RawArgs := ex \<rparr>) ex)" .
  also have "\<dots> = msvc_codegen_of ?c iv" unfolding iv by (rule msvc_codegen_of_cong) simp_all
  also have "\<dots> = rewriteMSVCForPreprocessed iv src langFlag"
    using out raw by (simp add: msvc_codegen_of_def rewriteMSVCForPreprocessed_def NewInvocation_def)
  finally have np: "no_pass (parse_msvc_loop ?h ?keep) = rewriteMSVCForPreprocessed iv src langFlag" .
  have o: "Output (parse_msvc_loop ?h ?keep) \<noteq> []" "Mode (parse_msvc_loop ?h ?keep) = CompileMode"
    using arg_cong [OF np, of Output] arg_cong [OF np, of Mode] out by (simp_all add: rewriteMSVCForPreprocessed_def)
  have "ParseMSVC rd' ?raw = Inr (parse_msvc_loop ?h ?keep)"
    using noop head o by (simp add: ParseMSVC_def default_mode_id infer_id)
  moreover have "RawArgs (rewriteMSVCForPreprocessed iv src langFlag) = ?raw"
    using out raw by (simp add: rewriteMSVCForPreprocessed_def)
  ultimately show ?thesis using np by auto
qed

end
