(* ===== verification/Compiler_Manifest.thy ===== *)
theory Compiler_Manifest
  imports Compiler_Rewrite "HOL-Library.Multiset"
begin

text \<open>
  \<^verbatim>\<open>manifest.go\<close>: project-root discovery, path normalisation, the closure of assembler
  includes, and the source-closure manifest with its digest.  The file system is a parameter:
  \<open>rd\<close> gives a path's content (None when it cannot be opened), \<open>ex\<close> tells whether
  \<^verbatim>\<open>os.Stat\<close> succeeds, \<open>wd\<close> is the process's working directory.  BLAKE3 is the parameter \<open>H\<close>.
  A loop that could run forever is a \<^verbatim>\<open>partial_function\<close>: None is non-termination.
\<close>

datatype comp_err =
    EParse parse_err | ENoInputs | EFindDeps comp_err | EOpen string | EUNC string string
  | ENormalize string comp_err | ERun string | EExit int bytes | EReadOutput string
  | ELookPath string | EReadBinary string | EIdentity comp_err | EDiverge

section \<open>filepath.Abs and filepath.Rel\<close>

definition Abs :: "string option \<Rightarrow> string \<Rightarrow> string option" where
  "Abs wd p = (if IsAbs p then Some (Clean p) else map_option (\<lambda>d. Join [d, p]) wd)"

text \<open>The components of a cleaned path.\<close>

definition path_comps :: "string \<Rightarrow> string list" where
  "path_comps p = (if p = ''.'' then [] else filter (\<lambda>c. c \<noteq> []) (Split p slash))"

fun strip_common :: "string list \<Rightarrow> string list \<Rightarrow> string list \<times> string list" where
  "strip_common (b # bs) (t # ts) = (if b = t then strip_common bs ts else (b # bs, t # ts))"
| "strip_common bs ts = (bs, ts)"

definition Rel :: "string \<Rightarrow> string \<Rightarrow> string option" where
  "Rel basepath targpath =
     (let base = Clean basepath; targ = Clean targpath in
      if targ = base then Some ''.''
      else if IsAbs base \<noteq> IsAbs targ then None
      else case strip_common (path_comps base) (path_comps targ) of (up, ts) \<Rightarrow>
             if up \<noteq> [] \<and> hd up = ''..'' then None
             else Some (join slash (replicate (length up) ''..'' @ ts)))"

section \<open>The project root\<close>

definition projectMarkerFile :: string where "projectMarkerFile = ''.hpcc''"

partial_function (option) find_root_loop :: "(string \<Rightarrow> bool) \<Rightarrow> string \<Rightarrow> string option" where
  "find_root_loop ex dir =
     (if ex (Join [dir, projectMarkerFile]) then Some dir
      else let parent = Dir dir in
           if parent = dir then Some [] else find_root_loop ex parent)"

definition FindProjectRoot :: "(string \<Rightarrow> bool) \<Rightarrow> string option \<Rightarrow> string \<Rightarrow> string option" where
  "FindProjectRoot ex wd startDir =
     (case Abs wd startDir of None \<Rightarrow> Some [] | Some dir \<Rightarrow> find_root_loop ex dir)"

section \<open>Path normalisation\<close>

abbreviation backslash :: char where "backslash \<equiv> CHR 0x5C"

definition stripExtendedLengthPrefix :: "string \<Rightarrow> string" where
  "stripExtendedLengthPrefix p =
     (let prefix = [backslash, backslash, CHR ''?'', backslash];
          uncPrefix = prefix @ ''UNC'' @ [backslash]
      in if HasPrefix p uncPrefix then [backslash, backslash] @ drop (length uncPrefix) p
         else if HasPrefix p prefix then drop (length prefix) p
         else p)"

definition rejectUNC :: "string \<Rightarrow> string \<Rightarrow> comp_err option" where
  "rejectUNC p what =
     (let stripped = stripExtendedLengthPrefix p in
      if \<not> HasPrefix stripped [backslash, backslash] then None
      else if HasPrefix stripped [backslash, backslash, CHR ''?'', backslash] then None
      else Some (EUNC what p))"

definition normalizeManifestPath :: "string option \<Rightarrow> string \<Rightarrow> string \<Rightarrow> comp_err + string" where
  "normalizeManifestPath wd p projectRoot =
     (case rejectUNC p ''input path'' of
        Some e \<Rightarrow> Inl e
      | None \<Rightarrow>
          if projectRoot = [] then Inr p
          else case Abs wd p of
                 None \<Rightarrow> Inr p
               | Some a \<Rightarrow>
                   (let absP = stripExtendedLengthPrefix a;
                        root = stripExtendedLengthPrefix projectRoot
                    in case rejectUNC absP ''input path'' of
                         Some e \<Rightarrow> Inl e
                       | None \<Rightarrow>
                           (case rejectUNC root ''project root'' of
                              Some e \<Rightarrow> Inl e
                            | None \<Rightarrow>
                                (case Rel root absP of
                                   None \<Rightarrow> Inr p
                                 | Some rel \<Rightarrow>
                                     if rel = ''..'' \<or> HasPrefix rel ''../'' then Inr p else Inr rel))))"

section \<open>Assembler includes\<close>

definition isAssemblySource :: "string \<Rightarrow> bool" where
  "isAssemblySource p = (Ext p = ''.s'' \<or> Ext p = ''.S'')"

record assemblyIncludes =
  Incbin :: "string list"
  Include :: "string list"

definition blank :: "char \<Rightarrow> bool" where "blank c = (c = CHR '' '' \<or> c = CHR 0x09)"

text \<open>
  The regular expression \<^verbatim>\<open>(?m)^[ \t]*\.(incbin|include)[ \t]+"([^"]+)"\<close> matched at the start of a
  line: the directive, the quoted text and what follows the match.
\<close>

definition match_quoted :: "string \<Rightarrow> (string \<times> string) option" where
  "match_quoted s =
     (let r = dropWhile blank s in
      if s = [] \<or> \<not> blank (hd s) then None
      else if r = [] \<or> hd r \<noteq> CHR 0x22 then None
      else let body = takeWhile (\<lambda>c. c \<noteq> CHR 0x22) (tl r);
               after = dropWhile (\<lambda>c. c \<noteq> CHR 0x22) (tl r)
           in if body = [] \<or> after = [] then None else Some (body, tl after))"

definition match_directive :: "string \<Rightarrow> (string \<times> string \<times> string) option" where
  "match_directive s =
     (let r = dropWhile blank s in
      if HasPrefix r ''.incbin'' then
        map_option (\<lambda>(p, rest). (''incbin'', p, rest)) (match_quoted (drop 7 r))
      else if HasPrefix r ''.include'' then
        map_option (\<lambda>(p, rest). (''include'', p, rest)) (match_quoted (drop 8 r))
      else None)"

lemma match_quoted_shorter: "match_quoted s = Some (p, rest) \<Longrightarrow> length rest < length s"
proof -
  assume m: "match_quoted s = Some (p, rest)"
  define r where "r = dropWhile blank s"
  have "rest = tl (dropWhile (\<lambda>c. c \<noteq> CHR 0x22) (tl r))" "r \<noteq> []"
    using m by (auto simp: match_quoted_def Let_def r_def split: if_splits)
  moreover have "length (dropWhile (\<lambda>c. c \<noteq> CHR 0x22) (tl r)) \<le> length (tl r)"
    by (rule length_dropWhile_le)
  moreover have "length r \<le> length s" unfolding r_def by (rule length_dropWhile_le)
  moreover have "0 < length r" using \<open>r \<noteq> []\<close> by simp
  ultimately show ?thesis by (simp only: length_tl)
qed

lemma match_directive_shorter: "match_directive s = Some (d, p, rest) \<Longrightarrow> length rest < length s"
proof -
  assume m: "match_directive s = Some (d, p, rest)"
  define r where "r = dropWhile blank s"
  have le: "length r \<le> length s" unfolding r_def by (rule length_dropWhile_le)
  have "match_quoted (drop 7 r) = Some (p, rest) \<or> match_quoted (drop 8 r) = Some (p, rest)"
    using m by (auto simp: match_directive_def Let_def r_def split: if_splits)
  then have "length rest < length (drop 7 r) \<or> length rest < length (drop 8 r)"
    using match_quoted_shorter by blast
  then show ?thesis using le by auto
qed

text \<open>\<^verbatim>\<open>FindAllSubmatch\<close>: \<open>bol\<close> tells whether the current position starts a line.\<close>

function scan_directives :: "bool \<Rightarrow> string \<Rightarrow> (string \<times> string) list" where
  "scan_directives bol [] = []"
| "scan_directives bol (c # s) =
     (case (if bol then match_directive (c # s) else None) of
        Some (d, p, rest) \<Rightarrow> (d, p) # scan_directives False rest
      | None \<Rightarrow> scan_directives (c = CHR 0x0A) s)"
  by pat_completeness auto
termination
  by (relation "measure (\<lambda>(_, s). length s)")
     (auto split: if_splits dest: match_directive_shorter)

definition scanAssemblyIncludes :: "(string \<Rightarrow> bytes option) \<Rightarrow> string \<Rightarrow> assemblyIncludes option" where
  "scanAssemblyIncludes rd filePath =
     map_option (\<lambda>data.
       let ms = scan_directives True data in
       \<lparr> Incbin = map snd (filter (\<lambda>m. fst m = ''incbin'') ms),
         Include = map snd (filter (\<lambda>m. fst m = ''include'') ms) \<rparr>) (rd filePath)"

definition resolve :: "string \<Rightarrow> string \<Rightarrow> string" where
  "resolve cwd p = (if IsAbs p \<or> cwd = [] then p else Join [cwd, p])"

text \<open>The state of the walk: paths opened so far, paths already returned, the queue, the result.\<close>

record closure_state =
  cs_scanned :: "string set"
  cs_emitted :: "string set"
  cs_queue :: "string list"
  cs_out :: "string list"

definition enqueue :: "string \<Rightarrow> closure_state \<Rightarrow> closure_state" where
  "enqueue a st =
     (if a \<in> cs_scanned st then st
      else st\<lparr> cs_scanned := insert a (cs_scanned st), cs_queue := cs_queue st @ [a] \<rparr>)"

definition emit_incbin :: "string \<Rightarrow> string \<Rightarrow> closure_state \<Rightarrow> closure_state" where
  "emit_incbin cwd p st =
     (let a = resolve cwd p in
      if a \<in> cs_emitted st then st
      else st\<lparr> cs_emitted := insert a (cs_emitted st), cs_out := cs_out st @ [p] \<rparr>)"

definition emit_include :: "string \<Rightarrow> string \<Rightarrow> closure_state \<Rightarrow> closure_state" where
  "emit_include cwd p st = enqueue (resolve cwd p) (emit_incbin cwd p st)"

definition closure_step :: "string \<Rightarrow> assemblyIncludes \<Rightarrow> closure_state \<Rightarrow> closure_state" where
  "closure_step cwd incs st = fold (emit_include cwd) (Include incs) (fold (emit_incbin cwd) (Incbin incs) st)"

partial_function (option) closure_loop ::
  "(string \<Rightarrow> bytes option) \<Rightarrow> string \<Rightarrow> closure_state \<Rightarrow> closure_state option" where
  "closure_loop rd cwd st =
     (case cs_queue st of
        [] \<Rightarrow> Some st
      | cur # queue \<Rightarrow>
          (case scanAssemblyIncludes rd cur of
             None \<Rightarrow> closure_loop rd cwd (st\<lparr> cs_queue := queue \<rparr>)
           | Some incs \<Rightarrow> closure_loop rd cwd (closure_step cwd incs (st\<lparr> cs_queue := queue \<rparr>))))"

definition closure_start :: "string \<Rightarrow> string list \<Rightarrow> string \<Rightarrow> closure_state" where
  "closure_start rootAbs cppDeps cwd =
     fold (\<lambda>d. enqueue (resolve cwd d)) cppDeps
       (enqueue rootAbs \<lparr> cs_scanned = {}, cs_emitted = {}, cs_queue = [], cs_out = [] \<rparr>)"

definition scanAssemblyClosure ::
  "(string \<Rightarrow> bytes option) \<Rightarrow> string \<Rightarrow> string list \<Rightarrow> string \<Rightarrow> string list option" where
  "scanAssemblyClosure rd rootAbs cppDeps cwd =
     map_option cs_out (closure_loop rd cwd (closure_start rootAbs cppDeps cwd))"

section \<open>The manifest\<close>

record BlobRef =
  br_Path :: string
  br_Digest :: bytes
  br_Size :: int

record Manifest =
  mf_Digest :: bytes
  mf_Blobs :: "BlobRef list"

definition hashFileBlob :: "(bytes \<Rightarrow> bytes) \<Rightarrow> (string \<Rightarrow> bytes option) \<Rightarrow> string \<Rightarrow> comp_err + BlobRef" where
  "hashFileBlob H rd path =
     (case rd path of
        None \<Rightarrow> Inl (EOpen path)
      | Some data \<Rightarrow> Inr \<lparr> br_Path = path, br_Digest = H data, br_Size = int (length data) \<rparr>)"

definition asciiLower :: "string \<Rightarrow> string" where
  "asciiLower s =
     (let upper = (\<lambda>c. CHR ''A'' \<le> c \<and> c \<le> CHR ''Z'') in
      if \<not> list_ex upper s then s
      else map (\<lambda>c. if upper c then char_of (of_char c + (of_char CHR ''a'' - of_char CHR ''A'') :: nat) else c) s)"

definition blob_bytes :: "BlobRef \<Rightarrow> bytes" where
  "blob_bytes b =
     (let folded = asciiLower (br_Path b)
      in BEPutUint64 (of_nat (length folded)) @ folded @ br_Digest b)"

definition AggregateManifestDigest :: "(bytes \<Rightarrow> bytes) \<Rightarrow> BlobRef list \<Rightarrow> bytes" where
  "AggregateManifestDigest H blobs = H (concat (map blob_bytes blobs))"

definition in_cwd :: "Invocation \<Rightarrow> string \<Rightarrow> string" where
  "in_cwd iv p = (if \<not> IsAbs p \<and> Cwd iv \<noteq> [] then Join [Cwd iv, p] else p)"

text \<open>Dependencies with the assembler closure of every assembly input appended, input by input.\<close>

fun asm_deps ::
  "(string \<Rightarrow> bytes option) \<Rightarrow> Invocation \<Rightarrow> string list \<Rightarrow> string list \<Rightarrow> comp_err + string list" where
  "asm_deps rd iv [] deps = Inr deps"
| "asm_deps rd iv (i # is) deps =
     (if \<not> isAssemblySource i then asm_deps rd iv is deps
      else case scanAssemblyClosure rd (in_cwd iv i) deps (Cwd iv) of
             None \<Rightarrow> Inl EDiverge
           | Some found \<Rightarrow> asm_deps rd iv is (deps @ found))"

fun dedup :: "string list \<Rightarrow> string list \<Rightarrow> string list" where
  "dedup [] paths = paths"
| "dedup (p # ps) paths = dedup ps (if p \<in> set paths then paths else paths @ [p])"

definition make_blob ::
  "(bytes \<Rightarrow> bytes) \<Rightarrow> (string \<Rightarrow> bytes option) \<Rightarrow> string option \<Rightarrow> Invocation \<Rightarrow> string \<Rightarrow> string \<Rightarrow> comp_err + BlobRef" where
  "make_blob H rd wd iv projectRoot p =
     (let full = in_cwd iv p in
      ebind (hashFileBlob H rd full) (\<lambda>ref.
        case normalizeManifestPath wd full projectRoot of
          Inl e \<Rightarrow> Inl (ENormalize full e)
        | Inr normalized \<Rightarrow> Inr (ref\<lparr> br_Path := normalized \<rparr>)))"

fun make_blobs ::
  "(bytes \<Rightarrow> bytes) \<Rightarrow> (string \<Rightarrow> bytes option) \<Rightarrow> string option \<Rightarrow> Invocation \<Rightarrow> string \<Rightarrow> string list \<Rightarrow> comp_err + BlobRef list" where
  "make_blobs H rd wd iv projectRoot [] = Inr []"
| "make_blobs H rd wd iv projectRoot (p # ps) =
     ebind (make_blob H rd wd iv projectRoot p) (\<lambda>b.
     ebind (make_blobs H rd wd iv projectRoot ps) (\<lambda>bs. Inr (b # bs)))"

definition BuildManifest ::
  "(bytes \<Rightarrow> bytes) \<Rightarrow> (string \<Rightarrow> bytes option) \<Rightarrow> (string \<Rightarrow> bool) \<Rightarrow> string option \<Rightarrow>
   (Invocation \<Rightarrow> comp_err + string list) \<Rightarrow> Invocation \<Rightarrow> comp_err + Manifest" where
  "BuildManifest H rd ex wd findDeps iv =
     (if Inputs iv = [] then Inl ENoInputs
      else case findDeps iv of
             Inl e \<Rightarrow> Inl (EFindDeps e)
           | Inr deps0 \<Rightarrow>
               ebind (asm_deps rd iv (Inputs iv) deps0) (\<lambda>deps.
                 case (if Cwd iv \<noteq> [] then FindProjectRoot ex wd (Cwd iv) else Some []) of
                   None \<Rightarrow> Inl EDiverge
                 | Some projectRoot \<Rightarrow>
                     ebind (make_blobs H rd wd iv projectRoot (dedup deps (dedup (Inputs iv) [])))
                       (\<lambda>bs. let blobs = sort_key br_Path bs
                             in Inr \<lparr> mf_Digest = AggregateManifestDigest H blobs, mf_Blobs = blobs \<rparr>)))"

section \<open>The assembler closure is complete\<close>

inductive asm_reach :: "(string \<Rightarrow> bytes option) \<Rightarrow> string \<Rightarrow> string set \<Rightarrow> string \<Rightarrow> bool"
  for rd cwd roots where
  asm_root: "r \<in> roots \<Longrightarrow> asm_reach rd cwd roots r"
| asm_include: "asm_reach rd cwd roots f \<Longrightarrow> scanAssemblyIncludes rd f = Some incs \<Longrightarrow>
     p \<in> set (Include incs) \<Longrightarrow> asm_reach rd cwd roots (resolve cwd p)"

text \<open>The files named by a directive of a reachable file.\<close>

definition asm_referenced :: "(string \<Rightarrow> bytes option) \<Rightarrow> string \<Rightarrow> string set \<Rightarrow> string set" where
  "asm_referenced rd cwd roots =
     {resolve cwd p | p f incs. asm_reach rd cwd roots f \<and> scanAssemblyIncludes rd f = Some incs \<and>
        (p \<in> set (Incbin incs) \<or> p \<in> set (Include incs))}"

definition covered :: "(string \<Rightarrow> bytes option) \<Rightarrow> string \<Rightarrow> closure_state \<Rightarrow> string \<Rightarrow> bool" where
  "covered rd cwd st f \<longleftrightarrow>
     (\<forall>incs. scanAssemblyIncludes rd f = Some incs \<longrightarrow>
        resolve cwd ` (set (Incbin incs) \<union> set (Include incs)) \<subseteq> cs_emitted st \<and>
        resolve cwd ` set (Include incs) \<subseteq> cs_scanned st)"

definition queue_ok :: "closure_state \<Rightarrow> bool" where
  "queue_ok st \<longleftrightarrow> distinct (cs_queue st) \<and> set (cs_queue st) \<subseteq> cs_scanned st"

definition out_ok :: "string \<Rightarrow> closure_state \<Rightarrow> bool" where
  "out_ok cwd st \<longleftrightarrow> cs_emitted st = resolve cwd ` set (cs_out st) \<and> distinct (map (resolve cwd) (cs_out st))"

definition closure_inv :: "(string \<Rightarrow> bytes option) \<Rightarrow> string \<Rightarrow> string set \<Rightarrow> closure_state \<Rightarrow> bool" where
  "closure_inv rd cwd roots st \<longleftrightarrow>
     queue_ok st \<and> out_ok cwd st \<and> roots \<subseteq> cs_scanned st \<and>
     (\<forall>f \<in> cs_scanned st. asm_reach rd cwd roots f) \<and>
     cs_emitted st \<subseteq> asm_referenced rd cwd roots \<and>
     (\<forall>f \<in> cs_scanned st - set (cs_queue st). covered rd cwd st f)"

lemma enqueue_simps [simp]:
  "cs_scanned (enqueue a st) = insert a (cs_scanned st)" "cs_emitted (enqueue a st) = cs_emitted st"
  "cs_out (enqueue a st) = cs_out st" "set (cs_queue (enqueue a st)) = set (cs_queue st) \<union> ({a} - cs_scanned st)"
  by (auto simp: enqueue_def)

lemma enqueue_ok: "queue_ok st \<Longrightarrow> queue_ok (enqueue a st)"
  by (auto simp: queue_ok_def enqueue_def)

lemma emit_incbin_simps [simp]:
  "cs_scanned (emit_incbin cwd p st) = cs_scanned st" "cs_queue (emit_incbin cwd p st) = cs_queue st"
  "cs_emitted (emit_incbin cwd p st) = insert (resolve cwd p) (cs_emitted st)"
  by (auto simp: emit_incbin_def Let_def)

lemma emit_incbin_ok: "out_ok cwd st \<Longrightarrow> out_ok cwd (emit_incbin cwd p st)"
  by (auto simp: out_ok_def emit_incbin_def Let_def)

lemma out_ok_enqueue: "out_ok cwd (enqueue a st) = out_ok cwd st"
  by (simp add: out_ok_def)

lemma queue_ok_incbin: "queue_ok (emit_incbin cwd p st) = queue_ok st"
  by (simp add: queue_ok_def)

lemma fold_incbin:
  "cs_scanned (fold (emit_incbin cwd) ps st) = cs_scanned st \<and> cs_queue (fold (emit_incbin cwd) ps st) = cs_queue st \<and>
   cs_emitted (fold (emit_incbin cwd) ps st) = cs_emitted st \<union> resolve cwd ` set ps \<and>
   (queue_ok st \<longrightarrow> queue_ok (fold (emit_incbin cwd) ps st)) \<and> (out_ok cwd st \<longrightarrow> out_ok cwd (fold (emit_incbin cwd) ps st))"
  by (induction ps arbitrary: st) (auto simp: emit_incbin_ok queue_ok_incbin)

lemma fold_include:
  "cs_scanned (fold (emit_include cwd) ps st) = cs_scanned st \<union> resolve cwd ` set ps \<and>
   set (cs_queue (fold (emit_include cwd) ps st)) = set (cs_queue st) \<union> (resolve cwd ` set ps - cs_scanned st) \<and>
   cs_emitted (fold (emit_include cwd) ps st) = cs_emitted st \<union> resolve cwd ` set ps \<and>
   (queue_ok st \<longrightarrow> queue_ok (fold (emit_include cwd) ps st)) \<and> (out_ok cwd st \<longrightarrow> out_ok cwd (fold (emit_include cwd) ps st))"
proof (induction ps arbitrary: st)
  case (Cons p ps)
  show ?case
    using Cons [of "emit_include cwd p st"]
    by (auto simp: emit_include_def enqueue_ok queue_ok_incbin out_ok_enqueue emit_incbin_ok)
qed simp

lemma closure_step_effect:
  fixes st :: closure_state and cwd :: string and incs :: assemblyIncludes
  defines "st' \<equiv> closure_step cwd incs st"
  shows "cs_scanned st' = cs_scanned st \<union> resolve cwd ` set (Include incs)"
    and "set (cs_queue st') = set (cs_queue st) \<union> (resolve cwd ` set (Include incs) - cs_scanned st)"
    and "cs_emitted st' = cs_emitted st \<union> resolve cwd ` (set (Incbin incs) \<union> set (Include incs))"
    and "queue_ok st \<Longrightarrow> queue_ok st'" and "out_ok cwd st \<Longrightarrow> out_ok cwd st'"
  using fold_incbin [of cwd "Incbin incs" st] fold_include [of cwd "Include incs" "fold (emit_incbin cwd) (Incbin incs) st"]
  by (auto simp: st'_def closure_step_def)

lemma covered_mono:
  "covered rd cwd st f \<Longrightarrow> cs_emitted st \<subseteq> cs_emitted st' \<Longrightarrow> cs_scanned st \<subseteq> cs_scanned st' \<Longrightarrow> covered rd cwd st' f"
  unfolding covered_def by blast

lemma closure_inv_unreadable:
  assumes "closure_inv rd cwd roots st" "cs_queue st = cur # q" "scanAssemblyIncludes rd cur = None"
  shows "closure_inv rd cwd roots (st\<lparr> cs_queue := q \<rparr>)"
proof -
  have "covered rd cwd (st\<lparr> cs_queue := q \<rparr>) f" if "f \<in> cs_scanned st - set q" for f
  proof (cases "f = cur")
    case True
    then show ?thesis using assms(3) by (simp add: covered_def)
  next
    case False
    then have "covered rd cwd st f" using that assms(1,2) by (simp add: closure_inv_def)
    then show ?thesis by (simp add: covered_def)
  qed
  then show ?thesis using assms(1,2) by (auto simp: closure_inv_def queue_ok_def out_ok_def)
qed

lemma closure_inv_step:
  assumes inv: "closure_inv rd cwd roots st" and q: "cs_queue st = cur # q"
    and incs: "scanAssemblyIncludes rd cur = Some incs"
  shows "closure_inv rd cwd roots (closure_step cwd incs (st\<lparr> cs_queue := q \<rparr>))"
proof -
  let ?st = "st\<lparr> cs_queue := q \<rparr>"
  let ?st' = "closure_step cwd incs ?st"
  note e = closure_step_effect [where cwd = cwd and incs = incs and st = ?st]
  have reach: "asm_reach rd cwd roots cur" using inv q by (auto simp: closure_inv_def queue_ok_def)
  have "queue_ok ?st" "out_ok cwd ?st" using inv q by (auto simp: closure_inv_def queue_ok_def out_ok_def)
  then have ok: "queue_ok ?st'" "out_ok cwd ?st'" using e(4,5) by simp_all
  moreover have "roots \<subseteq> cs_scanned ?st'" using e(1) inv by (auto simp: closure_inv_def)
  moreover have "\<forall>f \<in> cs_scanned ?st'. asm_reach rd cwd roots f"
    using e(1) inv asm_include [OF reach incs] by (auto simp: closure_inv_def)
  moreover have "cs_emitted ?st' \<subseteq> asm_referenced rd cwd roots"
    using e(3) inv reach incs by (auto simp: closure_inv_def asm_referenced_def)
  moreover have "covered rd cwd ?st' f" if f: "f \<in> cs_scanned ?st' - set (cs_queue ?st')" for f
  proof (cases "f = cur")
    case True
    then show ?thesis using incs e(1,3) by (auto simp: covered_def)
  next
    case False
    have "f \<in> cs_scanned st - set (cs_queue st)" using f e(1,2) q False by auto
    then have "covered rd cwd st f" using inv by (simp add: closure_inv_def)
    then show ?thesis by (rule covered_mono) (use e(1,3) in auto)
  qed
  ultimately show ?thesis by (simp add: closure_inv_def)
qed

definition unread :: "(string \<Rightarrow> bytes option) \<Rightarrow> closure_state \<Rightarrow> string set" where
  "unread rd st = {p. rd p \<noteq> None} \<inter> (- cs_scanned st \<union> set (cs_queue st))"

lemma closure_loop_returns:
  assumes fin: "finite {p. rd p \<noteq> None}"
  shows "closure_inv rd cwd roots st \<Longrightarrow>
    \<exists>st'. closure_loop rd cwd st = Some st' \<and> closure_inv rd cwd roots st' \<and> cs_queue st' = []"
proof (induction st rule: wf_induct [of "measures [\<lambda>st. card (unread rd st), \<lambda>st. length (cs_queue st)]"])
  case 1
  show ?case by simp
next
  case (2 st)
  note IH = 2(1) [rule_format] and inv = 2(2)
  show ?case
  proof (cases "cs_queue st")
    case Nil
    then show ?thesis using inv by (subst closure_loop.simps) simp
  next
    case (Cons cur q)
    have fin': "finite (unread rd st')" for st' using fin by (simp add: unread_def)
    show ?thesis
    proof (cases "scanAssemblyIncludes rd cur")
      case None
      let ?st' = "st\<lparr> cs_queue := q \<rparr>"
      have "unread rd ?st' \<subseteq> unread rd st" using Cons by (auto simp: unread_def)
      then have "card (unread rd ?st') \<le> card (unread rd st)" by (rule card_mono [OF fin'])
      then have "(?st', st) \<in> measures [\<lambda>st. card (unread rd st), \<lambda>st. length (cs_queue st)]"
        using Cons by auto
      from IH [OF this closure_inv_unreadable [OF inv Cons None]] show ?thesis
        using Cons None by (subst closure_loop.simps) simp
    next
      case (Some incs)
      let ?st' = "closure_step cwd incs (st\<lparr> cs_queue := q \<rparr>)"
      note e = closure_step_effect [where cwd = cwd and incs = incs and st = "st\<lparr> cs_queue := q \<rparr>"]
      have rd: "rd cur \<noteq> None" using Some by (auto simp: scanAssemblyIncludes_def)
      have cur: "cur \<in> cs_scanned st" "cur \<notin> set q" using inv Cons by (auto simp: closure_inv_def queue_ok_def)
      have "unread rd ?st' \<subseteq> unread rd st - {cur}" using e(1,2) cur Cons by (auto simp: unread_def)
      moreover have "cur \<in> unread rd st" using rd Cons by (simp add: unread_def)
      ultimately have "unread rd ?st' \<subset> unread rd st" by blast
      then have "card (unread rd ?st') < card (unread rd st)" by (rule psubset_card_mono [OF fin'])
      then have "(?st', st) \<in> measures [\<lambda>st. card (unread rd st), \<lambda>st. length (cs_queue st)]" by simp
      from IH [OF this closure_inv_step [OF inv Cons Some]] show ?thesis
        using Cons Some by (subst closure_loop.simps) simp
    qed
  qed
qed

lemma closure_done:
  assumes "closure_inv rd cwd roots st" "cs_queue st = []"
  shows "resolve cwd ` set (cs_out st) = asm_referenced rd cwd roots"
proof -
  have cov: "\<forall>f \<in> cs_scanned st. covered rd cwd st f" using assms by (simp add: closure_inv_def)
  have "f \<in> cs_scanned st" if "asm_reach rd cwd roots f" for f
    using that
  proof induction
    case (asm_root r)
    then show ?case using assms(1) by (auto simp: closure_inv_def)
  next
    case (asm_include f incs p)
    then have "resolve cwd ` set (Include incs) \<subseteq> cs_scanned st" using cov unfolding covered_def by blast
    then show ?case using asm_include(3) by blast
  qed
  then have "asm_referenced rd cwd roots \<subseteq> cs_emitted st"
    using cov by (fastforce simp: asm_referenced_def covered_def)
  then show ?thesis using assms by (auto simp: closure_inv_def out_ok_def)
qed

lemma closure_start_inv:
  "closure_inv rd cwd (insert rootAbs (resolve cwd ` set cppDeps)) (closure_start rootAbs cppDeps cwd)"
proof -
  let ?r = "insert rootAbs (resolve cwd ` set cppDeps)"
  have "cs_scanned (fold (\<lambda>d. enqueue (resolve cwd d)) ds st) = cs_scanned st \<union> resolve cwd ` set ds \<and>
        (set (cs_queue st) = cs_scanned st \<longrightarrow>
           set (cs_queue (fold (\<lambda>d. enqueue (resolve cwd d)) ds st)) = cs_scanned st \<union> resolve cwd ` set ds) \<and>
        cs_emitted (fold (\<lambda>d. enqueue (resolve cwd d)) ds st) = cs_emitted st \<and>
        cs_out (fold (\<lambda>d. enqueue (resolve cwd d)) ds st) = cs_out st \<and>
        (queue_ok st \<longrightarrow> queue_ok (fold (\<lambda>d. enqueue (resolve cwd d)) ds st))" for ds st
    by (induction ds arbitrary: st) (auto simp: enqueue_ok)
  note f = this [of cppDeps "enqueue rootAbs \<lparr> cs_scanned = {}, cs_emitted = {}, cs_queue = [], cs_out = [] \<rparr>"]
  have "queue_ok (enqueue rootAbs \<lparr> cs_scanned = {}, cs_emitted = {}, cs_queue = [], cs_out = [] \<rparr>)"
    by (rule enqueue_ok) (simp add: queue_ok_def)
  then show ?thesis
    using f unfolding closure_start_def closure_inv_def
    by (auto simp: out_ok_def intro: asm_root)
qed

lemma scanAssemblyClosure_complete:
  assumes "finite {p. rd p \<noteq> None}"
  shows "\<exists>out. scanAssemblyClosure rd rootAbs cppDeps cwd = Some out \<and>
      resolve cwd ` set out = asm_referenced rd cwd (insert rootAbs (resolve cwd ` set cppDeps)) \<and>
      distinct (map (resolve cwd) out)"
proof -
  obtain st where st: "closure_loop rd cwd (closure_start rootAbs cppDeps cwd) = Some st"
    "closure_inv rd cwd (insert rootAbs (resolve cwd ` set cppDeps)) st" "cs_queue st = []"
    using closure_loop_returns [OF assms closure_start_inv] by blast
  moreover have "distinct (map (resolve cwd) (cs_out st))" using st(2) by (simp add: closure_inv_def out_ok_def)
  ultimately show ?thesis using closure_done [OF st(2,3)] by (simp add: scanAssemblyClosure_def)
qed

section \<open>The project root is the nearest marked ancestor\<close>

definition marked :: "(string \<Rightarrow> bool) \<Rightarrow> string list \<Rightarrow> bool" where
  "marked ex cs = ex (Join [abs_path cs, projectMarkerFile])"

lemma Dir_root: "Dir ''/'' = ''/''"
  by (simp add: Dir_def path_split_def Clean_def Let_def IsAbs_def clean_comps_def clean_step_def)

lemma find_root_nearest:
  assumes "good_comps cs"
  shows "find_root_loop ex (abs_path cs) =
    Some (case find (\<lambda>n. marked ex (take n cs)) (rev [0 ..< Suc (length cs)]) of
            Some n \<Rightarrow> abs_path (take n cs) | None \<Rightarrow> [])"
  using assms
proof (induction cs rule: rev_induct)
  case Nil
  show ?case
    by (subst find_root_loop.simps) (simp add: Dir_root marked_def)
next
  case (snoc b cs)
  have gb: "good_comp b" "good_comps cs" using snoc.prems by auto
  have d: "Dir (abs_path (cs @ [b])) = abs_path cs" using Dir_canonical [OF gb(2,1)] .
  have ne: "abs_path cs \<noteq> abs_path (cs @ [b])"
  proof
    assume "abs_path cs = abs_path (cs @ [b])"
    then have "join slash cs = join slash (cs @ [b])" by simp
    moreover have "length (join slash cs) < length (join slash (cs @ [b]))"
      using gb(1) by (cases "cs = []") (simp_all add: join_snoc good_comp_def)
    ultimately show False by simp
  qed
  have tk: "find (\<lambda>n. marked ex (take n (cs @ [b]))) (rev [0 ..< Suc (length cs)]) =
      find (\<lambda>n. marked ex (take n cs)) (rev [0 ..< Suc (length cs)])"
    by (rule find_cong) auto
  have pick: "(case find (\<lambda>n. marked ex (take n cs)) (rev [0 ..< Suc (length cs)]) of
        Some n \<Rightarrow> abs_path (take n (cs @ [b])) | None \<Rightarrow> []) =
      (case find (\<lambda>n. marked ex (take n cs)) (rev [0 ..< Suc (length cs)]) of
        Some n \<Rightarrow> abs_path (take n cs) | None \<Rightarrow> [])"
  proof (cases "find (\<lambda>n. marked ex (take n cs)) (rev [0 ..< Suc (length cs)])")
    case (Some n)
    then have "n \<in> set (rev [0 ..< Suc (length cs)])" by (metis find_Some_iff nth_mem)
    then have "n \<le> length cs" by auto
    then show ?thesis using Some by simp
  qed simp
  have IH: "find_root_loop ex (abs_path cs) = Some (case find (\<lambda>n. marked ex (take n cs)) (rev [0 ..< Suc (length cs)]) of
        Some n \<Rightarrow> abs_path (take n cs) | None \<Rightarrow> [])"
    using snoc.IH gb by simp
  show ?case
  proof (cases "marked ex (cs @ [b])")
    case True
    then show ?thesis by (subst find_root_loop.simps) (simp add: marked_def)
  next
    case False
    then have "find_root_loop ex (abs_path (cs @ [b])) = find_root_loop ex (abs_path cs)"
      using d ne by (subst find_root_loop.simps) (simp add: marked_def Let_def)
    moreover have "find (\<lambda>n. marked ex (take n (cs @ [b]))) (rev [0 ..< Suc (length (cs @ [b]))]) =
        find (\<lambda>n. marked ex (take n cs)) (rev [0 ..< Suc (length cs)])"
      using False tk by simp
    ultimately show ?thesis using IH pick by simp
  qed
qed

section \<open>Project files are named relative to the root\<close>

lemma path_comps_abs: "good_comps cs \<Longrightarrow> path_comps (abs_path cs) = cs"
proof -
  assume g: "good_comps cs"
  then have "\<forall>c \<in> set cs. c \<noteq> []" "\<forall>c \<in> set cs. slash \<notin> set c" by (auto simp: good_comp_def)
  then have "filter (\<lambda>c. c \<noteq> []) (Split (join slash cs) slash) = cs"
    by (cases "cs = []") (simp_all add: Split_join)
  then show ?thesis by (simp add: path_comps_def)
qed

lemma strip_common_prefix: "strip_common xs (xs @ ys) = ([], ys)"
  by (induction xs) simp_all

lemma no_backslash_prefix:
  "stripExtendedLengthPrefix (slash # p) = slash # p" "rejectUNC (slash # p) w = None"
  by (simp_all add: rejectUNC_def stripExtendedLengthPrefix_def Let_def)

lemma join_not_up:
  assumes "good_comp c"
  shows "join slash (c # cs) \<noteq> ''..''" "\<not> HasPrefix (join slash (c # cs)) ''../''"
proof -
  have sp: "Split (join slash (c # cs)) slash = c # (if cs = [] then [] else Split (join slash cs) slash)"
    using assms by (cases cs) (simp_all add: good_comp_def Split_single Split_append)
  show "join slash (c # cs) \<noteq> ''..''"
  proof
    assume "join slash (c # cs) = ''..''"
    then have "hd (Split (join slash (c # cs)) slash) = ''..''" by simp
    then show False using sp assms by (simp add: good_comp_def)
  qed
  show "\<not> HasPrefix (join slash (c # cs)) ''../''"
  proof
    assume "HasPrefix (join slash (c # cs)) ''../''"
    then obtain t where "join slash (c # cs) = ''..'' @ slash # t" by (auto simp: HasPrefix_iff)
    then have "hd (Split (join slash (c # cs)) slash) = ''..''" by (simp add: Split_append)
    then show False using sp assms by (simp add: good_comp_def)
  qed
qed

lemma Rel_inside:
  assumes "good_comps (rs @ ps)" "ps \<noteq> []"
  shows "Rel (abs_path rs) (abs_path (rs @ ps)) = Some (join slash ps)"
proof -
  have g: "good_comps rs" using assms by auto
  have ne: "abs_path (rs @ ps) \<noteq> abs_path rs"
    using path_comps_abs [OF g] path_comps_abs [OF assms(1)] assms(2) by (metis append_self_conv)
  show ?thesis
    using Clean_canonical [OF g] Clean_canonical [OF assms(1)] ne path_comps_abs [OF g] path_comps_abs [OF assms(1)]
    by (simp add: Rel_def Let_def IsAbs_def strip_common_prefix)
qed

lemma normalize_inside:
  assumes "good_comps (rs @ ps)" "ps \<noteq> []"
  shows "normalizeManifestPath wd (abs_path (rs @ ps)) (abs_path rs) = Inr (join slash ps)"
proof -
  obtain c cs where ps: "ps = c # cs" using assms(2) by (cases ps) auto
  have c: "good_comp c" using assms(1) ps by simp
  have "Abs wd (abs_path (rs @ ps)) = Some (abs_path (rs @ ps))"
    using Clean_canonical [OF assms(1)] by (simp add: Abs_def IsAbs_def)
  then show ?thesis
    using Rel_inside [OF assms] join_not_up [OF c, of cs]
    by (simp add: normalizeManifestPath_def no_backslash_prefix ps)
qed

lemma Rel_outside:
  assumes "good_comps rs" "good_comps ps" "take (length rs) ps \<noteq> rs"
  shows "\<exists>t. Rel (abs_path rs) (abs_path ps) = Some t \<and> (t = ''..'' \<or> HasPrefix t ''../'')"
proof -
  have ne: "abs_path ps \<noteq> abs_path rs"
    using path_comps_abs [OF assms(1)] path_comps_abs [OF assms(2)] assms(3) by (metis take_all order_refl)
  obtain up ts where sc: "strip_common rs ps = (up, ts)" by (cases "strip_common rs ps")
  have "strip_common rs ps = (up, ts) \<Longrightarrow> take (length rs) ps \<noteq> rs \<Longrightarrow> up \<noteq> [] \<and> set up \<subseteq> set rs" for rs ps
    by (induction rs ps rule: strip_common.induct) (auto split: if_splits)
  then have up: "up \<noteq> []" "set up \<subseteq> set rs" using sc assms(3) by blast+
  then have "hd up \<noteq> ''..''" using assms(1) by (metis good_comp_def hd_in_set subsetD)
  then have r: "Rel (abs_path rs) (abs_path ps) = Some (join slash (replicate (length up) ''..'' @ ts))"
    using Clean_canonical [OF assms(1)] Clean_canonical [OF assms(2)] ne sc up path_comps_abs assms(1,2)
    by (simp add: Rel_def Let_def IsAbs_def)
  obtain n where n: "length up = Suc n" using up(1) by (cases up) auto
  have "join slash (replicate (Suc n) ''..'' @ ts) = ''..'' \<or> HasPrefix (join slash (replicate (Suc n) ''..'' @ ts)) ''../''"
    by (cases "replicate n ''..'' @ ts") simp_all
  then show ?thesis using r n by simp
qed

lemma normalize_outside:
  assumes "good_comps rs" "good_comps ps" "take (length rs) ps \<noteq> rs"
  shows "normalizeManifestPath wd (abs_path ps) (abs_path rs) = Inr (abs_path ps)"
proof -
  obtain t where t: "Rel (abs_path rs) (abs_path ps) = Some t" "t = ''..'' \<or> HasPrefix t ''../''"
    using Rel_outside [OF assms] by blast
  have "Abs wd (abs_path ps) = Some (abs_path ps)"
    using Clean_canonical [OF assms(2)] by (simp add: Abs_def IsAbs_def)
  then show ?thesis using t by (auto simp: normalizeManifestPath_def no_backslash_prefix)
qed

section \<open>The manifest does not depend on where the project is checked out\<close>

text \<open>A path that names the same thing in both checkouts: relative inside, or absolute outside.\<close>

definition portable :: "string list \<Rightarrow> string \<Rightarrow> bool" where
  "portable rs p \<longleftrightarrow>
     (\<exists>ps. ps \<noteq> [] \<and> good_comps ps \<and>
        (p = join slash ps \<or> p = abs_path ps \<and> take (length rs) ps \<noteq> rs))"

definition manifest_name :: "string list \<Rightarrow> string \<Rightarrow> string" where
  "manifest_name sub p = (if IsAbs p then p else if sub = [] then p else join slash sub @ slash # p)"

lemma portable_normalize:
  assumes "good_comps rs" "good_comps sub" "portable rs p" "Cwd iv = abs_path (rs @ sub)"
  shows "normalizeManifestPath wd (in_cwd iv p) (abs_path rs) = Inr (manifest_name sub p)"
proof -
  obtain ps where ps: "ps \<noteq> []" "good_comps ps"
    and p: "p = join slash ps \<or> p = abs_path ps \<and> take (length rs) ps \<noteq> rs"
    using assms(3) by (auto simp: portable_def)
  show ?thesis
  proof (cases "p = join slash ps")
    case True
    have g: "good_comps ((rs @ sub) @ ps)" using assms ps by auto
    have "in_cwd iv p = abs_path (rs @ (sub @ ps))"
      using Join_abs [OF g ps(1)] join_not_abs [OF ps(2)] assms(4) True by (simp add: in_cwd_def)
    then have "normalizeManifestPath wd (in_cwd iv p) (abs_path rs) = Inr (join slash (sub @ ps))"
      using normalize_inside [of rs "sub @ ps" wd] g ps(1) by simp
    then show ?thesis
      using True join_not_abs [OF ps(2)] ps(1) by (cases "sub = []") (simp_all add: manifest_name_def join_append)
  next
    case False
    then have p': "p = abs_path ps" "take (length rs) ps \<noteq> rs" using p by auto
    then show ?thesis
      using normalize_outside [OF assms(1) ps(2)] by (simp add: in_cwd_def manifest_name_def IsAbs_def)
  qed
qed

lemma asm_deps_none: "list_all (\<lambda>i. \<not> isAssemblySource i) is \<Longrightarrow> asm_deps rd iv is deps = Inr deps"
  by (induction "is") auto

lemma set_dedup: "set (dedup ps qs) = set ps \<union> set qs"
  by (induction ps arbitrary: qs) auto

lemma distinct_dedup: "distinct qs \<Longrightarrow> distinct (dedup ps qs)"
  by (induction ps arbitrary: qs) auto

lemma make_blobs_Inr:
  "make_blobs H rd wd iv root ps = Inr bs \<longleftrightarrow> list_all2 (\<lambda>p b. make_blob H rd wd iv root p = Inr b) ps bs"
  by (induction ps arbitrary: bs) (auto simp: ebind_Inr_conv list_all2_Cons1)

lemma BuildManifest_plain:
  assumes "list_all (\<lambda>i. \<not> isAssemblySource i) (Inputs iv)" "findDeps iv = Inr deps" "Cwd iv \<noteq> []"
    and "FindProjectRoot ex wd (Cwd iv) = Some root"
  shows "BuildManifest H rd ex wd findDeps iv = Inr m \<longleftrightarrow>
    Inputs iv \<noteq> [] \<and>
    (\<exists>bs. list_all2 (\<lambda>p b. make_blob H rd wd iv root p = Inr b) (dedup deps (dedup (Inputs iv) [])) bs \<and>
       m = \<lparr> mf_Digest = AggregateManifestDigest H (sort_key br_Path bs), mf_Blobs = sort_key br_Path bs \<rparr>)"
  using assms by (auto simp: BuildManifest_def asm_deps_none ebind_Inr_conv make_blobs_Inr Let_def)

lemma make_blob_Inr:
  "make_blob H rd wd iv root p = Inr b \<longleftrightarrow>
   (\<exists>data path. rd (in_cwd iv p) = Some data \<and> normalizeManifestPath wd (in_cwd iv p) root = Inr path \<and>
      b = \<lparr> br_Path = path, br_Digest = H data, br_Size = int (length data) \<rparr>)"
  by (auto simp: make_blob_def Let_def ebind_Inr_conv hashFileBlob_def split: option.splits sum.splits)

lemma manifest_relocate:
  assumes good: "good_comps rs" "good_comps rs'" "good_comps sub"
    and cwd: "Cwd iv = abs_path (rs @ sub)" "Cwd iv' = abs_path (rs' @ sub)" and inp: "Inputs iv' = Inputs iv"
    and plain: "list_all (\<lambda>i. \<not> isAssemblySource i) (Inputs iv)"
    and root: "FindProjectRoot ex wd (Cwd iv) = Some (abs_path rs)" "FindProjectRoot ex' wd' (Cwd iv') = Some (abs_path rs')"
    and deps: "findDeps iv = Inr deps" "findDeps' iv' = Inr deps"
    and port: "\<forall>p \<in> set (Inputs iv) \<union> set deps. portable rs p \<and> portable rs' p \<and> rd (in_cwd iv p) = rd' (in_cwd iv' p)"
    and M: "BuildManifest H rd ex wd findDeps iv = Inr m"
  shows "BuildManifest H rd' ex' wd' findDeps' iv' = Inr m"
proof -
  have ne: "Cwd iv \<noteq> []" "Cwd iv' \<noteq> []" using cwd by simp_all
  let ?ps = "dedup deps (dedup (Inputs iv) [])"
  obtain bs where ne': "Inputs iv \<noteq> []"
    and bs: "list_all2 (\<lambda>p b. make_blob H rd wd iv (abs_path rs) p = Inr b) ?ps bs"
    and m: "m = \<lparr> mf_Digest = AggregateManifestDigest H (sort_key br_Path bs), mf_Blobs = sort_key br_Path bs \<rparr>"
    using BuildManifest_plain [where findDeps = findDeps, OF plain deps(1) ne(1) root(1)] M by auto
  have "make_blob H rd' wd' iv' (abs_path rs') p = Inr b"
    if "p \<in> set ?ps" "make_blob H rd wd iv (abs_path rs) p = Inr b" for p b
  proof -
    have p: "portable rs p" "portable rs' p" "rd (in_cwd iv p) = rd' (in_cwd iv' p)"
      using that(1) port by (auto simp: set_dedup)
    show ?thesis
      using that(2) portable_normalize [OF good(1,3) p(1) cwd(1), of wd]
        portable_normalize [OF good(2,3) p(2) cwd(2), of wd'] p(3)
      by (auto simp: make_blob_Inr)
  qed
  then have "list_all2 (\<lambda>p b. make_blob H rd' wd' iv' (abs_path rs') p = Inr b) ?ps bs"
    using bs by (auto simp: list_all2_conv_all_nth)
  moreover have "list_all (\<lambda>i. \<not> isAssemblySource i) (Inputs iv')" using plain inp by simp
  ultimately show ?thesis
    using BuildManifest_plain [where findDeps = findDeps', OF _ deps(2) ne(2) root(2)] ne' inp m by auto
qed

section \<open>The manifest does not depend on the order of the dependencies\<close>

lemma list_all2_in_right: "list_all2 P xs ys \<Longrightarrow> y \<in> set ys \<Longrightarrow> \<exists>x \<in> set xs. P x y"
  by (induction xs ys rule: list_all2_induct) auto

lemma list_all2_mset_map:
  "list_all2 (\<lambda>p b. f p = Inr b) ps bs \<Longrightarrow> mset bs = image_mset (\<lambda>p. case f p of Inr b \<Rightarrow> b | Inl _ \<Rightarrow> undefined) (mset ps)"
  by (induction ps bs rule: list_all2_induct) auto

lemma manifest_order:
  assumes plain: "list_all (\<lambda>i. \<not> isAssemblySource i) (Inputs iv)" and cwd: "Cwd iv \<noteq> []"
    and root: "FindProjectRoot ex wd (Cwd iv) = Some root"
    and deps: "findDeps iv = Inr deps" "findDeps' iv = Inr deps'" "set deps = set deps'"
    and same: "\<forall>p \<in> set (Inputs iv) \<union> set deps. \<forall>q \<in> set (Inputs iv) \<union> set deps.
        normalizeManifestPath wd (in_cwd iv p) root = normalizeManifestPath wd (in_cwd iv q) root \<longrightarrow>
        rd (in_cwd iv p) = rd (in_cwd iv q)"
    and M: "BuildManifest H rd ex wd findDeps iv = Inr m"
  shows "BuildManifest H rd ex wd findDeps' iv = Inr m"
proof -
  let ?f = "make_blob H rd wd iv root"
  let ?ps = "dedup deps (dedup (Inputs iv) [])" and ?ps' = "dedup deps' (dedup (Inputs iv) [])"
  let ?g = "\<lambda>p. case ?f p of Inr b \<Rightarrow> b | Inl _ \<Rightarrow> undefined"
  obtain bs where ne: "Inputs iv \<noteq> []" and bs: "list_all2 (\<lambda>p b. ?f p = Inr b) ?ps bs"
    and m: "m = \<lparr> mf_Digest = AggregateManifestDigest H (sort_key br_Path bs), mf_Blobs = sort_key br_Path bs \<rparr>"
    using BuildManifest_plain [where findDeps = findDeps, OF plain deps(1) cwd root] M by auto
  have sets: "set ?ps' = set ?ps" using deps(3) by (simp add: set_dedup)
  have dist: "distinct ?ps" "distinct ?ps'" by (simp_all add: distinct_dedup)
  have ms: "mset ?ps = mset ?ps'" using dist sets by (simp add: set_eq_iff_mset_eq_distinct)
  have all: "\<forall>p \<in> set ?ps. \<exists>b. ?f p = Inr b"
    using bs by (auto simp: list_all2_conv_all_nth in_set_conv_nth)
  define bs' where "bs' = map ?g ?ps'"
  have bs': "list_all2 (\<lambda>p b. ?f p = Inr b) ?ps' bs'"
    using all sets by (auto simp: bs'_def list_all2_conv_all_nth) (metis nth_mem sets sum.simps(6))
  have mb: "mset bs = mset bs'"
    using list_all2_mset_map [OF bs] list_all2_mset_map [OF bs'] ms by simp
  have "inj_on br_Path (set bs)"
  proof (rule inj_onI)
    fix x y assume x: "x \<in> set bs" and y: "y \<in> set bs" and eq: "br_Path x = br_Path y"
    obtain p where p: "p \<in> set ?ps" "?f p = Inr x" using list_all2_in_right [OF bs x] by blast
    obtain q where q: "q \<in> set ?ps" "?f q = Inr y" using list_all2_in_right [OF bs y] by blast
    have "normalizeManifestPath wd (in_cwd iv p) root = normalizeManifestPath wd (in_cwd iv q) root"
      using p(2) q(2) eq by (auto simp: make_blob_Inr)
    moreover have "p \<in> set (Inputs iv) \<union> set deps" "q \<in> set (Inputs iv) \<union> set deps"
      using p(1) q(1) by (auto simp: set_dedup)
    ultimately have "rd (in_cwd iv p) = rd (in_cwd iv q)" using same by blast
    then show "x = y"
      using p(2) q(2) eq by (auto simp: make_blob_Inr)
  qed
  then have "sort_key br_Path bs = sort_key br_Path bs'"
    using mb by (intro sort_key_inj_key_eq) simp_all
  then show ?thesis
    using BuildManifest_plain [where findDeps = findDeps', OF plain deps(2) cwd root] ne bs' m by auto
qed

section \<open>What the manifest digest determines\<close>

definition blob_key :: "BlobRef \<Rightarrow> string \<times> bytes" where
  "blob_key b = (asciiLower (br_Path b), br_Digest b)"

definition blob_sized :: "BlobRef \<Rightarrow> bool" where
  "blob_sized b = (length (br_Path b) < 2 ^ 64 \<and> length (br_Digest b) = 32)"

lemma length_asciiLower [simp]: "length (asciiLower s) = length s"
  by (simp add: asciiLower_def Let_def)

lemma BEPutUint64_inject:
  "m < 2 ^ 64 \<Longrightarrow> n < 2 ^ 64 \<Longrightarrow> BEPutUint64 (of_nat m) = BEPutUint64 (of_nat n) \<longleftrightarrow> m = n"
  using be_enc_inject [of 8 m n] by (auto simp: BEPutUint64_def unat_of_nat_less(3))

lemma blobs_bytes_inject:
  "concat (map blob_bytes as) = concat (map blob_bytes bs) \<Longrightarrow> list_all blob_sized as \<Longrightarrow> list_all blob_sized bs \<Longrightarrow>
   map blob_key as = map blob_key bs"
proof (induction as arbitrary: bs)
  case Nil
  then show ?case by (cases bs) (auto simp: blob_bytes_def Let_def blob_sized_def)
next
  case (Cons a as)
  show ?case
  proof (cases bs)
    case Nil
    then show ?thesis using Cons.prems(1,2) by (auto simp: blob_bytes_def Let_def blob_sized_def)
  next
    case (Cons b bs')
    let ?fa = "asciiLower (br_Path a)" and ?fb = "asciiLower (br_Path b)"
    have eq: "BEPutUint64 (of_nat (length ?fa)) @ ?fa @ br_Digest a @ concat (map blob_bytes as) =
              BEPutUint64 (of_nat (length ?fb)) @ ?fb @ br_Digest b @ concat (map blob_bytes bs')"
      using Cons.prems(1) unfolding Cons by (simp add: blob_bytes_def [of a] blob_bytes_def [of b] Let_def)
    then have "BEPutUint64 (of_nat (length ?fa)) = BEPutUint64 (of_nat (length ?fb))"
      by (simp add: append_eq_append_conv)
    then have len: "length ?fa = length ?fb"
      using BEPutUint64_inject Cons.prems(2,3) Cons by (auto simp: blob_sized_def)
    then have "?fa = ?fb \<and> br_Digest a = br_Digest b \<and> concat (map blob_bytes as) = concat (map blob_bytes bs')"
      using eq Cons.prems(2,3) Cons by (auto simp: blob_sized_def append_eq_append_conv)
    then show ?thesis using Cons.IH [of bs'] Cons.prems(2,3) Cons by (simp add: blob_key_def)
  qed
qed

lemma manifest_digest_determines:
  assumes "AggregateManifestDigest H as = AggregateManifestDigest H bs" "list_all blob_sized as" "list_all blob_sized bs"
  shows "map blob_key as = map blob_key bs \<or> (\<exists>x y. x \<noteq> y \<and> H x = H y)"
  using assms blobs_bytes_inject [of as bs] by (auto simp: AggregateManifestDigest_def)

end
