(* ===== verification/Compiler_Driver.thy ===== *)
theory Compiler_Driver
  imports Compiler_Manifest
begin

text \<open>
  The compiler drivers of \<^verbatim>\<open>clang.go\<close> and \<^verbatim>\<open>cl.go\<close> over an executor (\<^verbatim>\<open>executor.go\<close>), and the
  cache key of \<^verbatim>\<open>cache_key.go\<close> and \<^verbatim>\<open>invocation.go\<close>.  The machine a compiler runs on is an abstract
  state \<open>'w\<close> that running a command may change; the executor's two methods and the host's file
  operations are parameters of it.  Timing (\<^verbatim>\<open>Duration\<close>) is left out: no decision reads it.
\<close>

section \<open>Executors and hosts\<close>

record 'w Executor =
  ex_Run :: "'w \<Rightarrow> string \<Rightarrow> string list \<Rightarrow> string list \<Rightarrow> string \<Rightarrow> 'w \<times> (comp_err + bytes \<times> bytes \<times> int)"
  ex_ReadOutput :: "'w \<Rightarrow> string \<Rightarrow> bytes option"

record 'w Host =
  h_read :: "'w \<Rightarrow> string \<Rightarrow> bytes option"
  h_exists :: "'w \<Rightarrow> string \<Rightarrow> bool"
  h_getwd :: "'w \<Rightarrow> string option"
  h_lookPath :: "'w \<Rightarrow> string \<Rightarrow> string option"

record PreprocessResult =
  pp_Source :: bytes
  pp_Digest :: bytes
  pp_Stderr :: bytes
  pp_ExitCode :: int

record InvocationResult =
  ir_Output :: bytes
  ir_Stdout :: bytes
  ir_Stderr :: bytes
  ir_ExitCode :: int
  ir_Extras :: "(string \<times> bytes) list"

definition runPreprocessor ::
  "(bytes \<Rightarrow> bytes) \<Rightarrow> 'w Executor \<Rightarrow> 'w \<Rightarrow> string \<Rightarrow> string list \<Rightarrow> string \<Rightarrow> 'w \<times> (comp_err + PreprocessResult)" where
  "runPreprocessor H e w bin args cwd =
     (case ex_Run e w bin args [] cwd of (w', r) \<Rightarrow>
        (w', ebind r (\<lambda>(stdout, stderr, exitCode).
           Inr \<lparr> pp_Source = stdout, pp_Digest = H stdout, pp_Stderr = stderr, pp_ExitCode = exitCode \<rparr>)))"

section \<open>The two drivers\<close>

definition Compiler_Parse :: "(string \<Rightarrow> string option) \<Rightarrow> CompilerId \<Rightarrow> string list \<Rightarrow> parse_err + Invocation" where
  "Compiler_Parse rd c args =
     (case c_family c of MSVCFamily \<Rightarrow> ParseMSVC rd args | _ \<Rightarrow> ParseGNU rd args)"

definition preprocess_args :: "CompilerId \<Rightarrow> Invocation \<Rightarrow> string list" where
  "preprocess_args c iv =
     (case c_family c of
        MSVCFamily \<Rightarrow> [''/E'', ''/nologo''] @ stripMSVCModeAndOutput (RawArgs iv)
      | _ \<Rightarrow> ''-E'' # stripGNUModeAndOutput (RawArgs iv))"

definition Compiler_Preprocess ::
  "(bytes \<Rightarrow> bytes) \<Rightarrow> 'w Executor \<Rightarrow> CompilerId \<Rightarrow> 'w \<Rightarrow> Invocation \<Rightarrow> 'w \<times> (comp_err + PreprocessResult)" where
  "Compiler_Preprocess H e c w iv = runPreprocessor H e w (c_path c) (preprocess_args c iv) (Cwd iv)"

definition FindDependencies ::
  "'w Executor \<Rightarrow> CompilerId \<Rightarrow> 'w \<Rightarrow> Invocation \<Rightarrow> 'w \<times> (comp_err + string list)" where
  "FindDependencies e c w iv =
     (case c_family c of
        MSVCFamily \<Rightarrow>
          (case ex_Run e w (c_path c) ([''/E'', ''/showIncludes'', ''/nologo''] @ stripMSVCModeAndOutput (RawArgs iv))
                  [''VSLANG=1033''] (Cwd iv) of (w', r) \<Rightarrow>
             (w', ebind r (\<lambda>(stdout, stderr, exitCode).
                if exitCode \<noteq> 0 then Inl (EExit exitCode stderr)
                else Inr (filterSources (parseShowIncludes stderr) (Inputs iv)))))
      | _ \<Rightarrow>
          (case ex_Run e w (c_path c) (''-M'' # stripGNUModeOutputAndDepEmission (RawArgs iv)) [] (Cwd iv) of (w', r) \<Rightarrow>
             (w', ebind r (\<lambda>(stdout, stderr, exitCode).
                if exitCode \<noteq> 0 then Inl (EExit exitCode stderr)
                else Inr (filterSources (parseMakeDeps stdout) (Inputs iv))))))"

definition Compiler_Invoke ::
  "'w Executor \<Rightarrow> CompilerId \<Rightarrow> 'w \<Rightarrow> Invocation \<Rightarrow> 'w \<times> (comp_err + InvocationResult)" where
  "Compiler_Invoke e c w iv =
     (case ex_Run e w (c_path c) (RawArgs iv) [] (Cwd iv) of (w', r) \<Rightarrow>
        (w', ebind r (\<lambda>(stdout, stderr, exitCode).
           let res = \<lparr> ir_Output = [], ir_Stdout = stdout, ir_Stderr = stderr, ir_ExitCode = exitCode, ir_Extras = [] \<rparr>
           in if Output iv \<noteq> [] \<and> exitCode = 0
              then (case ex_ReadOutput e w' (Output iv) of
                      None \<Rightarrow> Inl (EReadOutput (Output iv))
                    | Some data \<Rightarrow> Inr (res\<lparr> ir_Output := data \<rparr>))
              else Inr res)))"

definition RewriteForPreprocessed :: "CompilerId \<Rightarrow> Invocation \<Rightarrow> string \<Rightarrow> Invocation" where
  "RewriteForPreprocessed c iv srcPath =
     (case c_family c of
        MSVCFamily \<Rightarrow> rewriteMSVCForPreprocessed iv srcPath (msvcPreprocessedLanguage iv)
      | _ \<Rightarrow> rewriteGNUForPreprocessed iv srcPath (gnuPreprocessedLanguage (c_name c) iv))"

definition Compiler_Identity :: "(bytes \<Rightarrow> bytes) \<Rightarrow> 'w Host \<Rightarrow> CompilerId \<Rightarrow> 'w \<Rightarrow> comp_err + bytes" where
  "Compiler_Identity H h c w =
     (case h_lookPath h w (c_path c) of
        None \<Rightarrow> Inl (ELookPath (c_path c))
      | Some path \<Rightarrow>
          (case h_read h w path of
             None \<Rightarrow> Inl (EReadBinary path)
           | Some bin \<Rightarrow> Inr (H bin)))"

section \<open>The flags of the cache key\<close>

abbreviation NUL :: char where "NUL \<equiv> CHR 0x00"

fun filter_pass :: "string list \<Rightarrow> string list" where
  "filter_pass [] = []"
| "filter_pass (a # as) =
     (if a = ''-MD'' \<or> a = ''-MMD'' then filter_pass as
      else if a = ''-MF'' \<or> a = ''-MT'' \<or> a = ''-MQ'' then (case as of [] \<Rightarrow> [] | _ # as' \<Rightarrow> filter_pass as')
      else if a = ''/showIncludes'' then filter_pass as
      else a # filter_pass as)"

definition filterIrrelevantPassthrough :: "string list \<Rightarrow> string list" where
  "filterIrrelevantPassthrough passthrough = filter_pass passthrough"

definition list_enc :: "string list \<Rightarrow> bytes" where
  "list_enc items = concat (map (\<lambda>i. i @ [NUL]) items) @ [NUL]"

definition writeList :: "string \<Rightarrow> string list \<Rightarrow> bytes" where
  "writeList tag items = tag @ NUL # list_enc items"

definition writeKV :: "string \<Rightarrow> string \<Rightarrow> bytes" where
  "writeKV tag value = tag @ CHR ''='' # value @ [NUL]"

definition mode_num :: "InvocationMode \<Rightarrow> nat" where
  "mode_num m =
     (case m of UnknownMode \<Rightarrow> 0 | CompileMode \<Rightarrow> 1 | PreprocessMode \<Rightarrow> 2 | AssembleMode \<Rightarrow> 3
              | LinkMode \<Rightarrow> 4 | DepOnlyMode \<Rightarrow> 5)"

definition define_items :: "(string \<times> string) list \<Rightarrow> string list" where
  "define_items ds = map (\<lambda>(k, v). k @ CHR ''='' # v) (sort_key fst ds)"

definition cacheKeyFlags :: "Invocation \<Rightarrow> bytes" where
  "cacheKeyFlags iv =
     writeList ''I'' (Includes iv) @
     writeList ''isystem'' (SystemIncludes iv) @
     writeList ''U'' (Undefines iv) @
     writeList ''D'' (define_items (Defines iv)) @
     writeKV ''std'' (Std iv) @
     writeKV ''opt'' (Optim iv) @
     writeKV ''dbg'' (Debug iv) @
     writeKV ''lang'' (Language iv) @
     writeKV ''mode'' (itoa (mode_num (Mode iv))) @
     writeList ''W'' (Warnings iv) @
     writeList ''f'' (Features iv) @
     writeList ''m'' (Machine iv) @
     writeList ''pass'' (filterIrrelevantPassthrough (Passthrough iv)) @
     writeList ''unk'' (Unknown iv)"

section \<open>The cache key\<close>

datatype SourceMode = SourceModeUnspecified | SourceModePreprocessed | SourceModeCAS

record 'w Context =
  ctx_SourceMode :: SourceMode
  ctx_Compiler :: CompilerId
  ctx_Executor :: "'w Executor"
  ctx_Host :: "'w Host"
  ctx_IdentityOverride :: "bytes option"

definition writeChunk :: "bytes \<Rightarrow> bytes" where
  "writeChunk data = BEPutUint64 (of_nat (length data)) @ data"

text \<open>The identity chunk, and the source chunk with the machine state and manifest it leaves.\<close>

definition key_identity :: "(bytes \<Rightarrow> bytes) \<Rightarrow> 'w Context \<Rightarrow> 'w \<Rightarrow> comp_err + bytes" where
  "key_identity H ctx w =
     (case ctx_IdentityOverride ctx of
        Some i \<Rightarrow> Inr i
      | None \<Rightarrow>
          (case Compiler_Identity H (ctx_Host ctx) (ctx_Compiler ctx) w of
             Inl e \<Rightarrow> Inl (EIdentity e)
           | Inr i \<Rightarrow> Inr i))"

definition BuildManifestIn ::
  "(bytes \<Rightarrow> bytes) \<Rightarrow> 'w Context \<Rightarrow> 'w \<Rightarrow> Invocation \<Rightarrow> 'w \<times> (comp_err + Manifest)" where
  "BuildManifestIn H ctx w iv =
     (if Inputs iv = [] then (w, Inl ENoInputs)
      else case FindDependencies (ctx_Executor ctx) (ctx_Compiler ctx) w iv of (w', deps) \<Rightarrow>
        (w', BuildManifest H (h_read (ctx_Host ctx) w') (h_exists (ctx_Host ctx) w') (h_getwd (ctx_Host ctx) w')
               (\<lambda>_. deps) iv))"

definition key_source ::
  "(bytes \<Rightarrow> bytes) \<Rightarrow> 'w Context \<Rightarrow> 'w \<Rightarrow> Invocation \<Rightarrow> 'w \<times> (comp_err + bytes \<times> Manifest option)" where
  "key_source H ctx w iv =
     (case ManifestDigest iv of
        Some d \<Rightarrow> (w, Inr (d, None))
      | None \<Rightarrow>
          (case PreprocessedDigest iv of
             Some d \<Rightarrow> (w, Inr (d, None))
           | None \<Rightarrow>
               if ctx_SourceMode ctx = SourceModePreprocessed then
                 (case Compiler_Preprocess H (ctx_Executor ctx) (ctx_Compiler ctx) w iv of (w', r) \<Rightarrow>
                    (w', ebind r (\<lambda>res.
                       if pp_ExitCode res \<noteq> 0 then Inl (EExit (pp_ExitCode res) (pp_Stderr res))
                       else Inr (pp_Digest res, None))))
               else
                 (case BuildManifestIn H ctx w iv of (w', r) \<Rightarrow>
                    (w', ebind r (\<lambda>m. Inr (mf_Digest m, Some m))))))"

definition CacheKeyWithManifest ::
  "(bytes \<Rightarrow> bytes) \<Rightarrow> 'w Context \<Rightarrow> 'w \<Rightarrow> Invocation \<Rightarrow> 'w \<times> (comp_err + bytes \<times> Manifest option)" where
  "CacheKeyWithManifest H ctx w iv =
     (if Inputs iv = [] then (w, Inl ENoInputs)
      else case key_identity H ctx w of
             Inl e \<Rightarrow> (w, Inl e)
           | Inr compilerIdentity \<Rightarrow>
               (case key_source H ctx w iv of (w', r) \<Rightarrow>
                  (w', ebind r (\<lambda>(src, manifest).
                     Inr (H (writeChunk src @ writeChunk compilerIdentity @ writeChunk (cacheKeyFlags iv)), manifest)))))"

definition CacheKey :: "(bytes \<Rightarrow> bytes) \<Rightarrow> 'w Context \<Rightarrow> 'w \<Rightarrow> Invocation \<Rightarrow> 'w \<times> (comp_err + bytes)" where
  "CacheKey H ctx w iv =
     (case CacheKeyWithManifest H ctx w iv of (w', r) \<Rightarrow> (w', ebind r (\<lambda>(key, _). Inr key)))"

definition ComputeHashWithManifest ::
  "(bytes \<Rightarrow> bytes) \<Rightarrow> 'w Context \<Rightarrow> 'w \<Rightarrow> Invocation \<Rightarrow> 'w \<times> (comp_err + string \<times> Manifest option)" where
  "ComputeHashWithManifest H ctx w iv =
     (case CacheKeyWithManifest H ctx w iv of (w', r) \<Rightarrow>
        (w', ebind r (\<lambda>(key, m). Inr (EncodeToString key, m))))"

definition ComputeHash :: "(bytes \<Rightarrow> bytes) \<Rightarrow> 'w Context \<Rightarrow> 'w \<Rightarrow> Invocation \<Rightarrow> 'w \<times> (comp_err + string)" where
  "ComputeHash H ctx w iv =
     (case CacheKeyWithManifest H ctx w iv of (w', r) \<Rightarrow> (w', ebind r (\<lambda>(key, _). Inr (EncodeToString key))))"

section \<open>The encoded flags determine the flags\<close>

definition item_ok :: "string \<Rightarrow> bool" where "item_ok s = (s \<noteq> [] \<and> NUL \<notin> set s)"

lemma nul_inject: "NUL \<notin> set v \<Longrightarrow> NUL \<notin> set v' \<Longrightarrow> v @ NUL # r = v' @ NUL # r' \<longleftrightarrow> v = v' \<and> r = r'"
proof (induction v arbitrary: v')
  case Nil
  then show ?case by (cases v') auto
next
  case (Cons c v)
  then show ?case by (cases v') auto
qed

lemma list_enc_inject:
  "list_all item_ok xs \<Longrightarrow> list_all item_ok ys \<Longrightarrow> list_enc xs @ r = list_enc ys @ s \<longleftrightarrow> xs = ys \<and> r = s"
proof (induction xs arbitrary: ys)
  case Nil
  show ?case
  proof (cases ys)
    case (Cons y ys')
    then obtain c y' where "y = c # y'" "c \<noteq> NUL" using Nil.prems(2) by (cases y) (auto simp: item_ok_def)
    then show ?thesis using Cons by (simp add: list_enc_def)
  qed (simp add: list_enc_def)
next
  case (Cons x xs)
  have c: "list_enc (z # zs) = z @ NUL # list_enc zs" for z zs by (simp add: list_enc_def)
  show ?case
  proof (cases ys)
    case Nil
    obtain c x' where "x = c # x'" "c \<noteq> NUL" using Cons.prems(1) by (cases x) (auto simp: item_ok_def)
    then show ?thesis using Nil by (simp add: list_enc_def)
  next
    case (Cons y ys')
    have ok: "NUL \<notin> set x" "NUL \<notin> set y" using Cons.prems Cons by (auto simp: item_ok_def)
    show ?thesis
      using Cons.IH [of ys'] Cons.prems nul_inject [OF ok] by (simp add: Cons c)
  qed
qed

lemma writeList_inject:
  "list_all item_ok xs \<Longrightarrow> list_all item_ok ys \<Longrightarrow> writeList t xs @ r = writeList t ys @ s \<longleftrightarrow> xs = ys \<and> r = s"
  using list_enc_inject by (simp add: writeList_def)

lemma writeKV_inject:
  "NUL \<notin> set v \<Longrightarrow> NUL \<notin> set v' \<Longrightarrow> writeKV t v @ r = writeKV t v' @ s \<longleftrightarrow> v = v' \<and> r = s"
  using nul_inject by (simp add: writeKV_def)

text \<open>What an operating system guarantees of arguments, and that no list holds an empty entry.\<close>

definition flags_ok :: "Invocation \<Rightarrow> bool" where
  "flags_ok iv \<longleftrightarrow>
     list_all item_ok (Includes iv) \<and> list_all item_ok (SystemIncludes iv) \<and> list_all item_ok (Undefines iv) \<and>
     list_all (\<lambda>(k, v). CHR ''='' \<notin> set k \<and> NUL \<notin> set k \<and> NUL \<notin> set v) (Defines iv) \<and> distinct (map fst (Defines iv)) \<and>
     NUL \<notin> set (Std iv) \<and> NUL \<notin> set (Optim iv) \<and> NUL \<notin> set (Debug iv) \<and> NUL \<notin> set (Language iv) \<and>
     list_all item_ok (Warnings iv) \<and> list_all item_ok (Features iv) \<and> list_all item_ok (Machine iv) \<and>
     list_all item_ok (Passthrough iv) \<and> list_all item_ok (Unknown iv)"

text \<open>Two invocations that agree in everything that shapes the object file.\<close>

definition same_flags :: "Invocation \<Rightarrow> Invocation \<Rightarrow> bool" where
  "same_flags a b \<longleftrightarrow>
     Includes a = Includes b \<and> SystemIncludes a = SystemIncludes b \<and> Undefines a = Undefines b \<and>
     map_of (Defines a) = map_of (Defines b) \<and> Std a = Std b \<and> Optim a = Optim b \<and> Debug a = Debug b \<and>
     Language a = Language b \<and> Mode a = Mode b \<and> Warnings a = Warnings b \<and> Features a = Features b \<and>
     Machine a = Machine b \<and>
     filterIrrelevantPassthrough (Passthrough a) = filterIrrelevantPassthrough (Passthrough b) \<and> Unknown a = Unknown b"

lemma filter_pass_cases:
  "filter_pass (a # as) \<in> {filter_pass as, a # filter_pass as, filter_pass (tl as)}"
  by (cases as) simp_all

declare filter_pass.simps(2) [simp del]

lemma filter_pass_subset: "set (filter_pass xs) \<subseteq> set xs"
proof (induction xs rule: length_induct)
  case (1 xs)
  show ?case
  proof (cases xs)
    case (Cons a as)
    have "set (filter_pass as) \<subseteq> set as" "set (filter_pass (tl as)) \<subseteq> set (tl as)"
      using 1 Cons by simp_all
    moreover have "set (tl as) \<subseteq> set as" by (cases as) auto
    ultimately show ?thesis using filter_pass_cases [of a as] unfolding Cons by auto
  qed simp
qed

lemma define_items_inject:
  assumes "list_all (\<lambda>(k, v). CHR ''='' \<notin> set k) as" "list_all (\<lambda>(k, v). CHR ''='' \<notin> set k) bs"
    and "distinct (map fst as)" "distinct (map fst bs)" and eq: "define_items as = define_items bs"
  shows "map_of as = map_of bs"
proof -
  have "map (\<lambda>(k, v). k @ CHR ''='' # v) xs = map (\<lambda>(k, v). k @ CHR ''='' # v) ys \<Longrightarrow>
      list_all (\<lambda>(k, v). CHR ''='' \<notin> set k) xs \<Longrightarrow> list_all (\<lambda>(k, v). CHR ''='' \<notin> set k) ys \<Longrightarrow> xs = ys" for xs ys
  proof (induction xs arbitrary: ys)
    case (Cons x xs)
    then obtain y ys' where ys: "ys = y # ys'" by (cases ys) auto
    obtain k v k' v' where xy: "x = (k, v)" "y = (k', v')" by (cases x, cases y)
    have "Cut (k @ CHR ''='' # v) CHR ''='' = Cut (k' @ CHR ''='' # v') CHR ''=''"
      using Cons.prems(1) ys xy by simp
    then have "x = y" using Cons.prems(2,3) ys xy by (simp add: Cut_append)
    then show ?case using Cons ys by simp
  qed simp
  then have "sort_key fst as = sort_key fst bs"
    using eq assms(1,2) by (simp add: define_items_def list_all_iff)
  then have "set as = set bs" by (metis set_sort)
  then show ?thesis using map_of_inject_set [OF assms(3,4)] by simp
qed

lemma itoa_no_NUL: "NUL \<notin> set (itoa n)"
  using itoa_digits [of NUL n] by auto

lemma mode_num_inject: "mode_num m = mode_num m' \<longleftrightarrow> m = m'"
  by (cases m; cases m') (simp_all add: mode_num_def)

lemma define_items_ok:
  "list_all (\<lambda>(k, v). NUL \<notin> set k \<and> NUL \<notin> set v) ds \<Longrightarrow> list_all item_ok (define_items ds)"
  by (auto simp: define_items_def list_all_iff item_ok_def)

lemma cacheKeyFlags_determines:
  assumes "cacheKeyFlags a = cacheKeyFlags b" "flags_ok a" "flags_ok b"
  shows "same_flags a b"
proof -
  have pass: "list_all item_ok (filterIrrelevantPassthrough (Passthrough iv))" if "flags_ok iv" for iv
    using that subsetD [OF filter_pass_subset] by (auto simp: flags_ok_def filterIrrelevantPassthrough_def list_all_iff)
  have defs: "list_all item_ok (define_items (Defines iv))" if "flags_ok iv" for iv
    using that by (intro define_items_ok) (auto simp: flags_ok_def list_all_iff)
  have key: "list_all (\<lambda>(k, v). CHR ''='' \<notin> set k) (Defines iv)" "distinct (map fst (Defines iv))" if "flags_ok iv" for iv
    using that by (auto simp: flags_ok_def list_all_iff)
  have la: "list_all item_ok (Includes iv)" "list_all item_ok (SystemIncludes iv)" "list_all item_ok (Undefines iv)"
    "list_all item_ok (Warnings iv)" "list_all item_ok (Features iv)" "list_all item_ok (Machine iv)"
    "list_all item_ok (Unknown iv)" if "flags_ok iv" for iv
    using that by (simp_all only: flags_ok_def)
  have kv: "NUL \<notin> set (Std iv)" "NUL \<notin> set (Optim iv)" "NUL \<notin> set (Debug iv)" "NUL \<notin> set (Language iv)"
    if "flags_ok iv" for iv using that by (simp_all only: flags_ok_def not_False_eq_True)
  note lists = la [OF assms(2)] la [OF assms(3)]
  note inj = writeList_inject [OF la(1) la(1), OF assms(2,3)] writeList_inject [OF la(2) la(2), OF assms(2,3)]
    writeList_inject [OF la(3) la(3), OF assms(2,3)] writeList_inject [OF la(4) la(4), OF assms(2,3)]
    writeList_inject [OF la(5) la(5), OF assms(2,3)] writeList_inject [OF la(6) la(6), OF assms(2,3)]
    writeList_inject [OF la(7) la(7), OF assms(2,3), where r = "[]" and s = "[]", unfolded append_Nil2]
    writeList_inject [OF pass pass, OF assms(2,3)] writeList_inject [OF defs defs, OF assms(2,3)]
    writeKV_inject [OF kv(1) kv(1), OF assms(2,3)] writeKV_inject [OF kv(2) kv(2), OF assms(2,3)]
    writeKV_inject [OF kv(3) kv(3), OF assms(2,3)] writeKV_inject [OF kv(4) kv(4), OF assms(2,3)]
    writeKV_inject [OF itoa_no_NUL itoa_no_NUL]
  have "Includes a = Includes b \<and> SystemIncludes a = SystemIncludes b \<and> Undefines a = Undefines b \<and>
      define_items (Defines a) = define_items (Defines b) \<and> Std a = Std b \<and> Optim a = Optim b \<and> Debug a = Debug b \<and>
      Language a = Language b \<and> itoa (mode_num (Mode a)) = itoa (mode_num (Mode b)) \<and>
      Warnings a = Warnings b \<and> Features a = Features b \<and> Machine a = Machine b \<and>
      filterIrrelevantPassthrough (Passthrough a) = filterIrrelevantPassthrough (Passthrough b) \<and> Unknown a = Unknown b"
    using assms(1) unfolding cacheKeyFlags_def by (simp only: inj simp_thms)
  moreover from this have "map_of (Defines a) = map_of (Defines b)"
    by (intro define_items_inject key assms(2,3)) blast
  ultimately show ?thesis by (simp add: same_flags_def mode_num_inject)
qed

lemma same_flags_key:
  assumes "same_flags a b" "distinct (map fst (Defines a))" "distinct (map fst (Defines b))"
  shows "cacheKeyFlags a = cacheKeyFlags b"
proof -
  have "set (Defines a) = set (Defines b)"
    using assms map_of_inject_set [OF assms(2,3)] by (simp add: same_flags_def)
  moreover have "distinct (Defines a)" "distinct (Defines b)" using assms(2,3) by (simp_all add: distinct_map)
  ultimately have "mset (Defines a) = mset (Defines b)" by (simp add: set_eq_iff_mset_eq_distinct)
  moreover have "inj_on fst (set (Defines a))" using assms(2) by (simp add: distinct_map)
  ultimately have "sort_key fst (Defines a) = sort_key fst (Defines b)"
    by (intro sort_key_inj_key_eq) simp_all
  then show ?thesis using assms(1) by (simp add: cacheKeyFlags_def same_flags_def define_items_def)
qed

section \<open>The key determines its chunks\<close>

lemma writeChunk_inject:
  "length x < 2 ^ 64 \<Longrightarrow> length y < 2 ^ 64 \<Longrightarrow> writeChunk x @ r = writeChunk y @ s \<longleftrightarrow> x = y \<and> r = s"
proof -
  assume l: "length x < 2 ^ 64" "length y < 2 ^ 64"
  have "x = y \<and> r = s" if "writeChunk x @ r = writeChunk y @ s"
  proof -
    have "BEPutUint64 (of_nat (length x)) = BEPutUint64 (of_nat (length y))" "x @ r = y @ s"
      using that by (auto simp: writeChunk_def append_eq_append_conv)
    then have "length x = length y" using BEPutUint64_inject l by blast
    then show ?thesis using \<open>x @ r = y @ s\<close> by simp
  qed
  then show ?thesis by (auto simp: writeChunk_def)
qed

lemma key_chunks_inject:
  assumes "writeChunk a @ writeChunk b @ writeChunk c = writeChunk a' @ writeChunk b' @ writeChunk c'"
    and "\<forall>x \<in> {a, b, c, a', b', c'}. length x < 2 ^ 64"
  shows "a = a' \<and> b = b' \<and> c = c'"
  using assms writeChunk_inject [of a a'] writeChunk_inject [of b b'] writeChunk_inject [of c c' "[]" "[]"] by simp

lemma CacheKey_Inr:
  "CacheKey H ctx w iv = (w', Inr key) \<longleftrightarrow>
   Inputs iv \<noteq> [] \<and> (\<exists>ident src m. key_identity H ctx w = Inr ident \<and> key_source H ctx w iv = (w', Inr (src, m)) \<and>
      key = H (writeChunk src @ writeChunk ident @ writeChunk (cacheKeyFlags iv)))"
  by (auto simp: CacheKey_def CacheKeyWithManifest_def ebind_Inr_conv split: prod.splits sum.splits if_splits)

end
