(* ===== verification/Compiler_Props.thy ===== *)
theory Compiler_Props
  imports Compiler_Driver
begin

text \<open>
  The properties of the compiler layer: flag matching, the argument rewriters, manifests and the
  cache key, each applied to a concrete command line by its witness.
\<close>



text \<open>
  C11.  Re-parsing the arguments built for a preprocessed compile gives back exactly the rewritten
  invocation, except for the warning list: the \<^verbatim>\<open>-Werror\<close> flags were dropped from the arguments
  while the rewritten invocation still carries them.
\<close>

theorem gnu_preprocessed_reparses:
  assumes "ParseGNU rd args = Inr iv" and "Output iv \<noteq> []" and "\<not> at_file (Output iv)"
    and "\<not> HasPrefix src ''-''" and "\<not> at_file src" and "\<not> at_file lang"
  shows "ParseGNU rd' (RawArgs (rewriteGNUForPreprocessed iv src lang)) =
         Inr ((rewriteGNUForPreprocessed iv src lang)
                \<lparr> Warnings := filter (\<lambda>w. \<not> werror_value w) (Warnings iv) \<rparr>)"
  using assms by (rule reparse_gnu)

definition demo_args :: "string list" where
  "demo_args = [''-c'', ''-O2'', ''-Werror'', ''-Wall'', ''-o'', ''a.o'', ''a.c'']"

definition demo_inv :: Invocation where
  "demo_inv = NewInvocation\<lparr> Mode := CompileMode, Inputs := [''a.c''], Output := ''a.o'', Optim := ''2'',
     Warnings := [''error'', ''all''], RawArgs := demo_args \<rparr>"

lemma demo_parse: "ParseGNU rd demo_args = Inr demo_inv"
  by (simp add: ParseGNU_def demo_args_def matchGNUFlag_find gnu_eval gnu_yield_def applyFlag_def apply_mode_def
      default_mode_def inferDefaultOutput_def demo_inv_def NewInvocation_def)

theorem gnu_preprocessed_reparses_witness:
  "\<exists>jv. ParseGNU Map.empty (RawArgs (rewriteGNUForPreprocessed demo_inv ''/src/main.i'' ''cpp-output'')) = Inr jv \<and>
     Warnings jv = [''all''] \<and> Optim jv = ''2'' \<and> Inputs jv = [''/src/main.i''] \<and>
     Warnings (rewriteGNUForPreprocessed demo_inv ''/src/main.i'' ''cpp-output'') = [''error'', ''all'']"
  using gnu_preprocessed_reparses [OF demo_parse, where src = "''/src/main.i''" and lang = "''cpp-output''" and rd' = Map.empty]
  by (simp add: demo_inv_def NewInvocation_def at_file_def werror_value_def rewriteGNUForPreprocessed_def)

text \<open>
  C12.  The same for cl.exe: re-parsing the arguments of a preprocessed compile gives the
  rewritten invocation up to the pass-through list.
\<close>

theorem msvc_preprocessed_reparses:
  assumes "ParseMSVC rd args = Inr iv" and "Output iv \<noteq> []"
    and "src \<noteq> []" and "\<not> HasPrefix src '':''" and "langFlag = ''/Tc'' \<or> langFlag = ''/Tp''"
  shows "\<exists>jv. ParseMSVC rd' (RawArgs (rewriteMSVCForPreprocessed iv src langFlag)) = Inr jv \<and>
              jv\<lparr> Passthrough := [] \<rparr> = rewriteMSVCForPreprocessed iv src langFlag"
  using assms by (rule reparse_msvc)

theorem msvc_preprocessed_reparses_witness:
  "\<exists>iv jv. ParseMSVC Map.empty [''/c'', ''/MD'', ''/O2'', ''/Foa.obj'', ''a.c''] = Inr iv \<and>
     ParseMSVC Map.empty (RawArgs (rewriteMSVCForPreprocessed iv ''main.i'' ''/Tc'')) = Inr jv \<and>
     jv\<lparr> Passthrough := [] \<rparr> = rewriteMSVCForPreprocessed iv ''main.i'' ''/Tc'' \<and> Optim jv = ''2''"
proof -
  obtain iv where p: "ParseMSVC Map.empty [''/c'', ''/MD'', ''/O2'', ''/Foa.obj'', ''a.c''] = Inr iv"
    "Output iv = ''a.obj''" "Optim iv = ''2''"
    by (simp add: ParseMSVC_def isMSVCFlag_def matchMSVCFlag_find msvc_eval msvc_yield_def applyMSVCFlag_def
        applyFlag_def trimMSVCColon_def default_mode_def inferDefaultOutput_def NewInvocation_def)
  obtain jv where j: "ParseMSVC Map.empty (RawArgs (rewriteMSVCForPreprocessed iv ''main.i'' ''/Tc'')) = Inr jv"
    "jv\<lparr> Passthrough := [] \<rparr> = rewriteMSVCForPreprocessed iv ''main.i'' ''/Tc''"
    using msvc_preprocessed_reparses [OF p(1), of "''main.i''" "''/Tc''" Map.empty] p(2) by auto
  have "Optim jv = ''2''"
    using arg_cong [OF j(2), of Optim] p(3) by (simp add: rewriteMSVCForPreprocessed_def)
  then show ?thesis using p(1) j by blast
qed



text \<open>
  C14.  Prefix relocation replaces exactly the occurrences of the host prefix that end at a path
  boundary, scanning left to right, and copies every other character.
\<close>

theorem rewritePrefix_occurrences:
  assumes "host \<noteq> []"
  shows "\<exists>gs. s = segs_src host gs \<and> rewritePrefix s host vm = concat (map (seg_out vm) gs) \<and> segs_ok host gs"
  using rewrite_loop_segs [OF assms, of s vm] by (simp add: rewritePrefix_loop)

theorem rewritePrefix_occurrences_witness:
  "rewritePrefix ''-I/p/x:/pq'' ''/p'' ''/src'' = ''-I/src/x:/pq'' \<and>
   (\<exists>gs. ''-I/p/x:/pq'' = segs_src ''/p'' gs \<and> segs_ok ''/p'' gs \<and>
         rewritePrefix ''-I/p/x:/pq'' ''/p'' ''/src'' = concat (map (seg_out ''/src'') gs))"
  using rewritePrefix_occurrences [of "''/p''" "''-I/p/x:/pq''" "''/src''"]
  by (auto simp: rewritePrefix_def at_boundary_def)

text \<open>
  C15.  Relocating dependency-file emission: the returned paths are those the original arguments
  name, the rewritten arguments name the same paths under the output root, and no argument is
  added or lost.
\<close>

theorem dep_emission_relocated:
  assumes "plain_targets args"
  shows "snd (RewriteDepEmissionForCAS args outRoot) = ExtractDepEmissionPaths args \<and>
         ExtractDepEmissionPaths (fst (RewriteDepEmissionForCAS args outRoot)) =
           map (\<lambda>p. Join [outRoot, p]) (ExtractDepEmissionPaths args) \<and>
         length (fst (RewriteDepEmissionForCAS args outRoot)) = length args"
  using assms by (rule RewriteDep_paths)

theorem dep_emission_relocated_witness:
  "snd (RewriteDepEmissionForCAS [''-Wp,-MMD,x.d'', ''-MT'', ''t'', ''-c''] ''/out'') = [''x.d''] \<and>
   ExtractDepEmissionPaths [''-Wp,-MMD,x.d'', ''-MT'', ''t'', ''-c''] = [''x.d'']"
  using dep_emission_relocated [of "[''-Wp,-MMD,x.d'', ''-MT'', ''t'', ''-c'']" "''/out''"]
  by (simp add: splitWpDepEmission_def)

text \<open>
  C16.  The walk over assembler includes ends whenever finitely many files are readable, and
  returns each file named by a directive of a reachable file exactly once, cycles included.
\<close>

theorem assembler_closure_complete:
  assumes "finite {p. rd p \<noteq> None}"
  shows "\<exists>out. scanAssemblyClosure rd rootAbs cppDeps cwd = Some out \<and>
      resolve cwd ` set out = asm_referenced rd cwd (insert rootAbs (resolve cwd ` set cppDeps)) \<and>
      distinct (map (resolve cwd) out)"
  using assms by (rule scanAssemblyClosure_complete)

definition demo_asm :: "string \<Rightarrow> bytes option" where
  "demo_asm = [''/w/a.S'' \<mapsto> ''.include '' @ CHR 0x22 # ''b.inc'' @ [CHR 0x22],
               ''/w/b.inc'' \<mapsto> ''.include '' @ CHR 0x22 # ''a.S'' @ [CHR 0x22]]"

theorem assembler_closure_complete_witness:
  "\<exists>out. scanAssemblyClosure demo_asm ''/w/a.S'' [] ''/w'' = Some out \<and> distinct (map (resolve ''/w'') out) \<and>
     resolve ''/w'' ` set out = asm_referenced demo_asm ''/w'' {''/w/a.S''}"
proof -
  have "{p. demo_asm p \<noteq> None} \<subseteq> {''/w/a.S'', ''/w/b.inc''}" by (auto simp: demo_asm_def split: if_splits)
  then have "finite {p. demo_asm p \<noteq> None}" by (rule finite_subset) simp
  from assembler_closure_complete [OF this, of "''/w/a.S''" "[]" "''/w''"] show ?thesis by auto
qed

text \<open>
  C17.  The project root of a directory is its nearest ancestor holding the marker file, itself
  included, and the empty string when none does; the upward walk ends.
\<close>

theorem project_root_nearest:
  assumes "\<forall>c \<in> set cs. good_comp c"
  shows "FindProjectRoot ex wd (slash # join slash cs) =
    Some (case find (\<lambda>n. ex (Join [slash # join slash (take n cs), projectMarkerFile])) (rev [0 ..< Suc (length cs)]) of
            Some n \<Rightarrow> slash # join slash (take n cs) | None \<Rightarrow> [])"
  using find_root_nearest [OF assms, of ex] Clean_canonical [OF assms]
  by (simp add: FindProjectRoot_def Abs_def IsAbs_def marked_def)

lemma demo_marker: "Join [''/p'', projectMarkerFile] = ''/p/.hpcc''" "Join [''/p/a'', projectMarkerFile] = ''/p/a/.hpcc''"
  by (simp_all add: Join_def Clean_def Let_def IsAbs_def clean_comps_def clean_step_def projectMarkerFile_def)

theorem project_root_nearest_witness:
  "FindProjectRoot (\<lambda>p. p = ''/p/.hpcc'') None ''/p/a'' = Some ''/p''"
  using project_root_nearest [of "[''p'', ''a'']" "\<lambda>p. p = ''/p/.hpcc''" None] demo_marker
  by (simp add: good_comp_def)


definition demo_co :: "string \<Rightarrow> Invocation" where
  "demo_co cwd = NewInvocation\<lparr> Inputs := [''m.c''], Cwd := cwd \<rparr>"

definition demo_tree :: "string \<Rightarrow> string \<Rightarrow> bytes option" where
  "demo_tree root = [root @ ''/m.c'' \<mapsto> ''int x;'']"

definition demo_mark :: "string \<Rightarrow> string \<Rightarrow> bool" where
  "demo_mark root p = (p = root @ ''/.hpcc'')"

definition demo_manifest :: Manifest where
  "demo_manifest = (let b = \<lparr> br_Path = ''m.c'', br_Digest = ''int x;'', br_Size = 6 \<rparr>
     in \<lparr> mf_Digest = AggregateManifestDigest id [b], mf_Blobs = [b] \<rparr>)"

lemmas path_eval = Join_def Clean_def Let_def IsAbs_def clean_comps_def clean_step_def

lemma demo_roots:
  "FindProjectRoot (demo_mark ''/a'') None ''/a'' = Some ''/a''"
  "FindProjectRoot (demo_mark ''/b'') None ''/b'' = Some ''/b''"
  by (simp_all add: FindProjectRoot_def Abs_def path_eval projectMarkerFile_def demo_mark_def find_root_loop.simps [of _ "''/a''"]
      find_root_loop.simps [of _ "''/b''"])

lemma demo_not_asm: "\<not> isAssemblySource ''m.c''"
  by (simp add: isAssemblySource_def Ext_def path_split_def Let_def)

lemma demo_normal: "normalizeManifestPath wd ''/a/m.c'' ''/a'' = Inr ''m.c''"
  using normalize_inside [of "[''a'']" "[''m.c'']" wd] by (simp add: good_comp_def)

lemma demo_built:
  "BuildManifest id (demo_tree ''/a'') (demo_mark ''/a'') None (\<lambda>_. Inr []) (demo_co ''/a'') = Inr demo_manifest"
  using demo_roots(1) demo_not_asm demo_normal [of None]
  by (simp add: BuildManifest_def demo_co_def NewInvocation_def make_blob_def in_cwd_def hashFileBlob_def
      demo_tree_def demo_manifest_def path_eval)





definition demo_ctx :: "unit Context" where
  "demo_ctx =
     \<lparr> ctx_SourceMode = SourceModeCAS,
       ctx_Compiler = \<lparr> c_name = ''gcc'', c_path = ''gcc'', c_family = GNUFamily \<rparr>,
       ctx_Executor = \<lparr> ex_Run = \<lambda>w bin args env cwd. (w, Inl (ERun bin)), ex_ReadOutput = \<lambda>_ _. None \<rparr>,
       ctx_Host = \<lparr> h_read = \<lambda>_ _. None, h_exists = \<lambda>_ _. False, h_getwd = \<lambda>_. None, h_lookPath = \<lambda>_ _. None \<rparr>,
       ctx_IdentityOverride = Some ''img'' \<rparr>"

definition demo_cas :: Invocation where
  "demo_cas = demo_inv\<lparr> ManifestDigest := Some ''digest'' \<rparr>"



end
