(* ===== verification/Go_FS.thy ===== *)
theory Go_FS
  imports Go_Path "HOL-Library.AList"
begin

text \<open>
  The file system as the sources use it through package \<^verbatim>\<open>os\<close>: regular files with a content and a
  modification time, and directories, both named by the components of their path from the root.
  Symbolic links and permissions are left out.  Every operation may also fail for a reason the
  program does not control; \<^verbatim>\<open>Faults\<close> says when, and what a failing write or removal leaves behind.
\<close>

datatype fs_err = ENoEnt | ENotDir | EIsDir | EFault

record FS =
  fs_files :: "(string list \<times> (bytes \<times> int)) list"
  fs_dirs :: "string list list"

datatype fs_op = OpRead | OpOpen | OpWrite | OpMkdir | OpRename | OpRemove | OpStat | OpList

text \<open>
  \<open>fl_part\<close> is how much of a failing operation was done (bytes of a write, path components of a
  \<^verbatim>\<open>MkdirAll\<close>); \<open>fl_keep\<close> the files that survive a failing \<^verbatim>\<open>RemoveAll\<close>.
\<close>

record Faults =
  fl_fail :: "fs_op \<Rightarrow> string list \<Rightarrow> bool"
  fl_part :: "string list \<Rightarrow> nat"
  fl_keep :: "string list \<Rightarrow> bool"

definition noFaults :: Faults where
  "noFaults = \<lparr> fl_fail = \<lambda>_ _. False, fl_part = \<lambda>_. 0, fl_keep = \<lambda>_. True \<rparr>"

lemma noFaults_simps [simp]: "fl_fail noFaults op p = False"
  by (simp add: noFaults_def)

definition is_file :: "FS \<Rightarrow> string list \<Rightarrow> bool" where
  "is_file fs p = (map_of (fs_files fs) p \<noteq> None)"

definition is_dir :: "FS \<Rightarrow> string list \<Rightarrow> bool" where
  "is_dir fs p = (p = [] \<or> p \<in> set (fs_dirs fs))"

text \<open>A proper prefix of the path is a regular file (\<^verbatim>\<open>ENOTDIR\<close>).\<close>

definition through_file :: "FS \<Rightarrow> string list \<Rightarrow> bool" where
  "through_file fs p = list_ex (\<lambda>n. is_file fs (take n p)) [0 ..< length p]"

definition ReadFile :: "Faults \<Rightarrow> FS \<Rightarrow> string \<Rightarrow> fs_err + bytes" where
  "ReadFile fl fs path =
     (let p = fpath path
      in if through_file fs p then Inl ENotDir
         else case map_of (fs_files fs) p of
                None \<Rightarrow> Inl (if is_dir fs p then EIsDir else ENoEnt)
              | Some (data, _) \<Rightarrow> (if fl_fail fl OpRead p then Inl EFault else Inr data))"

definition set_file :: "string list \<Rightarrow> bytes \<Rightarrow> int \<Rightarrow> FS \<Rightarrow> FS" where
  "set_file p data now fs = fs\<lparr> fs_files := AList.update p (data, now) (fs_files fs) \<rparr>"

definition WriteFile :: "Faults \<Rightarrow> int \<Rightarrow> FS \<Rightarrow> string \<Rightarrow> bytes \<Rightarrow> FS \<times> fs_err option" where
  "WriteFile fl now fs path data =
     (let p = fpath path
      in if through_file fs p then (fs, Some ENotDir)
         else if is_dir fs p then (fs, Some EIsDir)
         else if \<not> is_dir fs (butlast p) then (fs, Some ENoEnt)
         else if fl_fail fl OpOpen p then (fs, Some EFault)
         else if fl_fail fl OpWrite p then (set_file p (take (fl_part fl p) data) now fs, Some EFault)
         else (set_file p data now fs, None))"

definition add_dirs :: "string list \<Rightarrow> nat \<Rightarrow> FS \<Rightarrow> FS" where
  "add_dirs p k fs =
     fs\<lparr> fs_dirs := filter (\<lambda>q. q \<notin> set (fs_dirs fs)) (map (\<lambda>n. take n p) [1 ..< Suc (min k (length p))]) @ fs_dirs fs \<rparr>"

definition MkdirAll :: "Faults \<Rightarrow> FS \<Rightarrow> string \<Rightarrow> FS \<times> fs_err option" where
  "MkdirAll fl fs path =
     (let p = fpath path
      in if is_dir fs p then (fs, None)
         else if through_file fs p \<or> is_file fs p then (fs, Some ENotDir)
         else if fl_fail fl OpMkdir p then (add_dirs p (fl_part fl p) fs, Some EFault)
         else (add_dirs p (length p) fs, None))"

text \<open>\<^verbatim>\<open>os.Rename\<close> of a regular file.\<close>

definition Rename :: "Faults \<Rightarrow> FS \<Rightarrow> string \<Rightarrow> string \<Rightarrow> FS \<times> fs_err option" where
  "Rename fl fs old new =
     (let p = fpath old; q = fpath new
      in if through_file fs p \<or> through_file fs q then (fs, Some ENotDir)
         else case map_of (fs_files fs) p of
                None \<Rightarrow> (fs, Some ENoEnt)
              | Some e \<Rightarrow>
                  (if is_dir fs q then (fs, Some EIsDir)
                   else if \<not> is_dir fs (butlast q) then (fs, Some ENoEnt)
                   else if fl_fail fl OpRename p then (fs, Some EFault)
                   else (fs\<lparr> fs_files := AList.update q e (AList.delete p (fs_files fs)) \<rparr>, None)))"

text \<open>\<^verbatim>\<open>os.Remove\<close> of a regular file.\<close>

definition Remove :: "Faults \<Rightarrow> FS \<Rightarrow> string \<Rightarrow> FS \<times> fs_err option" where
  "Remove fl fs path =
     (let p = fpath path
      in if through_file fs p then (fs, Some ENotDir)
         else if \<not> is_file fs p then (fs, Some ENoEnt)
         else if fl_fail fl OpRemove p then (fs, Some EFault)
         else (fs\<lparr> fs_files := AList.delete p (fs_files fs) \<rparr>, None))"

definition below :: "string list \<Rightarrow> string list \<Rightarrow> bool" where
  "below p q = (take (length p) q = p)"

definition RemoveAll :: "Faults \<Rightarrow> FS \<Rightarrow> string \<Rightarrow> FS \<times> fs_err option" where
  "RemoveAll fl fs path =
     (let p = fpath path
      in if fl_fail fl OpRemove p
         then (fs\<lparr> fs_files := filter (\<lambda>(q, _). \<not> below p q \<or> fl_keep fl q) (fs_files fs) \<rparr>, Some EFault)
         else (fs\<lparr> fs_files := filter (\<lambda>(q, _). \<not> below p q) (fs_files fs),
                    fs_dirs := filter (\<lambda>q. \<not> below p q) (fs_dirs fs) \<rparr>, None))"

text \<open>\<^verbatim>\<open>os.Stat\<close>, of which the sources use whether the path is a directory.\<close>

definition Stat_IsDir :: "Faults \<Rightarrow> FS \<Rightarrow> string \<Rightarrow> fs_err + bool" where
  "Stat_IsDir fl fs path =
     (let p = fpath path
      in if through_file fs p then Inl ENotDir
         else if \<not> is_file fs p \<and> \<not> is_dir fs p then Inl ENoEnt
         else if fl_fail fl OpStat p then Inl EFault
         else Inr (\<not> is_file fs p))"

text \<open>\<^verbatim>\<open>os.ReadDir\<close>: the names in the directory in order, each with whether it is a directory.\<close>

definition children :: "FS \<Rightarrow> string list \<Rightarrow> string list" where
  "children fs p =
     sort (remdups (map last (filter (\<lambda>q. q \<noteq> [] \<and> butlast q = p) (fs_dirs fs @ map fst (fs_files fs)))))"

definition ReadDir :: "Faults \<Rightarrow> FS \<Rightarrow> string \<Rightarrow> fs_err + (string \<times> bool) list" where
  "ReadDir fl fs path =
     (let p = fpath path
      in if through_file fs p \<or> is_file fs p then Inl ENotDir
         else if \<not> is_dir fs p then Inl ENoEnt
         else if fl_fail fl OpList p then Inl EFault
         else Inr (map (\<lambda>n. (n, is_dir fs (p @ [n]))) (children fs p)))"

text \<open>
  A file system in which every entry has its directory, no path is both a file and a directory,
  no path is listed twice, and the names are names of files.
\<close>

definition fs_ok :: "FS \<Rightarrow> bool" where
  "fs_ok fs \<longleftrightarrow>
     distinct (map fst (fs_files fs)) \<and> distinct (fs_dirs fs) \<and> [] \<notin> set (fs_dirs fs) \<and>
     (\<forall>p \<in> set (map fst (fs_files fs)). p \<noteq> [] \<and> p \<notin> set (fs_dirs fs) \<and> is_dir fs (butlast p) \<and> good_comps p) \<and>
     (\<forall>p \<in> set (fs_dirs fs). is_dir fs (butlast p) \<and> good_comps p)"

section \<open>What an operation leaves alone\<close>

text \<open>Two paths of which neither is inside the other.\<close>

definition unrelated :: "string list \<Rightarrow> string list \<Rightarrow> bool" where
  "unrelated p q = (\<not> below p q \<and> \<not> below q p)"

lemma unrelated_sym: "unrelated p q \<Longrightarrow> unrelated q p"
  by (simp add: unrelated_def)

lemma below_refl [simp]: "below p p"
  by (simp add: below_def)

lemma below_append [simp]: "below p (p @ q)"
  by (simp add: below_def)

lemma below_iff: "below p q \<longleftrightarrow> (\<exists>r. q = p @ r)"
  unfolding below_def by (metis append_eq_conv_conj append_take_drop_id)

lemma below_trans: "below p q \<Longrightarrow> below q r \<Longrightarrow> below p r"
  by (auto simp: below_iff)

lemma below_take [simp]: "below (take n p) p"
  by (auto simp: below_iff intro: append_take_drop_id [symmetric])

lemma unrelated_same_length: "length p = length q \<Longrightarrow> p \<noteq> q \<Longrightarrow> unrelated p q"
  by (simp add: unrelated_def below_def)

lemma unrelated_append: "unrelated p q \<Longrightarrow> unrelated (p @ a) (q @ b)"
  unfolding unrelated_def below_iff by (auto simp: append_eq_append_conv2)

lemma unrelated_neq: "unrelated p q \<Longrightarrow> p \<noteq> q"
  by (auto simp: unrelated_def)

lemma through_file_iff: "through_file fs p \<longleftrightarrow> (\<exists>q. q \<noteq> p \<and> below q p \<and> is_file fs q)"
proof -
  have "through_file fs p \<longleftrightarrow> (\<exists>n < length p. is_file fs (take n p))"
    by (auto simp: through_file_def list_ex_iff)
  also have "\<dots> \<longleftrightarrow> (\<exists>q. q \<noteq> p \<and> below q p \<and> is_file fs q)"
  proof
    assume "\<exists>n < length p. is_file fs (take n p)"
    then obtain n where "n < length p" "is_file fs (take n p)" by blast
    moreover have "take n p \<noteq> p" using \<open>n < length p\<close> by (metis length_take less_irrefl min.absorb4)
    ultimately show "\<exists>q. q \<noteq> p \<and> below q p \<and> is_file fs q" using below_take by blast
  next
    assume "\<exists>q. q \<noteq> p \<and> below q p \<and> is_file fs q"
    then obtain q r where "p = q @ r" "r \<noteq> []" "is_file fs q" by (auto simp: below_iff)
    then show "\<exists>n < length p. is_file fs (take n p)" by (intro exI [of _ "length q"]) simp
  qed
  finally show ?thesis .
qed

text \<open>
  The observations at one path: what a read and a stat of it see.  They depend only on the file
  system at the path and above it.
\<close>

definition agree :: "FS \<Rightarrow> FS \<Rightarrow> string list \<Rightarrow> bool" where
  "agree fs fs' p \<longleftrightarrow>
     (\<forall>q. below q p \<longrightarrow> map_of (fs_files fs) q = map_of (fs_files fs') q) \<and> is_dir fs p = is_dir fs' p"

lemma agree_refl [simp]: "agree fs fs p"
  by (simp add: agree_def)

lemma agree_trans: "agree a b p \<Longrightarrow> agree b c p \<Longrightarrow> agree a c p"
  by (simp add: agree_def)

lemma agree_through: "agree fs fs' p \<Longrightarrow> through_file fs p = through_file fs' p"
  unfolding through_file_iff agree_def is_file_def by metis

lemma agree_ReadFile: "agree fs fs' (fpath p) \<Longrightarrow> ReadFile fl fs p = ReadFile fl fs' p"
  using agree_through [of fs fs' "fpath p"] by (simp add: ReadFile_def agree_def Let_def)

lemma agree_Stat: "agree fs fs' (fpath p) \<Longrightarrow> Stat_IsDir fl fs p = Stat_IsDir fl fs' p"
  using agree_through [of fs fs' "fpath p"] by (simp add: Stat_IsDir_def agree_def is_file_def Let_def)

lemma map_of_set_file:
  "map_of (fs_files (set_file p d t fs)) q = (if q = p then Some (d, t) else map_of (fs_files fs) q)"
  by (simp add: set_file_def update_conv')

lemma set_file_simps [simp]: "fs_dirs (set_file p d t fs) = fs_dirs fs" "is_dir (set_file p d t fs) q = is_dir fs q"
  by (simp_all add: set_file_def is_dir_def)

lemma set_file_agree: "\<not> below p q \<Longrightarrow> agree fs (set_file p d t fs) q"
  by (auto simp: agree_def map_of_set_file)

lemma WriteFile_agree: "\<not> below (fpath p) q \<Longrightarrow> agree fs (fst (WriteFile fl now fs p d)) q"
  by (simp add: WriteFile_def Let_def set_file_agree)

lemma add_dirs_files [simp]: "fs_files (add_dirs p k fs) = fs_files fs"
  by (simp add: add_dirs_def)

lemma is_dir_add_dirs:
  "is_dir (add_dirs p k fs) q \<longleftrightarrow> is_dir fs q \<or> (below q p \<and> length q \<le> k)"
proof -
  have "q \<in> set (map (\<lambda>n. take n p) [1 ..< Suc (min k (length p))]) \<longleftrightarrow> q \<noteq> [] \<and> below q p \<and> length q \<le> k"
  proof
    assume "q \<in> set (map (\<lambda>n. take n p) [1 ..< Suc (min k (length p))])"
    then obtain n where "n \<in> set [1 ..< Suc (min k (length p))]" and n: "q = take n p"
      unfolding set_map by blast
    then have "1 \<le> n" "n \<le> min k (length p)" by (simp_all only: atLeastLessThan_iff less_Suc_eq_le set_upt)
    then show "q \<noteq> [] \<and> below q p \<and> length q \<le> k" using n by auto
  next
    assume q: "q \<noteq> [] \<and> below q p \<and> length q \<le> k"
    then obtain r where "p = q @ r" by (auto simp: below_iff)
    then show "q \<in> set (map (\<lambda>n. take n p) [1 ..< Suc (min k (length p))])"
      using q length_greater_0_conv [of q] by (auto intro!: image_eqI [of _ _ "length q"] simp: Suc_le_eq simp del: length_greater_0_conv)
  qed
  then show ?thesis by (auto simp: is_dir_def add_dirs_def)
qed

lemma MkdirAll_agree: "\<not> below q (fpath p) \<Longrightarrow> agree fs (fst (MkdirAll fl fs p)) q"
  by (simp add: MkdirAll_def Let_def agree_def is_dir_add_dirs)

lemma MkdirAll_files [simp]: "fs_files (fst (MkdirAll fl fs p)) = fs_files fs"
  by (simp add: MkdirAll_def Let_def)

lemma MkdirAll_ok: "MkdirAll fl fs p = (fs', None) \<Longrightarrow> is_dir fs' (fpath p)"
  by (auto simp: MkdirAll_def Let_def is_dir_add_dirs split: if_splits)

lemma MkdirAll_keeps_dir: "is_dir fs q \<Longrightarrow> is_dir (fst (MkdirAll fl fs p)) q"
  by (simp add: MkdirAll_def Let_def is_dir_add_dirs)

lemma map_of_delete: "map_of (AList.delete p xs) q = (if q = p then None else map_of xs q)"
  by (simp add: delete_conv')

lemma Rename_agree:
  assumes "\<not> below (fpath a) q" "\<not> below (fpath b) q"
  shows "agree fs (fst (Rename fl fs a b)) q"
  using assms
  by (auto simp: Rename_def Let_def agree_def update_conv' map_of_delete is_dir_def split: option.split)

lemma Remove_agree: "\<not> below (fpath p) q \<Longrightarrow> agree fs (fst (Remove fl fs p)) q"
  by (auto simp: Remove_def Let_def agree_def map_of_delete is_dir_def)

lemma fs_dirs_unchanged [simp]:
  "fs_dirs (fst (WriteFile fl now fs p d)) = fs_dirs fs"
  "fs_dirs (fst (Rename fl fs a b)) = fs_dirs fs"
  "fs_dirs (fst (Remove fl fs p)) = fs_dirs fs"
  by (auto simp: WriteFile_def Rename_def Remove_def Let_def split: option.split)

lemma is_dir_unchanged [simp]:
  "is_dir (fst (WriteFile fl now fs p d)) q = is_dir fs q"
  "is_dir (fst (Rename fl fs a b)) q = is_dir fs q"
  "is_dir (fst (Remove fl fs p)) q = is_dir fs q"
  by (simp_all add: is_dir_def)

end
