(* ===== verification/Cache_Store.thy ===== *)
theory Cache_Store
  imports Go_FS Go_Text
begin

text \<open>
  Package \<^verbatim>\<open>cache/store\<close>: the \<^verbatim>\<open>Store\<close> interface and the disk store of
  \<^verbatim>\<open>internal/cache/store/disk.go\<close>.  A blob lives in a file \<^verbatim>\<open><dir>/<hh>/<hex key>/<name>\<close>, written
  to a temporary file first and renamed.  \<^verbatim>\<open>singleflight\<close> only merges concurrent writers of one
  destination; the operations are modelled as running one at a time.  The order in which
  \<^verbatim>\<open>sort.Slice\<close> leaves entries of equal time is not specified, so the sort is an argument.
\<close>

datatype store_err = EBadName string | EBadNamespace string | EStoreFs fs_err

text \<open>The \<^verbatim>\<open>Store\<close> interface over a state \<open>'s\<close>, with the receiver a view \<open>'v\<close> on it.\<close>

record ('s, 'v) StoreAPI =
  st_Get :: "'s \<Rightarrow> 'v \<Rightarrow> bytes \<Rightarrow> string \<Rightarrow> store_err + bytes option"
  st_Put :: "'s \<Rightarrow> 'v \<Rightarrow> bytes \<Rightarrow> string \<Rightarrow> bytes \<Rightarrow> 's \<times> store_err option"
  st_Has :: "'s \<Rightarrow> 'v \<Rightarrow> bytes \<Rightarrow> store_err + bool"
  st_Namespace :: "'v \<Rightarrow> string \<Rightarrow> store_err + 'v"

record DiskCacheStore =
  ds_dir :: string
  ds_maxSize :: int

definition bad_component :: "string \<Rightarrow> bool" where
  "bad_component s \<longleftrightarrow>
     s = [] \<or> s = ''.'' \<or> s = ''..'' \<or> list_ex (\<lambda>c. c = CHR ''/'' \<or> c = CHR 0x5C \<or> c = CHR 0x00) s"

definition validateNamespace :: "string \<Rightarrow> store_err option" where
  "validateNamespace prefix = (if bad_component prefix then Some (EBadNamespace prefix) else None)"

definition validateName :: "string \<Rightarrow> store_err option" where
  "validateName name = (if bad_component name then Some (EBadName name) else None)"

definition entryDir :: "DiskCacheStore \<Rightarrow> bytes \<Rightarrow> string" where
  "entryDir d key =
     (let h = EncodeToString key
      in if length h \<ge> 2 then Join [ds_dir d, take 2 h, h] else Join [ds_dir d, h])"

definition disk_Get :: "Faults \<Rightarrow> FS \<Rightarrow> DiskCacheStore \<Rightarrow> bytes \<Rightarrow> string \<Rightarrow> store_err + bytes option" where
  "disk_Get fl fs d key name =
     (case validateName name of
        Some e \<Rightarrow> Inl e
      | None \<Rightarrow>
          (case ReadFile fl fs (Join [entryDir d key, name]) of
             Inl ENoEnt \<Rightarrow> Inr None
           | Inl e \<Rightarrow> Inl (EStoreFs e)
           | Inr data \<Rightarrow> Inr (Some data)))"

definition writeAtomic :: "Faults \<Rightarrow> int \<Rightarrow> FS \<Rightarrow> string \<Rightarrow> bytes \<Rightarrow> FS \<times> fs_err option" where
  "writeAtomic fl now fs dst data =
     (let tmp = dst @ ''.tmp''
      in case WriteFile fl now fs tmp data of
           (fs1, Some e) \<Rightarrow> (fs1, Some e)
         | (fs1, None) \<Rightarrow>
             (case Rename fl fs1 tmp dst of
                (fs2, Some e) \<Rightarrow> (fst (Remove fl fs2 tmp), Some e)
              | (fs2, None) \<Rightarrow> (fs2, None)))"

record entryInfo =
  ei_path :: string
  ei_size :: int
  ei_modTime :: int

text \<open>Total size and latest time of the regular files directly inside a directory.\<close>

definition dirStats :: "Faults \<Rightarrow> FS \<Rightarrow> string \<Rightarrow> fs_err + int \<times> int" where
  "dirStats fl fs dir =
     ebind (ReadDir fl fs dir) (\<lambda>files.
       Inr (foldl (\<lambda>(sz, mt) (name, isdir).
              if isdir then (sz, mt)
              else let p = fpath (Join [dir, name])
                   in if fl_fail fl OpStat p then (sz, mt)
                      else case map_of (fs_files fs) p of
                             None \<Rightarrow> (sz, mt)
                           | Some (data, t) \<Rightarrow> (sz + int (length data), if t > mt then t else mt))
            (0, 0) files))"

definition scanKey :: "Faults \<Rightarrow> FS \<Rightarrow> string \<Rightarrow> string \<times> bool \<Rightarrow> entryInfo list" where
  "scanKey fl fs shardPath k =
     (if \<not> snd k then []
      else let keyPath = Join [shardPath, fst k]
           in case dirStats fl fs keyPath of
                Inl _ \<Rightarrow> []
              | Inr (sz, mt) \<Rightarrow> [\<lparr> ei_path = keyPath, ei_size = sz, ei_modTime = mt \<rparr>])"

definition scanShard :: "Faults \<Rightarrow> FS \<Rightarrow> string \<Rightarrow> string \<times> bool \<Rightarrow> entryInfo list" where
  "scanShard fl fs dir shard =
     (if \<not> snd shard then []
      else let shardPath = Join [dir, fst shard]
           in case ReadDir fl fs shardPath of
                Inl _ \<Rightarrow> []
              | Inr keys \<Rightarrow> concat (map (scanKey fl fs shardPath) keys))"

definition total_size :: "entryInfo list \<Rightarrow> int" where
  "total_size es = sum_list (map ei_size es)"

definition scanEntries :: "Faults \<Rightarrow> FS \<Rightarrow> DiskCacheStore \<Rightarrow> store_err + entryInfo list \<times> int" where
  "scanEntries fl fs d =
     (case ReadDir fl fs (ds_dir d) of
        Inl ENoEnt \<Rightarrow> Inr ([], 0)
      | Inl e \<Rightarrow> Inl (EStoreFs e)
      | Inr shards \<Rightarrow>
          (let entries = concat (map (scanShard fl fs (ds_dir d)) shards)
           in Inr (entries, total_size entries)))"

text \<open>
  The eviction loop: entries in order, until the test says stop.  A removal that fails is passed
  over without changing the running total.
\<close>

fun evict_loop :: "Faults \<Rightarrow> (entryInfo \<Rightarrow> int \<Rightarrow> bool) \<Rightarrow> FS \<Rightarrow> int \<Rightarrow> entryInfo list \<Rightarrow> FS \<times> int" where
  "evict_loop fl go fs totalSize [] = (fs, totalSize)"
| "evict_loop fl go fs totalSize (e # es) =
     (if \<not> go e totalSize then (fs, totalSize)
      else case RemoveAll fl fs (ei_path e) of
             (fs', Some _) \<Rightarrow> evict_loop fl go fs' totalSize es
           | (fs', None) \<Rightarrow> evict_loop fl go fs' (totalSize - ei_size e) es)"

definition evict :: "Faults \<Rightarrow> (entryInfo list \<Rightarrow> entryInfo list) \<Rightarrow> FS \<Rightarrow> DiskCacheStore \<Rightarrow> FS \<times> store_err option" where
  "evict fl srt fs d =
     (case scanEntries fl fs d of
        Inl e \<Rightarrow> (fs, Some e)
      | Inr (entries, totalSize) \<Rightarrow>
          (if totalSize \<le> ds_maxSize d then (fs, None)
           else (fst (evict_loop fl (\<lambda>_ tot. tot > ds_maxSize d) fs totalSize (srt entries)), None)))"

definition disk_Put ::
  "Faults \<Rightarrow> (entryInfo list \<Rightarrow> entryInfo list) \<Rightarrow> int \<Rightarrow> FS \<Rightarrow> DiskCacheStore \<Rightarrow> bytes \<Rightarrow> string \<Rightarrow> bytes \<Rightarrow> FS \<times> store_err option" where
  "disk_Put fl srt now fs d key name value =
     (case validateName name of
        Some e \<Rightarrow> (fs, Some e)
      | None \<Rightarrow>
          (let dir = entryDir d key; dst = Join [dir, name]
           in case MkdirAll fl fs dir of
                (fs1, Some e) \<Rightarrow> (fs1, Some (EStoreFs e))
              | (fs1, None) \<Rightarrow>
                  (case writeAtomic fl now fs1 dst value of
                     (fs2, Some e) \<Rightarrow> (fs2, Some (EStoreFs e))
                   | (fs2, None) \<Rightarrow> (if ds_maxSize d > 0 then evict fl srt fs2 d else (fs2, None)))))"

definition disk_Has :: "Faults \<Rightarrow> FS \<Rightarrow> DiskCacheStore \<Rightarrow> bytes \<Rightarrow> store_err + bool" where
  "disk_Has fl fs d key =
     (case Stat_IsDir fl fs (entryDir d key) of
        Inl ENoEnt \<Rightarrow> Inr False
      | Inl e \<Rightarrow> Inl (EStoreFs e)
      | Inr isdir \<Rightarrow> Inr isdir)"

text \<open>An invalid prefix panics; the panic is the error value.\<close>

definition disk_Namespace :: "DiskCacheStore \<Rightarrow> string \<Rightarrow> store_err + DiskCacheStore" where
  "disk_Namespace d prefix =
     (case validateNamespace prefix of
        Some e \<Rightarrow> Inl e
      | None \<Rightarrow> Inr \<lparr> ds_dir = Join [ds_dir d, prefix], ds_maxSize = 0 \<rparr>)"

definition disk_Stats :: "Faults \<Rightarrow> FS \<Rightarrow> DiskCacheStore \<Rightarrow> store_err + nat \<times> int" where
  "disk_Stats fl fs d = ebind (scanEntries fl fs d) (\<lambda>(ents, tot). Inr (length ents, tot))"

definition disk_Clean ::
  "Faults \<Rightarrow> (entryInfo list \<Rightarrow> entryInfo list) \<Rightarrow> int \<Rightarrow> FS \<Rightarrow> DiskCacheStore \<Rightarrow> int \<Rightarrow> int \<Rightarrow> FS \<times> store_err option" where
  "disk_Clean fl srt now fs d maxSize maxAge =
     (case scanEntries fl fs d of
        Inl e \<Rightarrow> (fs, Some e)
      | Inr (entries, totalSize) \<Rightarrow>
          (let cutoff = (if maxAge > 0 then now - maxAge else 0)
           in (fst (evict_loop fl
                 (\<lambda>e tot. (cutoff > 0 \<and> ei_modTime e < cutoff) \<or> (maxSize > 0 \<and> tot > maxSize))
                 fs totalSize (srt entries)), None)))"

definition disk_api ::
  "Faults \<Rightarrow> (entryInfo list \<Rightarrow> entryInfo list) \<Rightarrow> int \<Rightarrow> (FS, DiskCacheStore) StoreAPI" where
  "disk_api fl srt now =
     \<lparr> st_Get = disk_Get fl, st_Put = disk_Put fl srt now, st_Has = disk_Has fl, st_Namespace = disk_Namespace \<rparr>"

section \<open>The contract of a store\<close>

text \<open>Names no temporary file can have.\<close>

definition blob_name :: "string \<Rightarrow> bool" where
  "blob_name n \<longleftrightarrow> \<not> bad_component n \<and> \<not> HasSuffix n ''.tmp''"

text \<open>
  What a client of a store relies on.  \<open>usable\<close> views answer reads and have no size limit; two
  views are \<open>sep\<close> when no blob of one can be a blob of the other.
\<close>

locale blob_store =
  fixes api :: "('s, 'v) StoreAPI" and sep :: "'v \<Rightarrow> 'v \<Rightarrow> bool" and usable :: "'v \<Rightarrow> bool" and rooted :: "'v \<Rightarrow> bool"
  assumes get_put_same:
      "usable v \<Longrightarrow> key \<noteq> [] \<Longrightarrow> blob_name n \<Longrightarrow> st_Put api s v key n x = (s', None) \<Longrightarrow>
       st_Get api s' v key n = Inr (Some x)"
    and get_put_atomic:
      "usable v \<Longrightarrow> key \<noteq> [] \<Longrightarrow> blob_name n \<Longrightarrow>
       st_Get api (fst (st_Put api s v key n x)) v key n = st_Get api s v key n \<or>
       st_Get api (fst (st_Put api s v key n x)) v key n = Inr (Some x)"
    and get_put_other:
      "usable v \<Longrightarrow> key \<noteq> [] \<Longrightarrow> key' \<noteq> [] \<Longrightarrow> blob_name n \<Longrightarrow> blob_name n' \<Longrightarrow> (key, n) \<noteq> (key', n') \<Longrightarrow>
       st_Get api (fst (st_Put api s v key n x)) v key' n' = st_Get api s v key' n'"
    and get_put_sep:
      "usable v \<Longrightarrow> usable v' \<Longrightarrow> sep v v' \<Longrightarrow> key \<noteq> [] \<Longrightarrow> key' \<noteq> [] \<Longrightarrow> blob_name n \<Longrightarrow> blob_name n' \<Longrightarrow>
       st_Get api (fst (st_Put api s v key n x)) v' key' n' = st_Get api s v' key' n'"
    and has_put:
      "usable v \<Longrightarrow> key \<noteq> [] \<Longrightarrow> blob_name n \<Longrightarrow> st_Put api s v key n x = (s', None) \<Longrightarrow>
       st_Has api s' v key = Inr True"
    and has_put_mono:
      "usable v \<Longrightarrow> key \<noteq> [] \<Longrightarrow> blob_name n \<Longrightarrow> st_Has api s v key = Inr True \<Longrightarrow>
       st_Has api (fst (st_Put api s v key n x)) v key = Inr True"
    and has_put_other:
      "usable v \<Longrightarrow> key \<noteq> [] \<Longrightarrow> key' \<noteq> [] \<Longrightarrow> blob_name n \<Longrightarrow> key \<noteq> key' \<Longrightarrow>
       st_Has api (fst (st_Put api s v key n x)) v key' = st_Has api s v key'"
    and has_put_sep:
      "usable v \<Longrightarrow> usable v' \<Longrightarrow> sep v v' \<Longrightarrow> key \<noteq> [] \<Longrightarrow> key' \<noteq> [] \<Longrightarrow> blob_name n \<Longrightarrow>
       st_Has api (fst (st_Put api s v key n x)) v' key' = st_Has api s v' key'"
    and ns_usable: "rooted v \<Longrightarrow> st_Namespace api v t = Inr a \<Longrightarrow> usable a \<and> rooted a"
    and ns_sep_tenant:
      "rooted v \<Longrightarrow> st_Namespace api v t = Inr a \<Longrightarrow> st_Namespace api v t' = Inr b \<Longrightarrow> t \<noteq> t' \<Longrightarrow> sep a b"
    and ns_sep:
      "rooted v \<Longrightarrow> rooted v' \<Longrightarrow> sep v v' \<Longrightarrow> st_Namespace api v t = Inr a \<Longrightarrow> st_Namespace api v' t' = Inr b \<Longrightarrow> sep a b"
    and sep_sym: "sep v v' \<Longrightarrow> sep v' v"

section \<open>The disk store keeps the contract\<close>

definition disk_rooted :: "Faults \<Rightarrow> DiskCacheStore \<Rightarrow> bool" where
  "disk_rooted fl d \<longleftrightarrow>
     (\<exists>cs. good_comps cs \<and> ds_dir d = abs_path cs) \<and>
     (\<forall>p. \<not> fl_fail fl OpRead (fpath (ds_dir d) @ p) \<and> \<not> fl_fail fl OpStat (fpath (ds_dir d) @ p))"

definition disk_usable :: "Faults \<Rightarrow> DiskCacheStore \<Rightarrow> bool" where
  "disk_usable fl d \<longleftrightarrow> disk_rooted fl d \<and> ds_maxSize d = 0"

definition disk_sep :: "DiskCacheStore \<Rightarrow> DiskCacheStore \<Rightarrow> bool" where
  "disk_sep d d' = unrelated (fpath (ds_dir d)) (fpath (ds_dir d'))"

definition blob_path :: "DiskCacheStore \<Rightarrow> bytes \<Rightarrow> string \<Rightarrow> string list" where
  "blob_path d key n = fpath (ds_dir d) @ [take 2 (EncodeToString key), EncodeToString key, n]"

definition entry_path :: "DiskCacheStore \<Rightarrow> bytes \<Rightarrow> string list" where
  "entry_path d key = fpath (ds_dir d) @ [take 2 (EncodeToString key), EncodeToString key]"

lemma not_bad_good: "\<not> bad_component c \<Longrightarrow> good_comp c"
  by (auto simp: bad_component_def good_comp_def list_ex_iff)

lemma hex_char_not_special: "hex_char c \<Longrightarrow> c \<noteq> slash \<and> c \<noteq> CHR ''.''"
  by (auto simp: hex_char_def)

lemma hex_good:
  assumes "key \<noteq> []"
  shows "good_comp (EncodeToString key)" "good_comp (take 2 (EncodeToString key))"
proof -
  have ne: "EncodeToString key \<noteq> []" using assms by (cases key) simp_all
  have h: "\<forall>c \<in> set (EncodeToString key). c \<noteq> slash \<and> c \<noteq> CHR ''.''"
    using EncodeToString_hex hex_char_not_special by blast
  have g: "good_comp x" if "x \<noteq> []" "set x \<subseteq> set (EncodeToString key)" for x
    using that h by (cases x) (auto simp: good_comp_def)
  show "good_comp (EncodeToString key)" using g ne by blast
  show "good_comp (take 2 (EncodeToString key))" using g ne by (simp add: set_take_subset)
qed

lemma entryDir_path:
  assumes "disk_rooted fl d" "key \<noteq> []"
  shows "entryDir d key = abs_path (entry_path d key)" "good_comps (entry_path d key)"
proof -
  obtain cs where cs: "good_comps cs" "ds_dir d = abs_path cs" using assms(1) by (auto simp: disk_rooted_def)
  have "2 \<le> length (EncodeToString key)" using assms(2) by (cases key) auto
  then show "entryDir d key = abs_path (entry_path d key)"
    using cs hex_good [OF assms(2)] by (simp add: entryDir_def entry_path_def Let_def Join_comp2)
  show "good_comps (entry_path d key)" using cs hex_good [OF assms(2)] by (auto simp: entry_path_def)
qed

lemma fpath_entryDir: "disk_rooted fl d \<Longrightarrow> key \<noteq> [] \<Longrightarrow> fpath (entryDir d key) = entry_path d key"
  using entryDir_path fpath_abs by metis

lemma blob_file:
  assumes "disk_rooted fl d" "key \<noteq> []" "\<not> bad_component n"
  shows "Join [entryDir d key, n] = abs_path (blob_path d key n)" "good_comps (blob_path d key n)"
  using entryDir_path [OF assms(1,2)] Join_comp [of "entry_path d key" n] not_bad_good [OF assms(3)]
  by (auto simp: blob_path_def entry_path_def)

lemma abs_path_suffix: "cs \<noteq> [] \<Longrightarrow> abs_path (cs @ [c]) @ e = abs_path (cs @ [c @ e])"
  by (simp add: join_snoc)

lemma blob_fpath:
  assumes "disk_rooted fl d" "key \<noteq> []" "\<not> bad_component n"
  shows "fpath (Join [entryDir d key, n]) = blob_path d key n"
    "fpath (Join [entryDir d key, n] @ ''.tmp'') = blob_path d key (n @ ''.tmp'')"
proof -
  note b = blob_file [OF assms]
  show "fpath (Join [entryDir d key, n]) = blob_path d key n" unfolding b(1) using b(2) by (rule fpath_abs)
  have "good_comp (n @ ''.tmp'')" using not_bad_good [OF assms(3)] by (auto simp: good_comp_def)
  then have g: "good_comps (blob_path d key (n @ ''.tmp''))" using b(2) by (auto simp: blob_path_def)
  have "Join [entryDir d key, n] @ ''.tmp'' = abs_path (blob_path d key (n @ ''.tmp''))"
    unfolding b(1) blob_path_def
    using abs_path_suffix [of "fpath (ds_dir d) @ [take 2 (EncodeToString key), EncodeToString key]" n "''.tmp''"] by simp
  then show "fpath (Join [entryDir d key, n] @ ''.tmp'') = blob_path d key (n @ ''.tmp'')"
    using g by (simp only: fpath_abs)
qed

lemma writeAtomic_agree:
  assumes "\<not> below (fpath dst) q" "\<not> below (fpath (dst @ ''.tmp'')) q"
  shows "agree fs (fst (writeAtomic fl now fs dst x)) q"
proof -
  let ?t = "dst @ ''.tmp''"
  obtain fs1 r1 where w: "WriteFile fl now fs ?t x = (fs1, r1)" by fastforce
  obtain fs2 r2 where r: "Rename fl fs1 ?t dst = (fs2, r2)" by fastforce
  have "agree fs fs1 q" using WriteFile_agree [OF assms(2), of fs fl now x] w by simp
  moreover have "agree fs1 fs2 q" using Rename_agree [OF assms(2,1), of fs1 fl] r by simp
  moreover have "agree fs2 (fst (Remove fl fs2 ?t)) q" using Remove_agree [OF assms(2)] .
  ultimately show ?thesis
    by (auto simp: writeAtomic_def w r intro: agree_trans split: option.split)
qed

lemma writeAtomic_is_dir [simp]: "is_dir (fst (writeAtomic fl now fs dst x)) q = is_dir fs q"
  by (simp add: writeAtomic_def Let_def split_beta split: option.split)

text \<open>A failed atomic write leaves the destination as it was; a successful one replaces it.\<close>

lemma writeAtomic_fail:
  assumes "writeAtomic fl now fs dst x = (fs', Some e)" "\<not> below (fpath (dst @ ''.tmp'')) (fpath dst)"
  shows "agree fs fs' (fpath dst)"
proof -
  let ?t = "dst @ ''.tmp''" and ?q = "fpath dst"
  obtain fs1 r1 where w: "WriteFile fl now fs ?t x = (fs1, r1)" by fastforce
  obtain fs2 r2 where r: "Rename fl fs1 ?t dst = (fs2, r2)" by fastforce
  have a: "agree fs fs1 ?q" using WriteFile_agree [OF assms(2), of fs fl now x] w by simp
  show ?thesis
  proof (cases r1)
    case (Some e1)
    then show ?thesis using assms(1) a w by (simp add: writeAtomic_def)
  next
    case None
    then obtain e2 where "r2 = Some e2" using assms(1) w r by (cases r2) (auto simp: writeAtomic_def)
    then have "fs2 = fs1" "fs' = fst (Remove fl fs2 ?t)"
      using assms(1) w r None by (auto simp: writeAtomic_def Rename_def Let_def split: if_splits option.splits)
    then show ?thesis using a Remove_agree [OF assms(2), of fs2 fl] agree_trans by metis
  qed
qed

lemma writeAtomic_ok:
  assumes "writeAtomic fl now fs dst x = (fs', None)"
  shows "map_of (fs_files fs') (fpath dst) = Some (x, now)" "\<not> through_file fs' (fpath dst)"
    "\<not> through_file fs (fpath (dst @ ''.tmp''))"
proof -
  let ?t = "dst @ ''.tmp''" and ?q = "fpath dst"
  obtain fs1 r1 where w: "WriteFile fl now fs ?t x = (fs1, r1)" by fastforce
  obtain fs2 r2 where r: "Rename fl fs1 ?t dst = (fs2, r2)" by fastforce
  have n: "r1 = None" "r2 = None" "fs' = fs2"
    using assms w r by (auto simp: writeAtomic_def Let_def split: option.splits)
  have f1: "fs1 = set_file (fpath ?t) x now fs" and th: "\<not> through_file fs (fpath ?t)"
    using w n by (auto simp: WriteFile_def Let_def split: if_splits)
  then have m: "map_of (fs_files fs1) (fpath ?t) = Some (x, now)" by (simp add: map_of_set_file)
  have f2: "fs2 = fs1\<lparr> fs_files := AList.update ?q (x, now) (AList.delete (fpath ?t) (fs_files fs1)) \<rparr>"
    and th1: "\<not> through_file fs1 ?q"
    using r n m by (auto simp: Rename_def Let_def split: if_splits option.splits)
  show "map_of (fs_files fs') ?q = Some (x, now)" using n f2 by (simp add: update_conv')
  show "\<not> through_file fs' ?q"
    using th1 n f2 by (auto simp: through_file_iff is_file_def update_conv' map_of_delete split: if_splits)
  show "\<not> through_file fs (fpath ?t)" using th .
qed

lemma disk_Put_cases:
  assumes "disk_usable fl d" "key \<noteq> []" "blob_name n"
  obtains (mkdir) fs' e where "MkdirAll fl fs (entryDir d key) = (fs', Some e)" "disk_Put fl srt now fs d key n x = (fs', Some (EStoreFs e))"
  | (fail) fs' fs1 e where "MkdirAll fl fs (entryDir d key) = (fs1, None)"
      "writeAtomic fl now fs1 (Join [entryDir d key, n]) x = (fs', Some e)" "disk_Put fl srt now fs d key n x = (fs', Some (EStoreFs e))"
  | (ok) fs' fs1 where "MkdirAll fl fs (entryDir d key) = (fs1, None)"
      "writeAtomic fl now fs1 (Join [entryDir d key, n]) x = (fs', None)" "disk_Put fl srt now fs d key n x = (fs', None)"
  using assms
  by (cases "MkdirAll fl fs (entryDir d key)"; cases "snd (MkdirAll fl fs (entryDir d key))";
      cases "writeAtomic fl now (fst (MkdirAll fl fs (entryDir d key))) (Join [entryDir d key, n]) x";
      cases "snd (writeAtomic fl now (fst (MkdirAll fl fs (entryDir d key))) (Join [entryDir d key, n]) x)")
     (simp_all add: disk_Put_def validateName_def blob_name_def disk_usable_def Let_def)

lemma disk_Put_agree:
  assumes u: "disk_usable fl d" "key \<noteq> []" "blob_name n"
    and q: "\<not> below q (entry_path d key)" "\<not> below (blob_path d key n) q" "\<not> below (blob_path d key (n @ ''.tmp'')) q"
  shows "agree fs (fst (disk_Put fl srt now fs d key n x)) q"
proof -
  have r: "disk_rooted fl d" "\<not> bad_component n" using u by (simp_all add: disk_usable_def blob_name_def)
  note p = blob_fpath [OF r(1) u(2) r(2)] fpath_entryDir [OF r(1) u(2)]
  obtain fs' r' where P: "disk_Put fl srt now fs d key n x = (fs', r')" by fastforce
  have m: "agree fs (fst (MkdirAll fl fs (entryDir d key))) q" using MkdirAll_agree [of q "entryDir d key"] q(1) p(3) by simp
  have w: "agree fs1 (fst (writeAtomic fl now fs1 (Join [entryDir d key, n]) x)) q" for fs1
    using writeAtomic_agree [of "Join [entryDir d key, n]" q] q(2,3) p(1,2) by simp
  show ?thesis
  proof (cases rule: disk_Put_cases [OF u, where fs = fs and srt = srt and now = now and x = x, case_names mkdir fail ok])
    case (mkdir fs' e)
    then show ?thesis using m by simp
  next
    case (fail fs' fs1 e)
    then show ?thesis using m w [of fs1] agree_trans by auto
  next
    case (ok fs' fs1)
    then show ?thesis using m w [of fs1] agree_trans by auto
  qed
qed

lemma blob_path_neq:
  assumes "(key, n) \<noteq> (key', n')"
  shows "blob_path d key n \<noteq> blob_path d key' n'"
  using assms by (auto simp: blob_path_def)

lemma blob_not_tmp: "blob_name n' \<Longrightarrow> n @ ''.tmp'' \<noteq> n'"
  by (auto simp: blob_name_def HasSuffix_iff)

lemma length_paths [simp]:
  "length (blob_path d key n) = length (fpath (ds_dir d)) + 3" "length (entry_path d key) = length (fpath (ds_dir d)) + 2"
  by (simp_all add: blob_path_def entry_path_def)

lemma not_below_longer: "length q < length p \<Longrightarrow> \<not> below p q"
  by (auto simp: below_iff)

lemma not_below_same: "length q = length p \<Longrightarrow> p \<noteq> q \<Longrightarrow> \<not> below p q"
  by (simp add: below_def)

lemma agree_disk_Get:
  assumes "disk_rooted fl d" "key \<noteq> []" "blob_name n" "agree fs fs' (blob_path d key n)"
  shows "disk_Get fl fs' d key n = disk_Get fl fs d key n"
proof -
  have "fpath (Join [entryDir d key, n]) = blob_path d key n" using assms blob_fpath(1) by (simp add: blob_name_def)
  then have "ReadFile fl fs (Join [entryDir d key, n]) = ReadFile fl fs' (Join [entryDir d key, n])"
    using assms(4) by (intro agree_ReadFile) simp
  then show ?thesis by (simp only: disk_Get_def)
qed

lemma agree_disk_Has:
  assumes "disk_rooted fl d" "key \<noteq> []" "agree fs fs' (entry_path d key)"
  shows "disk_Has fl fs' d key = disk_Has fl fs d key"
proof -
  have "Stat_IsDir fl fs (entryDir d key) = Stat_IsDir fl fs' (entryDir d key)"
    using assms fpath_entryDir by (intro agree_Stat) simp
  then show ?thesis by (simp only: disk_Has_def)
qed

lemma disk_get_put_other:
  assumes "disk_usable fl d" "key \<noteq> []" "key' \<noteq> []" "blob_name n" "blob_name n'" "(key, n) \<noteq> (key', n')"
  shows "disk_Get fl (fst (disk_Put fl srt now fs d key n x)) d key' n' = disk_Get fl fs d key' n'"
proof -
  have r: "disk_rooted fl d" using assms by (simp add: disk_usable_def)
  have "agree fs (fst (disk_Put fl srt now fs d key n x)) (blob_path d key' n')"
    by (rule disk_Put_agree [OF assms(1,2,4)]; rule not_below_longer not_below_same)
       (use assms blob_path_neq [of key n key' n' d] blob_path_neq [of key "n @ ''.tmp''" key' n' d] blob_not_tmp [of n' n] in auto)
  then show ?thesis by (rule agree_disk_Get [OF r assms(3,5)])
qed

lemma disk_has_put_other:
  assumes "disk_usable fl d" "key \<noteq> []" "key' \<noteq> []" "blob_name n" "key \<noteq> key'"
  shows "disk_Has fl (fst (disk_Put fl srt now fs d key n x)) d key' = disk_Has fl fs d key'"
proof -
  have r: "disk_rooted fl d" using assms by (simp add: disk_usable_def)
  have "agree fs (fst (disk_Put fl srt now fs d key n x)) (entry_path d key')"
    by (rule disk_Put_agree [OF assms(1,2,4)]; rule not_below_longer not_below_same)
       (use assms(5) in \<open>auto simp: entry_path_def\<close>)
  then show ?thesis by (rule agree_disk_Has [OF r assms(3)])
qed

lemma disk_sep_agree:
  assumes "disk_usable fl d" "key \<noteq> []" "blob_name n" "disk_sep d d'"
  shows "agree fs (fst (disk_Put fl srt now fs d key n x)) (fpath (ds_dir d') @ q)"
  by (rule disk_Put_agree [OF assms(1-3)])
     (use assms(4) unrelated_append [of "fpath (ds_dir d)" "fpath (ds_dir d')" _ q] in
      \<open>auto simp: disk_sep_def entry_path_def blob_path_def unrelated_def\<close>)

lemma disk_put_sep:
  assumes "disk_usable fl d" "disk_usable fl d'" "disk_sep d d'" "key \<noteq> []" "key' \<noteq> []" "blob_name n"
  shows "blob_name n' \<Longrightarrow> disk_Get fl (fst (disk_Put fl srt now fs d key n x)) d' key' n' = disk_Get fl fs d' key' n'"
    "disk_Has fl (fst (disk_Put fl srt now fs d key n x)) d' key' = disk_Has fl fs d' key'"
proof -
  have r: "disk_rooted fl d'" using assms by (simp add: disk_usable_def)
  note a = disk_sep_agree [OF assms(1,4,6,3)]
  show "disk_Get fl (fst (disk_Put fl srt now fs d key n x)) d' key' n' = disk_Get fl fs d' key' n'" if "blob_name n'"
    by (rule agree_disk_Get [OF r assms(5) that]) (simp add: blob_path_def a)
  show "disk_Has fl (fst (disk_Put fl srt now fs d key n x)) d' key' = disk_Has fl fs d' key'"
    by (rule agree_disk_Has [OF r assms(5)]) (simp add: entry_path_def a)
qed

lemma disk_put_ok:
  assumes "disk_usable fl d" "key \<noteq> []" "blob_name n" "disk_Put fl srt now fs d key n x = (fs', None)"
  shows "disk_Get fl fs' d key n = Inr (Some x)" "disk_Has fl fs' d key = Inr True"
proof -
  have r: "disk_rooted fl d" "\<not> bad_component n" using assms by (simp_all add: disk_usable_def blob_name_def)
  note p = blob_fpath [OF r(1) assms(2) r(2)] fpath_entryDir [OF r(1) assms(2)]
  have nf: "\<not> fl_fail fl OpRead (blob_path d key n)" "\<not> fl_fail fl OpStat (entry_path d key)"
    using r(1) by (simp_all add: disk_rooted_def blob_path_def entry_path_def)
  obtain fs1 where m: "MkdirAll fl fs (entryDir d key) = (fs1, None)"
    and w: "writeAtomic fl now fs1 (Join [entryDir d key, n]) x = (fs', None)"
    using assms(4) by (cases rule: disk_Put_cases [OF assms(1-3), where fs = fs and srt = srt and now = now and x = x, case_names mkdir fail ok]) auto
  note k = writeAtomic_ok [OF w]
  show "disk_Get fl fs' d key n = Inr (Some x)"
    using k nf r by (simp add: disk_Get_def validateName_def ReadFile_def p Let_def)
  have d: "is_dir fs' (entry_path d key)"
    using MkdirAll_ok [OF m] writeAtomic_is_dir [of fl now fs1 _ x] w p(3) by (metis fst_conv)
  have e: "blob_path d key n = entry_path d key @ [n]" by (simp add: blob_path_def entry_path_def)
  have "\<not> is_file fs' q" if "below q (entry_path d key)" for q
    using k(2) that unfolding through_file_iff p e
    by (metis below_append below_trans length_append_singleton n_not_Suc_n not_below_longer lessI)
  then show "disk_Has fl fs' d key = Inr True"
    using d nf(2) by (auto simp: disk_Has_def Stat_IsDir_def p Let_def through_file_iff)
qed

lemma disk_put_fail:
  assumes "disk_usable fl d" "key \<noteq> []" "blob_name n" "disk_Put fl srt now fs d key n x = (fs', Some e)"
  shows "disk_Get fl fs' d key n = disk_Get fl fs d key n"
proof -
  have r: "disk_rooted fl d" "\<not> bad_component n" using assms by (simp_all add: disk_usable_def blob_name_def)
  note p = blob_fpath [OF r(1) assms(2) r(2)] fpath_entryDir [OF r(1) assms(2)]
  have m: "agree fs (fst (MkdirAll fl fs (entryDir d key))) (blob_path d key n)"
    by (rule MkdirAll_agree) (simp add: p not_below_longer)
  have t: "\<not> below (blob_path d key (n @ ''.tmp'')) (blob_path d key n)"
    by (simp add: below_def blob_path_def)
  have "agree fs fs' (blob_path d key n)"
  proof (cases rule: disk_Put_cases [OF assms(1-3), where fs = fs and srt = srt and now = now and x = x, case_names mkdir fail ok])
    case (mkdir fs2 e2)
    then show ?thesis using m assms(4) by simp
  next
    case (fail fs2 fs1 e2)
    then show ?thesis using m assms(4) writeAtomic_fail [of fl now fs1 _ x fs2 e2] p t agree_trans by fastforce
  next
    case (ok fs2 fs1)
    then show ?thesis using assms(4) by simp
  qed
  then show ?thesis by (rule agree_disk_Get [OF r(1) assms(2,3)])
qed

lemma disk_has_mono:
  assumes "disk_usable fl d" "key \<noteq> []" "blob_name n" "disk_Has fl fs d key = Inr True"
  shows "disk_Has fl (fst (disk_Put fl srt now fs d key n x)) d key = Inr True"
proof -
  have r: "disk_rooted fl d" "\<not> bad_component n" using assms by (simp_all add: disk_usable_def blob_name_def)
  note p = blob_fpath [OF r(1) assms(2) r(2)] fpath_entryDir [OF r(1) assms(2)]
  have "is_dir fs (entry_path d key)"
    using assms(4) by (auto simp: disk_Has_def Stat_IsDir_def p Let_def split: if_splits)
  then have mk: "MkdirAll fl fs (entryDir d key) = (fs, None)" by (simp add: MkdirAll_def p)
  have "agree fs (fst (writeAtomic fl now fs (Join [entryDir d key, n]) x)) (entry_path d key)"
    by (rule writeAtomic_agree) (simp_all add: p not_below_longer)
  then have "agree fs (fst (disk_Put fl srt now fs d key n x)) (entry_path d key)"
    using mk by (cases rule: disk_Put_cases [OF assms(1-3), where fs = fs and srt = srt and now = now and x = x, case_names mkdir fail ok]) simp_all
  then show ?thesis using agree_disk_Has [OF r(1) assms(2)] assms(4) by simp
qed

lemma disk_ns:
  assumes "disk_rooted fl d" "disk_Namespace d t = Inr a"
  shows "fpath (ds_dir a) = fpath (ds_dir d) @ [t]" "disk_usable fl a" "disk_rooted fl a"
proof -
  obtain cs where cs: "good_comps cs" "ds_dir d = abs_path cs" using assms(1) by (auto simp: disk_rooted_def)
  have t: "\<not> bad_component t" and a: "a = \<lparr> ds_dir = Join [ds_dir d, t], ds_maxSize = 0 \<rparr>"
    using assms(2) by (auto simp: disk_Namespace_def validateNamespace_def split: if_splits)
  have j: "Join [ds_dir d, t] = abs_path (cs @ [t])" using cs not_bad_good [OF t] by (simp add: Join_comp)
  have g: "good_comps (cs @ [t])" using cs not_bad_good [OF t] by auto
  show f: "fpath (ds_dir a) = fpath (ds_dir d) @ [t]"
    using fpath_abs [OF g] fpath_abs [OF cs(1)] j cs(2) by (simp add: a)
  have "\<exists>cs. good_comps cs \<and> ds_dir a = abs_path cs" using g a j by (intro exI [of _ "cs @ [t]"]) simp
  then show r: "disk_rooted fl a"
    using assms(1) by (simp add: disk_rooted_def f)
  show "disk_usable fl a" using r a by (simp add: disk_usable_def)
qed

interpretation disk: blob_store "disk_api fl srt now" disk_sep "disk_usable fl" "disk_rooted fl" for fl srt now
proof unfold_locales
  fix v t a v' b t'
  show "disk_sep v v' \<Longrightarrow> disk_sep v' v" by (simp add: disk_sep_def unrelated_def)
  assume v: "disk_rooted fl v" and a: "st_Namespace (disk_api fl srt now) v t = Inr a"
  have a': "disk_Namespace v t = Inr a" using a by (simp add: disk_api_def)
  then show "disk_usable fl a \<and> disk_rooted fl a" using disk_ns [OF v] by blast
  show "disk_sep a b" if "st_Namespace (disk_api fl srt now) v t' = Inr b" "t \<noteq> t'"
    using disk_ns(1) [OF v a'] disk_ns(1) [OF v, of t' b] that
    by (simp add: disk_api_def disk_sep_def unrelated_same_length)
  show "disk_sep a b" if "disk_rooted fl v'" "disk_sep v v'" "st_Namespace (disk_api fl srt now) v' t' = Inr b"
    using disk_ns(1) [OF v a'] disk_ns(1) [OF that(1), of t' b] that(2,3)
    by (simp add: disk_api_def disk_sep_def unrelated_append)
next
  fix v and key :: bytes and n s x
  assume a: "disk_usable fl v" "key \<noteq> []" "blob_name n"
  obtain s' r where p: "disk_Put fl srt now s v key n x = (s', r)" by fastforce
  show "st_Get (disk_api fl srt now) (fst (st_Put (disk_api fl srt now) s v key n x)) v key n =
          st_Get (disk_api fl srt now) s v key n \<or>
        st_Get (disk_api fl srt now) (fst (st_Put (disk_api fl srt now) s v key n x)) v key n = Inr (Some x)"
    using disk_put_ok(1) [OF a] disk_put_fail [OF a] p by (cases r) (simp_all add: disk_api_def)
qed (simp_all add: disk_api_def disk_put_ok disk_get_put_other disk_put_sep disk_has_mono disk_has_put_other)

end
