(* ===== verification/Cache_Compile.thy ===== *)
theory Cache_Compile
  imports Cache_Store Compiler_Driver
begin

text \<open>
  \<^verbatim>\<open>internal/cache/compile.go\<close>: the compile cache over an ordered list of stores.  An entry is a set of
  named blobs under the cache key, in the tenant's namespace of the \<^verbatim>\<open>compile\<close> namespace of each
  store.  The store is reached only through its interface, so the facts here hold for every store
  that keeps the contract \<^verbatim>\<open>blob_store\<close>.  The JSON of the informational \<^verbatim>\<open>metadata\<close> blob, which nothing
  reads back, is an argument, as is the read of an output file left on disk.
\<close>

definition blobOutput :: string where "blobOutput = ''output''"
definition blobStdout :: string where "blobStdout = ''stdout''"
definition blobStderr :: string where "blobStderr = ''stderr''"
definition blobExitCode :: string where "blobExitCode = ''exit_code''"
definition blobMetadata :: string where "blobMetadata = ''metadata''"
definition blobExtras :: string where "blobExtras = ''extras''"

definition TenantLocal :: string where "TenantLocal = ''local''"

lemmas blob_defs = blobOutput_def blobStdout_def blobStderr_def blobExitCode_def blobMetadata_def blobExtras_def

datatype cc_err = ETenantRequired | EKey comp_err | EReadFile fs_err | EStore store_err | ENsPanic store_err

record ('w, 'v) CompileCache =
  cc_ctx :: "'w Context"
  cc_stores :: "'v list"

definition BEUint32 :: "bytes \<Rightarrow> 32 word" where "BEUint32 bs = of_nat (be_dec (take 4 bs))"
definition BEUint64 :: "bytes \<Rightarrow> 64 word" where "BEUint64 bs = of_nat (be_dec (take 8 bs))"

definition extras_at :: "(string \<times> bytes) list \<Rightarrow> string \<Rightarrow> bytes" where
  "extras_at extras p = (case map_of extras p of None \<Rightarrow> [] | Some v \<Rightarrow> v)"

definition encodeExtra :: "string \<Rightarrow> bytes \<Rightarrow> bytes" where
  "encodeExtra p v = BEPutUint32 (of_nat (length p)) @ p @ BEPutUint64 (of_nat (length v)) @ v"

definition encodeExtras :: "(string \<times> bytes) list \<Rightarrow> bytes" where
  "encodeExtras extras =
     (let paths = sort (map fst extras)
      in BEPutUint32 (of_nat (length paths)) @ concat (map (\<lambda>p. encodeExtra p (extras_at extras p)) paths))"

text \<open>The decoding loop on what is left of the data, with the entries to come and the map so far.\<close>

fun decodeExtras_loop :: "nat \<Rightarrow> bytes \<Rightarrow> (string \<times> bytes) list \<Rightarrow> (string \<times> bytes) list option" where
  "decodeExtras_loop 0 rest out = Some out"
| "decodeExtras_loop (Suc cnt) rest out =
     (if length rest < 4 then None
      else let pl = unat (BEUint32 rest); rest1 = drop 4 rest
           in if length rest1 < pl + 8 then None
              else let path = take pl rest1; rest2 = drop pl rest1; vl = unat (BEUint64 rest2); rest3 = drop 8 rest2
                   in if length rest3 < vl then None
                      else decodeExtras_loop cnt (drop vl rest3) (AList.update path (take vl rest3) out))"

definition decodeExtras :: "bytes \<Rightarrow> (string \<times> bytes) list option" where
  "decodeExtras data =
     (if length data < 4 then None else decodeExtras_loop (unat (BEUint32 data)) (drop 4 data) [])"

definition load_extras :: "store_err + bytes option \<Rightarrow> (string \<times> bytes) list" where
  "load_extras r =
     (case r of
        Inr (Some raw) \<Rightarrow> (case decodeExtras raw of None \<Rightarrow> [] | Some extras \<Rightarrow> extras)
      | _ \<Rightarrow> [])"

definition nil_bytes :: "bytes option \<Rightarrow> bytes" where
  "nil_bytes r = (case r of None \<Rightarrow> [] | Some b \<Rightarrow> b)"

definition loadEntry ::
  "('s, 'v) StoreAPI \<Rightarrow> 's \<Rightarrow> 'v \<Rightarrow> bytes \<Rightarrow> string \<Rightarrow> store_err + InvocationResult option" where
  "loadEntry api s ts key outputPath =
     ebind (st_Get api s ts key blobExitCode) (\<lambda>raw.
       case raw of
         None \<Rightarrow> Inr None
       | Some exitCodeRaw \<Rightarrow>
           (case Atoi exitCodeRaw of
              None \<Rightarrow> Inr None
            | Some exitCode \<Rightarrow>
                ebind (st_Get api s ts key blobStdout) (\<lambda>stdout.
                ebind (st_Get api s ts key blobStderr) (\<lambda>stderr.
                  let res = \<lparr> ir_Output = [], ir_Stdout = nil_bytes stdout, ir_Stderr = nil_bytes stderr,
                              ir_ExitCode = exitCode, ir_Extras = load_extras (st_Get api s ts key blobExtras) \<rparr>
                  in if outputPath = [] then Inr (Some res)
                     else ebind (st_Get api s ts key blobOutput) (\<lambda>output.
                            case output of
                              None \<Rightarrow> Inr None
                            | Some out \<Rightarrow> Inr (Some (res\<lparr> ir_Output := out \<rparr>)))))))"

fun namespace_all :: "('s, 'v) StoreAPI \<Rightarrow> string \<Rightarrow> 'v list \<Rightarrow> store_err + 'v list" where
  "namespace_all api t [] = Inr []"
| "namespace_all api t (v # vs) =
     ebind (st_Namespace api v t) (\<lambda>a. ebind (namespace_all api t vs) (\<lambda>as. Inr (a # as)))"

definition NewCompileCache ::
  "('s, 'v) StoreAPI \<Rightarrow> 'w Context \<Rightarrow> 'v list \<Rightarrow> store_err + ('w, 'v) CompileCache" where
  "NewCompileCache api ctx stores =
     ebind (namespace_all api ''compile'' stores) (\<lambda>vs. Inr \<lparr> cc_ctx = ctx, cc_stores = vs \<rparr>)"

fun lookup_loop ::
  "('s, 'v) StoreAPI \<Rightarrow> 's \<Rightarrow> string \<Rightarrow> bytes \<Rightarrow> string \<Rightarrow> 'v list \<Rightarrow> cc_err + InvocationResult option" where
  "lookup_loop api s tenantID key outputPath [] = Inr None"
| "lookup_loop api s tenantID key outputPath (v # vs) =
     (case st_Namespace api v tenantID of
        Inl e \<Rightarrow> Inl (ENsPanic e)
      | Inr ts \<Rightarrow>
          (if st_Has api s ts key \<noteq> Inr True then lookup_loop api s tenantID key outputPath vs
           else case loadEntry api s ts key outputPath of
                  Inl e \<Rightarrow> Inl (EStore e)
                | Inr None \<Rightarrow> lookup_loop api s tenantID key outputPath vs
                | Inr (Some res) \<Rightarrow> Inr (Some res)))"

definition CompileCache_Lookup ::
  "(bytes \<Rightarrow> bytes) \<Rightarrow> ('s, 'v) StoreAPI \<Rightarrow> ('w, 'v) CompileCache \<Rightarrow> 'w \<Rightarrow> 's \<Rightarrow> Invocation \<Rightarrow> string \<Rightarrow>
     'w \<times> (cc_err + InvocationResult option)" where
  "CompileCache_Lookup H api c w s iv tenantID =
     (if cc_stores c = [] then (w, Inr None)
      else if tenantID = [] then (w, Inl ETenantRequired)
      else case CacheKey H (cc_ctx c) w iv of
             (w', Inl e) \<Rightarrow> (w', Inl (EKey e))
           | (w', Inr key) \<Rightarrow> (w', lookup_loop api s tenantID key (Output iv) (cc_stores c)))"

text \<open>The writes of one entry, in order, up to the first that fails.\<close>

fun put_all :: "('s, 'v) StoreAPI \<Rightarrow> 'v \<Rightarrow> bytes \<Rightarrow> 's \<Rightarrow> (string \<times> bytes) list \<Rightarrow> 's \<times> store_err option" where
  "put_all api ts key s [] = (s, None)"
| "put_all api ts key s ((n, x) # bs) =
     (case st_Put api s ts key n x of
        (s', Some e) \<Rightarrow> (s', Some e)
      | (s', None) \<Rightarrow> put_all api ts key s' bs)"

fun store_loop :: "('s, 'v) StoreAPI \<Rightarrow> string \<Rightarrow> bytes \<Rightarrow> (string \<times> bytes) list \<Rightarrow> 's \<Rightarrow> 'v list \<Rightarrow> 's \<times> cc_err option" where
  "store_loop api tenantID key blobs s [] = (s, None)"
| "store_loop api tenantID key blobs s (v # vs) =
     (case st_Namespace api v tenantID of
        Inl e \<Rightarrow> (s, Some (ENsPanic e))
      | Inr ts \<Rightarrow>
          (case put_all api ts key s blobs of
             (s', Some e) \<Rightarrow> (s', Some (EStore e))
           | (s', None) \<Rightarrow> store_loop api tenantID key blobs s' vs))"

text \<open>The output to store: the result's, or what is found at the output path; a missing file is no output.\<close>

definition stored_output ::
  "('w \<Rightarrow> string \<Rightarrow> fs_err + bytes) \<Rightarrow> 'w \<Rightarrow> Invocation \<Rightarrow> InvocationResult \<Rightarrow> fs_err + bytes option" where
  "stored_output rf w iv res =
     (if ir_Output res \<noteq> [] then Inr (Some (ir_Output res))
      else if Output iv \<noteq> [] then
        (case rf w (Output iv) of
           Inl ENoEnt \<Rightarrow> Inr None
         | Inl e \<Rightarrow> Inl e
         | Inr data \<Rightarrow> Inr (Some data))
      else Inr None)"

definition entry_blobs :: "bytes option \<Rightarrow> InvocationResult \<Rightarrow> bytes \<Rightarrow> (string \<times> bytes) list" where
  "entry_blobs output res meta =
     (case output of None \<Rightarrow> [] | Some out \<Rightarrow> [(blobOutput, out)]) @
     [(blobStdout, ir_Stdout res), (blobStderr, ir_Stderr res), (blobExitCode, Itoa (ir_ExitCode res)), (blobMetadata, meta)] @
     (if ir_Extras res = [] then [] else [(blobExtras, encodeExtras (ir_Extras res))])"

definition CompileCache_Store ::
  "(bytes \<Rightarrow> bytes) \<Rightarrow> ('s, 'v) StoreAPI \<Rightarrow> ('w \<Rightarrow> string \<Rightarrow> fs_err + bytes) \<Rightarrow> bytes \<Rightarrow> ('w, 'v) CompileCache \<Rightarrow>
     'w \<Rightarrow> 's \<Rightarrow> Invocation \<Rightarrow> InvocationResult option \<Rightarrow> string \<Rightarrow> ('w \<times> 's) \<times> cc_err option" where
  "CompileCache_Store H api rf meta c w s iv res tenantID =
     (case res of
        None \<Rightarrow> ((w, s), None)
      | Some r \<Rightarrow>
          (if cc_stores c = [] then ((w, s), None)
           else if ir_ExitCode r \<noteq> 0 then ((w, s), None)
           else if tenantID = [] then ((w, s), Some ETenantRequired)
           else case CacheKey H (cc_ctx c) w iv of
                  (w', Inl e) \<Rightarrow> ((w', s), Some (EKey e))
                | (w', Inr key) \<Rightarrow>
                    (case stored_output rf w' iv r of
                       Inl e \<Rightarrow> ((w', s), Some (EReadFile e))
                     | Inr output \<Rightarrow>
                         (case store_loop api tenantID key (entry_blobs output r meta) s (cc_stores c) of
                            (s', err) \<Rightarrow> ((w', s'), err)))))"

section \<open>The extras encoding\<close>

lemma be_take [simp]: "take 4 (BEPutUint32 w @ r) = BEPutUint32 w" "take 8 (BEPutUint64 w' @ r) = BEPutUint64 w'"
  "drop 4 (BEPutUint32 w @ r) = r" "drop 8 (BEPutUint64 w' @ r) = r"
  "length (BEPutUint32 w) = 4" "length (BEPutUint64 w') = 8"
  by (simp_all add: BEPutUint32_def BEPutUint64_def)

lemma BEUint_Put [simp]: "BEUint32 (BEPutUint32 w @ r) = w" "BEUint64 (BEPutUint64 w' @ r) = w'"
proof -
  have "unat w < 256 ^ 4" "unat w' < 256 ^ 8" using unsigned_less [of w] unsigned_less [of w'] by simp_all
  then show "BEUint32 (BEPutUint32 w @ r) = w" "BEUint64 (BEPutUint64 w' @ r) = w'"
    unfolding BEUint32_def BEUint64_def be_take by (simp_all add: BEPutUint32_def BEPutUint64_def be_dec_enc)
qed

text \<open>Paths and values short enough for their length fields.\<close>

definition extras_fit :: "(string \<times> bytes) list \<Rightarrow> bool" where
  "extras_fit ex \<longleftrightarrow> length ex < 2 ^ 32 \<and> (\<forall>(p, v) \<in> set ex. length p < 2 ^ 32 \<and> length v < 2 ^ 64)"

lemma decode_encode_loop:
  assumes "\<forall>(p, v) \<in> set kvs. length p < 2 ^ 32 \<and> length v < 2 ^ 64"
  shows "decodeExtras_loop (length kvs) (concat (map (\<lambda>(p, v). encodeExtra p v) kvs)) out =
         Some (fold (\<lambda>(p, v). AList.update p v) kvs out)"
  using assms
proof (induction kvs arbitrary: out)
  case (Cons kv kvs)
  obtain p v where kv: "kv = (p, v)" by (cases kv)
  have l: "length p < 2 ^ 32" "length v < 2 ^ 64" using Cons.prems kv by auto
  then have u: "unat (of_nat (length p) :: 32 word) = length p" "unat (of_nat (length v) :: 64 word) = length v"
    by (simp_all add: unat_of_nat_less)
  show ?case
    using Cons u by (simp add: kv encodeExtra_def Let_def)
qed simp

lemma fold_update_fresh:
  assumes "distinct (map fst kvs)" "set (map fst kvs) \<inter> set (map fst out) = {}"
  shows "fold (\<lambda>(p, v). AList.update p v) kvs out = out @ kvs"
  using assms
proof (induction kvs arbitrary: out)
  case (Cons kv kvs)
  obtain p v where kv: "kv = (p, v)" by (cases kv)
  have "AList.update p v out = out @ [(p, v)]"
    using Cons.prems kv by (induction out) auto
  then show ?case using Cons kv by auto
qed simp

text \<open>The map as the decoder rebuilds it: the same entries, by ascending path.\<close>

definition sorted_extras :: "(string \<times> bytes) list \<Rightarrow> (string \<times> bytes) list" where
  "sorted_extras ex = map (\<lambda>p. (p, extras_at ex p)) (sort (map fst ex))"

lemma map_of_sorted_extras: "distinct (map fst ex) \<Longrightarrow> map_of (sorted_extras ex) = map_of ex"
proof
  fix p
  assume d: "distinct (map fst ex)"
  show "map_of (sorted_extras ex) p = map_of ex p"
  proof (cases "p \<in> fst ` set ex")
    case True
    then obtain v where v: "map_of ex p = Some v" by (metis map_of_eq_None_iff not_None_eq)
    have "(p, v) \<in> set (sorted_extras ex)" using True v by (force simp: sorted_extras_def extras_at_def)
    moreover have "distinct (map fst (sorted_extras ex))" using d by (simp add: sorted_extras_def comp_def)
    ultimately show ?thesis using v by simp
  next
    case False
    then have "map_of ex p = None" "map_of (sorted_extras ex) p = None"
      by (simp_all add: sorted_extras_def map_of_eq_None_iff image_image)
    then show ?thesis by simp
  qed
qed

lemma decode_encode_extras:
  assumes "extras_fit ex" "distinct (map fst ex)"
  shows "decodeExtras (encodeExtras ex) = Some (sorted_extras ex)"
proof -
  have fit: "\<forall>(p, v) \<in> set (sorted_extras ex). length p < 2 ^ 32 \<and> length v < 2 ^ 64"
  proof -
    have "(p, v) \<in> set ex" if "(p, v) \<in> set (sorted_extras ex)" for p v
    proof -
      have "map_of (sorted_extras ex) p = Some v" using that assms(2) by (simp add: sorted_extras_def comp_def)
      then show ?thesis using map_of_sorted_extras [OF assms(2)] map_of_SomeD by metis
    qed
    then show ?thesis using assms(1) by (fastforce simp: extras_fit_def)
  qed
  have c: "concat (map (\<lambda>p. encodeExtra p (extras_at ex p)) (sort (map fst ex))) =
           concat (map (\<lambda>(p, v). encodeExtra p v) (sorted_extras ex))"
    by (simp add: sorted_extras_def comp_def)
  have u: "unat (of_nat (length ex) :: 32 word) = length (sorted_extras ex)"
    using assms(1) by (simp add: extras_fit_def unat_of_nat_less sorted_extras_def)
  have "decodeExtras (encodeExtras ex) = Some (fold (\<lambda>(p, v). AList.update p v) (sorted_extras ex) [])"
    using decode_encode_loop [OF fit, of "[]"] u by (simp add: decodeExtras_def encodeExtras_def Let_def c)
  moreover have "distinct (map fst (sorted_extras ex))" using assms(2) by (simp add: sorted_extras_def comp_def)
  ultimately show ?thesis by (simp add: fold_update_fresh)
qed

section \<open>Stored entries\<close>

lemma blob_names [simp]:
  "blob_name blobOutput" "blob_name blobStdout" "blob_name blobStderr" "blob_name blobExitCode" "blob_name blobMetadata"
  "blob_name blobExtras"
  by (simp_all add: blob_defs blob_name_def bad_component_def HasSuffix_def)

lemma blob_distinct [simp]:
  "blobExitCode \<noteq> blobOutput" "blobExitCode \<noteq> blobStdout" "blobExitCode \<noteq> blobStderr" "blobExitCode \<noteq> blobMetadata"
  "blobExitCode \<noteq> blobExtras" "blobOutput \<noteq> blobStdout" "blobOutput \<noteq> blobStderr" "blobOutput \<noteq> blobMetadata"
  "blobOutput \<noteq> blobExtras" "blobStdout \<noteq> blobStderr" "blobStdout \<noteq> blobMetadata" "blobStdout \<noteq> blobExtras"
  "blobStderr \<noteq> blobMetadata" "blobStderr \<noteq> blobExtras" "blobMetadata \<noteq> blobExtras"
  by (simp_all add: blob_defs)

lemmas blob_distinct' [simp] = blob_distinct [symmetric]

definition blobs_ok :: "(string \<times> bytes) list \<Rightarrow> bool" where
  "blobs_ok bs \<longleftrightarrow> distinct (map fst bs) \<and> (\<forall>n \<in> fst ` set bs. blob_name n)"

lemma entry_blobs_ok: "blobs_ok (entry_blobs output res meta)"
  by (auto simp: blobs_ok_def entry_blobs_def split: option.split)

context blob_store
begin

text \<open>Writes to other views and other keys are not seen.\<close>

lemma put_all_sep:
  assumes "usable v" "usable v'" "sep v v'" "key \<noteq> []" "key' \<noteq> []" "\<forall>n \<in> fst ` set bs. blob_name n"
  shows "blob_name n' \<Longrightarrow> st_Get api (fst (put_all api v key s bs)) v' key' n' = st_Get api s v' key' n'"
    "st_Has api (fst (put_all api v key s bs)) v' key' = st_Has api s v' key'"
proof -
  have "(blob_name n' \<longrightarrow> st_Get api (fst (put_all api v key s bs)) v' key' n' = st_Get api s v' key' n') \<and>
        st_Has api (fst (put_all api v key s bs)) v' key' = st_Has api s v' key'"
    using assms(6)
  proof (induction bs arbitrary: s)
    case (Cons b bs)
    obtain n x where b: "b = (n, x)" by (cases b)
    obtain s1 r where p: "st_Put api s v key n x = (s1, r)" by fastforce
    have "blob_name n' \<longrightarrow> st_Get api s1 v' key' n' = st_Get api s v' key' n'" "st_Has api s1 v' key' = st_Has api s v' key'"
      using get_put_sep [OF assms(1-5), of n n' s x] has_put_sep [OF assms(1-5), of n s x] Cons.prems p b by auto
    then show ?case using Cons.IH [of s1] Cons.prems p b by (cases r) auto
  qed simp
  then show "blob_name n' \<Longrightarrow> st_Get api (fst (put_all api v key s bs)) v' key' n' = st_Get api s v' key' n'"
    "st_Has api (fst (put_all api v key s bs)) v' key' = st_Has api s v' key'" by blast+
qed

lemma put_all_other:
  assumes "usable v" "key \<noteq> []" "key' \<noteq> []" "\<forall>n \<in> fst ` set bs. blob_name n" "blob_name n'" "key \<noteq> key' \<or> n' \<notin> fst ` set bs"
  shows "st_Get api (fst (put_all api v key s bs)) v key' n' = st_Get api s v key' n'"
  using assms(4,6)
proof (induction bs arbitrary: s)
  case (Cons b bs)
  obtain n x where b: "b = (n, x)" by (cases b)
  obtain s1 r where p: "st_Put api s v key n x = (s1, r)" by fastforce
  have "st_Get api s1 v key' n' = st_Get api s v key' n'"
    using get_put_other [OF assms(1-3), of n n' s x] assms(5) Cons.prems p b by auto
  then show ?case using Cons.IH [of s1] Cons.prems p b by (cases r) auto
qed simp

lemma put_all_ok:
  assumes "usable v" "key \<noteq> []" "blobs_ok bs" "put_all api v key s bs = (s', None)"
  shows "(n, x) \<in> set bs \<Longrightarrow> st_Get api s' v key n = Inr (Some x)"
    "bs \<noteq> [] \<or> st_Has api s v key = Inr True \<Longrightarrow> st_Has api s' v key = Inr True"
proof -
  have "((n, x) \<in> set bs \<longrightarrow> st_Get api s' v key n = Inr (Some x)) \<and>
        (bs \<noteq> [] \<or> st_Has api s v key = Inr True \<longrightarrow> st_Has api s' v key = Inr True)"
    using assms(3,4)
  proof (induction bs arbitrary: s)
    case (Cons b bs)
    obtain m y where b: "b = (m, y)" by (cases b)
    obtain s1 where p: "st_Put api s v key m y = (s1, None)" and q: "put_all api v key s1 bs = (s', None)"
      using Cons.prems(2) b by (auto split: prod.splits option.splits)
    have ok: "blob_name m" "blobs_ok bs" "m \<notin> fst ` set bs" using Cons.prems(1) b by (auto simp: blobs_ok_def)
    have "st_Get api s' v key m = Inr (Some y)"
      using put_all_other [OF assms(1,2,2), of bs m s1] ok q get_put_same [OF assms(1,2) ok(1) p]
      by (simp add: blobs_ok_def)
    moreover have "st_Has api s1 v key = Inr True" using has_put [OF assms(1,2) ok(1) p] .
    ultimately show ?case using Cons.IH [OF ok(2) q] b by auto
  qed simp
  then show "(n, x) \<in> set bs \<Longrightarrow> st_Get api s' v key n = Inr (Some x)"
    "bs \<noteq> [] \<or> st_Has api s v key = Inr True \<Longrightarrow> st_Has api s' v key = Inr True" by blast+
qed

text \<open>
  Whatever the outcome, the writes happened in order: a blob is new only if those before it are.
\<close>

lemma put_all_prefix:
  assumes "usable v" "key \<noteq> []" "blobs_ok bs"
  shows "\<exists>k \<le> length bs.
           (\<forall>i < k. st_Get api (fst (put_all api v key s bs)) v key (fst (bs ! i)) = Inr (Some (snd (bs ! i)))) \<and>
           (\<forall>i < length bs. k \<le> i \<longrightarrow>
              st_Get api (fst (put_all api v key s bs)) v key (fst (bs ! i)) = st_Get api s v key (fst (bs ! i)))"
  using assms(3)
proof (induction bs arbitrary: s)
  case (Cons b bs)
  obtain m y where b: "b = (m, y)" by (cases b)
  obtain s1 r where p: "st_Put api s v key m y = (s1, r)" by fastforce
  have ok: "blob_name m" "blobs_ok bs" "m \<notin> fst ` set bs" using Cons.prems b by (auto simp: blobs_ok_def)
  have old: "st_Get api s1 v key (fst (bs ! i)) = st_Get api s v key (fst (bs ! i))" if "i < length bs" for i
  proof -
    have "blob_name (fst (bs ! i))" "m \<noteq> fst (bs ! i)"
      using ok(2,3) that nth_mem [of i bs] by (auto simp: blobs_ok_def)
    then show ?thesis using get_put_other [OF assms(1,2,2) ok(1), of "fst (bs ! i)" s y] p by simp
  qed
  show ?case
  proof (cases r)
    case (Some e)
    then have P: "fst (put_all api v key s (b # bs)) = s1" using p b by simp
    have "st_Get api s1 v key m = st_Get api s v key m \<or> st_Get api s1 v key m = Inr (Some y)"
      using get_put_atomic [OF assms(1,2) ok(1), of s y] p by simp
    then show ?thesis
    proof
      assume "st_Get api s1 v key m = st_Get api s v key m"
      then show ?thesis unfolding P using old b by (intro exI [of _ 0]) (auto simp: nth_Cons split: nat.split)
    next
      assume "st_Get api s1 v key m = Inr (Some y)"
      then show ?thesis unfolding P using old b by (intro exI [of _ 1]) (auto simp: nth_Cons split: nat.split)
    qed
  next
    case None
    then have P: "fst (put_all api v key s (b # bs)) = fst (put_all api v key s1 bs)" using p b by simp
    have new: "st_Get api (fst (put_all api v key s1 bs)) v key m = Inr (Some y)"
      using put_all_other [OF assms(1,2,2), of bs m s1] ok get_put_same [OF assms(1,2) ok(1)] p None
      by (simp add: blobs_ok_def)
    obtain k where k: "k \<le> length bs"
      "\<forall>i < k. st_Get api (fst (put_all api v key s1 bs)) v key (fst (bs ! i)) = Inr (Some (snd (bs ! i)))"
      "\<forall>i < length bs. k \<le> i \<longrightarrow> st_Get api (fst (put_all api v key s1 bs)) v key (fst (bs ! i)) = st_Get api s1 v key (fst (bs ! i))"
      using Cons.IH [OF ok(2)] by blast
    then show ?thesis unfolding P using new old b by (intro exI [of _ "Suc k"]) (auto simp: nth_Cons split: nat.split)
  qed
qed simp

end

text \<open>The blobs of an entry were written in order, up to some point, and no other blob was.\<close>

definition written :: "('s, 'v) StoreAPI \<Rightarrow> 's \<Rightarrow> 's \<Rightarrow> 'v \<Rightarrow> bytes \<Rightarrow> (string \<times> bytes) list \<Rightarrow> bool" where
  "written api s s' a key bs \<longleftrightarrow>
     (\<exists>k \<le> length bs.
        (\<forall>i < k. st_Get api s' a key (fst (bs ! i)) = Inr (Some (snd (bs ! i)))) \<and>
        (\<forall>i < length bs. k \<le> i \<longrightarrow> st_Get api s' a key (fst (bs ! i)) = st_Get api s a key (fst (bs ! i)))) \<and>
     (\<forall>n. blob_name n \<longrightarrow> n \<notin> fst ` set bs \<longrightarrow> st_Get api s' a key n = st_Get api s a key n)"

lemma written_refl: "written api s s a key bs"
  unfolding written_def by (intro conjI exI [of _ 0]) simp_all

lemma written_cong:
  assumes w: "written api s s' a key bs" and ok: "blobs_ok bs"
    and t: "\<And>n. blob_name n \<Longrightarrow> st_Get api t a key n = st_Get api s a key n"
    and t': "\<And>n. blob_name n \<Longrightarrow> st_Get api t' a key n = st_Get api s' a key n"
  shows "written api t t' a key bs"
proof -
  have b: "blob_name (fst (bs ! i))" if "i < length bs" for i using ok nth_mem [OF that] by (simp add: blobs_ok_def)
  obtain k where "k \<le> length bs"
    "\<forall>i < k. st_Get api s' a key (fst (bs ! i)) = Inr (Some (snd (bs ! i)))"
    "\<forall>i < length bs. k \<le> i \<longrightarrow> st_Get api s' a key (fst (bs ! i)) = st_Get api s a key (fst (bs ! i))"
    using w unfolding written_def by blast
  then show ?thesis
    using w b t t' unfolding written_def by (intro conjI exI [of _ k]) (simp_all add: less_le_trans)
qed

lemma written_before:
  assumes "written api s s' a key (pre @ (n, x) # post)" "st_Get api s' a key n \<noteq> st_Get api s a key n"
  shows "st_Get api s' a key n = Inr (Some x)" "(m, y) \<in> set pre \<Longrightarrow> st_Get api s' a key m = Inr (Some y)"
proof -
  let ?bs = "pre @ (n, x) # post"
  obtain k where k: "\<forall>i < k. st_Get api s' a key (fst (?bs ! i)) = Inr (Some (snd (?bs ! i)))"
    "\<forall>i < length ?bs. k \<le> i \<longrightarrow> st_Get api s' a key (fst (?bs ! i)) = st_Get api s a key (fst (?bs ! i))"
    using assms(1) unfolding written_def by blast
  have "length pre < k" using k(2) [rule_format, of "length pre"] assms(2) by (cases "length pre < k") simp_all
  then show "st_Get api s' a key n = Inr (Some x)" using k(1) [rule_format, of "length pre"] by simp
  assume "(m, y) \<in> set pre"
  then obtain i where "i < length pre" "pre ! i = (m, y)" by (auto simp: in_set_conv_nth)
  then show "st_Get api s' a key m = Inr (Some y)"
    using k(1) [rule_format, of i] \<open>length pre < k\<close> by (simp add: nth_append)
qed

lemma written_member:
  assumes "written api s s' a key bs" "(m, y) \<in> set bs"
  shows "st_Get api s' a key m = Inr (Some y) \<or> st_Get api s' a key m = st_Get api s a key m"
proof -
  obtain i where "i < length bs" "bs ! i = (m, y)" using assms(2) by (auto simp: in_set_conv_nth)
  then show ?thesis using assms(1) unfolding written_def by (metis fst_conv snd_conv not_le)
qed

text \<open>Two store states that answer the lookups of one key in one tenant alike.\<close>

lemma loadEntry_cong:
  assumes "\<And>n. blob_name n \<Longrightarrow> st_Get api s' a key n = st_Get api s a key n"
  shows "loadEntry api s' a key p = loadEntry api s a key p"
  by (simp only: loadEntry_def assms blob_names)

lemma lookup_loop_cong:
  assumes "\<And>v a n. v \<in> set vs \<Longrightarrow> st_Namespace api v t = Inr a \<Longrightarrow> blob_name n \<Longrightarrow> st_Get api s' a key n = st_Get api s a key n"
    and "\<And>v a. v \<in> set vs \<Longrightarrow> st_Namespace api v t = Inr a \<Longrightarrow> st_Has api s' a key = st_Has api s a key"
  shows "lookup_loop api s' t key p vs = lookup_loop api s t key p vs"
  using assms
proof (induction vs)
  case (Cons v vs)
  show ?case
  proof (cases "st_Namespace api v t")
    case (Inr a)
    have "loadEntry api s' a key p = loadEntry api s a key p"
      by (rule loadEntry_cong) (use Cons.prems(1) [OF _ Inr] in simp)
    moreover have "st_Has api s' a key = st_Has api s a key" using Cons.prems(2) [OF _ Inr] by simp
    moreover have "lookup_loop api s' t key p vs = lookup_loop api s t key p vs"
      by (rule Cons.IH) (blast intro: Cons.prems list.set_intros)+
    ultimately show ?thesis using Inr by (simp only: lookup_loop.simps sum.case)
  qed simp
qed simp

lemma lookup_loop_hit:
  "lookup_loop api s t key p vs = Inr (Some r) \<Longrightarrow>
   \<exists>v \<in> set vs. \<exists>a. st_Namespace api v t = Inr a \<and> loadEntry api s a key p = Inr (Some r)"
  by (induction vs) (auto split: sum.splits option.splits if_splits)

lemma loadEntry_Some:
  assumes "loadEntry api s a key p = Inr (Some r)"
  shows "\<exists>c. st_Get api s a key blobExitCode = Inr (Some c) \<and> Atoi c = Some (ir_ExitCode r)"
    "\<exists>x. st_Get api s a key blobStdout = Inr x \<and> ir_Stdout r = nil_bytes x"
    "\<exists>x. st_Get api s a key blobStderr = Inr x \<and> ir_Stderr r = nil_bytes x"
    "p \<noteq> [] \<Longrightarrow> st_Get api s a key blobOutput = Inr (Some (ir_Output r))"
    "ir_Extras r = load_extras (st_Get api s a key blobExtras)"
proof -
  obtain raw where raw: "st_Get api s a key blobExitCode = Inr raw"
    using assms by (cases "st_Get api s a key blobExitCode") (simp_all add: loadEntry_def)
  obtain c where c: "raw = Some c" using assms raw by (cases raw) (simp_all add: loadEntry_def)
  obtain e where e: "Atoi c = Some e" using assms raw c by (cases "Atoi c") (simp_all add: loadEntry_def)
  obtain x where x: "st_Get api s a key blobStdout = Inr x"
    using assms raw c e by (cases "st_Get api s a key blobStdout") (simp_all add: loadEntry_def)
  obtain y where y: "st_Get api s a key blobStderr = Inr y"
    using assms raw c e x by (cases "st_Get api s a key blobStderr") (simp_all add: loadEntry_def)
  have o': "st_Get api s a key blobOutput = Inr (Some (ir_Output r))" if "p \<noteq> []"
    using assms raw c e x y that by (auto simp: loadEntry_def Let_def ebind_Inr_conv split: option.splits)
  have "ir_ExitCode r = e \<and> ir_Stdout r = nil_bytes x \<and> ir_Stderr r = nil_bytes y \<and>
        ir_Extras r = load_extras (st_Get api s a key blobExtras)"
    using assms raw c e x y o' by (cases r; cases "p = []") (auto simp: loadEntry_def Let_def)
  then show "\<exists>c. st_Get api s a key blobExitCode = Inr (Some c) \<and> Atoi c = Some (ir_ExitCode r)"
    "\<exists>x. st_Get api s a key blobStdout = Inr x \<and> ir_Stdout r = nil_bytes x"
    "\<exists>x. st_Get api s a key blobStderr = Inr x \<and> ir_Stderr r = nil_bytes x"
    "p \<noteq> [] \<Longrightarrow> st_Get api s a key blobOutput = Inr (Some (ir_Output r))"
    "ir_Extras r = load_extras (st_Get api s a key blobExtras)"
    using raw c e x y o' by auto
qed

context blob_store
begin

lemma put_all_written:
  assumes "usable v" "key \<noteq> []" "blobs_ok bs"
  shows "written api s (fst (put_all api v key s bs)) v key bs"
  using put_all_prefix [OF assms, of s] put_all_other [OF assms(1,2,2), of bs] assms(3)
  unfolding written_def blobs_ok_def by blast

lemma store_loop_frame:
  assumes "\<forall>v \<in> set vs. rooted v" "usable u" "\<forall>v \<in> set vs. \<forall>a. st_Namespace api v t = Inr a \<longrightarrow> sep a u"
    "key \<noteq> []" "key' \<noteq> []" "blobs_ok bs"
  shows "blob_name n \<Longrightarrow> st_Get api (fst (store_loop api t key bs s vs)) u key' n = st_Get api s u key' n"
    "st_Has api (fst (store_loop api t key bs s vs)) u key' = st_Has api s u key'"
proof -
  have "(blob_name n \<longrightarrow> st_Get api (fst (store_loop api t key bs s vs)) u key' n = st_Get api s u key' n) \<and>
        st_Has api (fst (store_loop api t key bs s vs)) u key' = st_Has api s u key'"
    using assms(1,3)
  proof (induction vs arbitrary: s)
    case (Cons v vs)
    show ?case
    proof (cases "st_Namespace api v t")
      case (Inr a)
      obtain s1 r where p: "put_all api a key s bs = (s1, r)" by fastforce
      have a: "usable a" "sep a u" using ns_usable [of v t a] Inr Cons.prems by auto
      have "blob_name n \<longrightarrow> st_Get api s1 u key' n = st_Get api s u key' n" "st_Has api s1 u key' = st_Has api s u key'"
        using put_all_sep(1) [OF a(1) assms(2) a(2) assms(4,5), where bs = bs and s = s]
          put_all_sep(2) [OF a(1) assms(2) a(2) assms(4,5), where bs = bs and s = s] assms(6) p by (auto simp: blobs_ok_def)
      then show ?thesis using Cons.IH [of s1] Cons.prems Inr p by (cases r) auto
    qed simp
  qed simp
  then show "blob_name n \<Longrightarrow> st_Get api (fst (store_loop api t key bs s vs)) u key' n = st_Get api s u key' n"
    "st_Has api (fst (store_loop api t key bs s vs)) u key' = st_Has api s u key'" by blast+
qed

lemma other_stores_sep:
  assumes "\<forall>v \<in> set (v0 # vs). rooted v" "sorted_wrt sep (v0 # vs)" "st_Namespace api v0 t = Inr a"
  shows "\<forall>v \<in> set vs. \<forall>b. st_Namespace api v t' = Inr b \<longrightarrow> sep b a"
  using assms ns_sep sep_sym by (metis list.set_intros sorted_wrt.simps(2))

lemma store_loop_written:
  assumes "\<forall>v \<in> set vs. rooted v" "sorted_wrt sep vs" "key \<noteq> []" "blobs_ok bs" "v \<in> set vs" "st_Namespace api v t = Inr a"
  shows "written api s (fst (store_loop api t key bs s vs)) a key bs"
  using assms(1,2,5)
proof (induction vs arbitrary: s)
  case (Cons v0 vs)
  show ?case
  proof (cases "st_Namespace api v0 t")
    case (Inl e)
    then show ?thesis by (simp add: written_refl)
  next
    case (Inr a0)
    obtain s1 r where p: "put_all api a0 key s bs = (s1, r)" by fastforce
    have a0: "usable a0" using ns_usable [of v0 t a0] Inr Cons.prems by auto
    have a: "usable a" using ns_usable [of v t a] assms(6) Cons.prems by auto
    have bn: "\<forall>n \<in> fst ` set bs. blob_name n" using assms(4) by (simp add: blobs_ok_def)
    have w: "written api s s1 a0 key bs" using put_all_written [OF a0 assms(3,4), of s] p by simp
    have fr: "st_Get api (fst (store_loop api t key bs s1 vs)) a0 key n = st_Get api s1 a0 key n" if "blob_name n" for n
      using store_loop_frame(1) [OF _ a0 other_stores_sep [OF Cons.prems(1,2) Inr] assms(3,3,4) that, where s = s1] Cons.prems by simp
    have F: "fst (store_loop api t key bs s (v0 # vs)) = (if r = None then fst (store_loop api t key bs s1 vs) else s1)"
      using Inr p by (cases r) simp_all
    show ?thesis
    proof (cases "v = v0")
      case True
      then have "a = a0" using assms(6) Inr by simp
      then show ?thesis
        unfolding F using w written_cong [OF w assms(4), of s "fst (store_loop api t key bs s1 vs)"] fr by simp
    next
      case False
      then have v: "v \<in> set vs" using Cons.prems by simp
      have "sep a0 a" using other_stores_sep [OF Cons.prems(1,2) Inr] v assms(6) sep_sym by blast
      then have fr1: "st_Get api s1 a key n = st_Get api s a key n" if "blob_name n" for n
        using put_all_sep(1) [OF a0 a _ assms(3,3) bn that, where s = s] p by simp
      have "written api s1 (fst (store_loop api t key bs s1 vs)) a key bs" using Cons.IH [of s1] Cons.prems v by simp
      then have "written api s (fst (store_loop api t key bs s1 vs)) a key bs" by (rule written_cong) (simp_all add: fr1 assms(4))
      moreover have "written api s s1 a key bs" by (rule written_cong [OF written_refl [of api s]]) (simp_all add: fr1 assms(4))
      ultimately show ?thesis unfolding F by simp
    qed
  qed
qed simp

text \<open>A complete store of an entry is found again, in the first store.\<close>

lemma store_then_lookup:
  assumes vs: "\<forall>v \<in> set (v # vs). rooted v" "sorted_wrt sep (v # vs)" "st_Namespace api v t = Inr a" "key \<noteq> []"
    and st: "store_loop api t key (entry_blobs output r meta) s (v # vs) = (s', None)"
    and r: "ir_ExitCode r = 0" "p = [] \<or> output \<noteq> None" "extras_fit (ir_Extras r)" "distinct (map fst (ir_Extras r))"
  shows "lookup_loop api s' t key p (v # vs) =
         Inr (Some (r\<lparr> ir_Output := (if p = [] then [] else nil_bytes output),
                       ir_Extras := (if ir_Extras r = [] then load_extras (st_Get api s a key blobExtras) else sorted_extras (ir_Extras r)) \<rparr>))"
proof -
  let ?bs = "entry_blobs output r meta"
  have a: "usable a" using ns_usable vs by auto
  obtain s1 where s1: "put_all api a key s ?bs = (s1, None)" "store_loop api t key ?bs s1 vs = (s', None)"
    using st vs(3) by (auto split: prod.splits option.splits)
  have fr: "st_Get api s' a key n = st_Get api s1 a key n" if "blob_name n" for n
    using store_loop_frame(1) [OF _ a other_stores_sep [OF vs(1-3), of t] vs(4,4) entry_blobs_ok [of "output" r meta] that, where s = s1] vs(1) s1(2) by simp
  have has: "st_Has api s' a key = Inr True"
    using store_loop_frame(2) [OF _ a other_stores_sep [OF vs(1-3), of t] vs(4,4) entry_blobs_ok [of "output" r meta], where s = s1] vs(1) s1(2)
      put_all_ok(2) [OF a vs(4) entry_blobs_ok s1(1)] by (simp add: entry_blobs_def)
  have get: "st_Get api s' a key n = Inr (Some x)" if "(n, x) \<in> set ?bs" for n x
    using put_all_ok(1) [OF a vs(4) entry_blobs_ok s1(1) that] fr [of n] entry_blobs_ok [of "output" r meta] that by (force simp: blobs_ok_def)
  have ex: "load_extras (st_Get api s' a key blobExtras) =
            (if ir_Extras r = [] then load_extras (st_Get api s a key blobExtras) else sorted_extras (ir_Extras r))"
  proof (cases "ir_Extras r = []")
    case True
    then have "blobExtras \<notin> fst ` set ?bs" by (auto simp: entry_blobs_def split: option.splits)
    then show ?thesis
      using True fr [of blobExtras] put_all_other [OF a vs(4,4), of ?bs blobExtras s] entry_blobs_ok [of "output" r meta] s1(1)
      by (simp add: blobs_ok_def)
  next
    case False
    then have "st_Get api s' a key blobExtras = Inr (Some (encodeExtras (ir_Extras r)))" using get by (simp add: entry_blobs_def)
    then show ?thesis using False decode_encode_extras [OF r(3,4)] by (simp add: load_extras_def)
  qed
  have "Atoi (Itoa 0) = Some 0" by (rule Atoi_Itoa) (simp add: in_int64_def)
  moreover have "st_Get api s' a key blobExitCode = Inr (Some (Itoa 0))" "st_Get api s' a key blobStdout = Inr (Some (ir_Stdout r))"
    "st_Get api s' a key blobStderr = Inr (Some (ir_Stderr r))" using r(1) by (simp_all add: get entry_blobs_def)
  moreover have "output = Some x \<Longrightarrow> st_Get api s' a key blobOutput = Inr (Some x)" for x
    by (simp add: get entry_blobs_def)
  ultimately have "loadEntry api s' a key p =
      Inr (Some (r\<lparr> ir_Output := (if p = [] then [] else nil_bytes output), ir_Extras := load_extras (st_Get api s' a key blobExtras) \<rparr>))"
    using r(1,2) by (cases r; cases "output") (auto simp: loadEntry_def nil_bytes_def Let_def)
  then show ?thesis using has vs(3) ex by simp
qed

text \<open>One tenant's writes are not seen by another tenant's lookups.\<close>

lemma store_tenant_frame:
  assumes "\<forall>v \<in> set vs. rooted v" "sorted_wrt sep vs" "t \<noteq> t'" "key \<noteq> []" "key' \<noteq> []" "blobs_ok bs"
  shows "lookup_loop api (fst (store_loop api t key bs s vs)) t' key' p vs = lookup_loop api s t' key' p vs"
proof (rule lookup_loop_cong)
  fix v b n
  assume v: "v \<in> set vs" "st_Namespace api v t' = Inr b"
  have u: "usable b" using ns_usable assms(1) v by blast
  have sp: "\<forall>w \<in> set vs. \<forall>a. st_Namespace api w t = Inr a \<longrightarrow> sep a b"
  proof (intro ballI allI impI)
    fix w a assume w: "w \<in> set vs" "st_Namespace api w t = Inr a"
    show "sep a b"
    proof (cases "w = v")
      case True
      then show ?thesis using ns_sep_tenant assms(1,3) v w by blast
    next
      case False
      then have "sep w v \<or> sep v w" using assms(2) v(1) w(1) by (metis in_set_conv_nth linorder_neqE_nat sorted_wrt_nth_less)
      then have "sep w v" using sep_sym by blast
      then show ?thesis using ns_sep assms(1) v w by blast
    qed
  qed
  show "st_Get api (fst (store_loop api t key bs s vs)) b key' n = st_Get api s b key' n" if "blob_name n"
    using store_loop_frame(1) [OF assms(1) u sp assms(4-6) that] .
  show "st_Has api (fst (store_loop api t key bs s vs)) b key' = st_Has api s b key'"
    using store_loop_frame(2) [OF assms(1) u sp assms(4-6)] .
qed

text \<open>
  An interrupted store of a new entry: a later lookup finds nothing, or the result with its output,
  and at worst without its extras.
\<close>

lemma interrupted_store:
  assumes vs: "\<forall>v \<in> set vs. rooted v" "sorted_wrt sep vs" "key \<noteq> []"
    and fresh: "\<forall>v \<in> set vs. \<forall>a n. st_Namespace api v t = Inr a \<longrightarrow> blob_name n \<longrightarrow> st_Get api s a key n = Inr None"
    and r: "ir_ExitCode r = 0" "extras_fit (ir_Extras r)" "distinct (map fst (ir_Extras r))"
    and hit: "lookup_loop api (fst (store_loop api t key (entry_blobs output r meta) s vs)) t key p vs = Inr (Some r')"
  shows "ir_ExitCode r' = 0 \<and> ir_Stdout r' = ir_Stdout r \<and> ir_Stderr r' = ir_Stderr r \<and>
         (p \<noteq> [] \<longrightarrow> output = Some (ir_Output r')) \<and> (ir_Extras r' = [] \<or> ir_Extras r' = sorted_extras (ir_Extras r))"
proof -
  let ?bs = "entry_blobs output r meta"
  let ?s = "fst (store_loop api t key ?bs s vs)"
  obtain v a where v: "v \<in> set vs" "st_Namespace api v t = Inr a" and l: "loadEntry api ?s a key p = Inr (Some r')"
    using lookup_loop_hit [OF hit] by blast
  note L = loadEntry_Some [OF l]
  have w: "written api s ?s a key ?bs" using store_loop_written [OF vs entry_blobs_ok v] .
  have f: "st_Get api s a key n = Inr None" if "blob_name n" for n using fresh v that by blast
  define pre where "pre = (case output of None \<Rightarrow> [] | Some out \<Rightarrow> [(blobOutput, out)]) @ [(blobStdout, ir_Stdout r), (blobStderr, ir_Stderr r)]"
  have bs: "?bs = pre @ (blobExitCode, Itoa (ir_ExitCode r)) # (blobMetadata, meta) #
      (if ir_Extras r = [] then [] else [(blobExtras, encodeExtras (ir_Extras r))])"
    by (simp add: entry_blobs_def pre_def)
  have w': "written api s ?s a key (pre @ (blobExitCode, Itoa (ir_ExitCode r)) # (blobMetadata, meta) #
      (if ir_Extras r = [] then [] else [(blobExtras, encodeExtras (ir_Extras r))]))" using w by (subst bs [symmetric])
  have ne: "st_Get api ?s a key blobExitCode \<noteq> st_Get api s a key blobExitCode" using L(1) f by auto
  note B = written_before [OF w' ne]
  have "Atoi (Itoa 0) = Some 0" by (rule Atoi_Itoa) (simp add: in_int64_def)
  then have "ir_ExitCode r' = 0" using B(1) L(1) r(1) by auto
  moreover have "ir_Stdout r' = ir_Stdout r" "ir_Stderr r' = ir_Stderr r"
    using B(2) [of blobStdout "ir_Stdout r"] B(2) [of blobStderr "ir_Stderr r"] L(2,3) by (auto simp: pre_def nil_bytes_def)
  moreover have "output = Some (ir_Output r')" if "p \<noteq> []"
  proof (cases "output")
    case None
    have "st_Get api ?s a key blobOutput = Inr (Some (ir_Output r'))" using L(4) [OF that] .
    moreover have "blobOutput \<notin> fst ` set ?bs" using None by (auto simp: entry_blobs_def)
    then have "st_Get api ?s a key blobOutput = st_Get api s a key blobOutput" using w by (simp add: written_def)
    ultimately show ?thesis using f by simp
  next
    case (Some out)
    then show ?thesis using B(2) [of blobOutput out] L(4) [OF that] by (simp add: pre_def)
  qed
  moreover have "ir_Extras r' = [] \<or> ir_Extras r' = sorted_extras (ir_Extras r)"
  proof -
    have "st_Get api ?s a key blobExtras = Inr None \<or> st_Get api ?s a key blobExtras = Inr (Some (encodeExtras (ir_Extras r)))"
    proof (cases "ir_Extras r = []")
      case True
      then have "blobExtras \<notin> fst ` set ?bs" by (auto simp: entry_blobs_def split: option.splits)
      then show ?thesis using w f by (simp add: written_def)
    next
      case False
      then have "(blobExtras, encodeExtras (ir_Extras r)) \<in> set ?bs" by (simp add: entry_blobs_def)
      then show ?thesis using written_member [OF w] f by fastforce
    qed
    then show ?thesis using L(5) decode_encode_extras [OF r(2,3)] by (auto simp: load_extras_def)
  qed
  ultimately show ?thesis by blast
qed

end

end
