(* ===== verification/Cache_Live.thy ===== *)
theory Cache_Live
  imports Cache_Compile
begin

text \<open>
  Progress of the disk-backed compile cache: below a store directory that holds nothing but cache
  entries, and while the operating system fails no operation, every write succeeds and leaves the
  directory in that state.
\<close>

text \<open>
  The layout two namespaces below a store directory: blobs five levels down, directories above them,
  and no regular file on the way to the store.
\<close>

definition cache_layout :: "string list \<Rightarrow> FS \<Rightarrow> bool" where
  "cache_layout cs fs \<longleftrightarrow>
     (\<forall>p \<in> fst ` set (fs_files fs). \<not> below p cs \<and> (below cs p \<longrightarrow> length p = length cs + 5)) \<and>
     (\<forall>p \<in> set (fs_dirs fs). below cs p \<longrightarrow> length p \<le> length cs + 4)"

lemma below_linear: "below p r \<Longrightarrow> below q r \<Longrightarrow> below p q \<or> below q p"
  by (auto simp: below_iff append_eq_append_conv2)

lemma below_length: "below p q \<Longrightarrow> length p \<le> length q"
  by (auto simp: below_iff)

lemma is_file_set: "is_file fs p \<Longrightarrow> p \<in> fst ` set (fs_files fs)"
  unfolding is_file_def by (metis map_of_eq_None_iff)

lemma layout_not_through:
  assumes "cache_layout cs fs" "below cs q" "length q \<le> length cs + 5"
  shows "\<not> through_file fs q" "length q < length cs + 5 \<Longrightarrow> \<not> is_file fs q"
proof -
  have no: "\<not> is_file fs r" if "below r q" "length r < length cs + 5" for r
  proof
    assume "is_file fs r"
    then have "r \<in> fst ` set (fs_files fs)" by (rule is_file_set)
    then show False using assms(1) below_linear [OF that(1) assms(2)] that(2) by (auto simp: cache_layout_def)
  qed
  show "\<not> through_file fs q"
  proof
    assume "through_file fs q"
    then obtain r u where r: "q = r @ u" "u \<noteq> []" "is_file fs r" by (auto simp: through_file_iff below_iff)
    then have "length r < length cs + 5" using assms(3) by (cases u) auto
    then show False using no [of r] r by simp
  qed
  show "\<not> is_file fs q" if "length q < length cs + 5" using no [of q] that by simp
qed

text \<open>What a successful write adds: one file, and the directories above it.\<close>

lemma MkdirAll_dirs:
  assumes "p \<in> set (fs_dirs (fst (MkdirAll fl fs path)))"
  shows "p \<in> set (fs_dirs fs) \<or> below p (fpath path)"
  using assms by (auto simp: MkdirAll_def add_dirs_def Let_def split: if_splits)

lemma update_keys: "fst ` set (AList.update k v xs) = insert k (fst ` set xs)"
  by (induction xs) auto

lemma delete_keys: "fst ` set (AList.delete k xs) = fst ` set xs - {k}"
  by (induction xs) auto

lemma writeAtomic_files:
  assumes "writeAtomic fl now fs dst x = (fs', None)" "p \<in> fst ` set (fs_files fs')"
  shows "p \<in> fst ` set (fs_files fs) \<or> p = fpath dst"
proof -
  let ?t = "dst @ ''.tmp''"
  obtain fs1 r1 where w: "WriteFile fl now fs ?t x = (fs1, r1)" by fastforce
  obtain fs2 r2 where r: "Rename fl fs1 ?t dst = (fs2, r2)" by fastforce
  have n: "r1 = None" "r2 = None" "fs' = fs2" using assms w r by (auto simp: writeAtomic_def Let_def split: option.splits)
  have "fs1 = set_file (fpath ?t) x now fs" using w n by (auto simp: WriteFile_def Let_def split: if_splits)
  then have "fst ` set (fs_files fs1) = insert (fpath ?t) (fst ` set (fs_files fs))" by (simp add: set_file_def update_keys)
  moreover obtain e where "fs_files fs2 = AList.update (fpath dst) e (AList.delete (fpath ?t) (fs_files fs1))"
    using r n by (auto simp: Rename_def Let_def split: if_splits option.splits)
  then have "fst ` set (fs_files fs2) = insert (fpath dst) (fst ` set (fs_files fs1) - {fpath ?t})"
    by (simp only: update_keys delete_keys)
  ultimately show ?thesis using assms(2) n(3) by auto
qed

lemma writeAtomic_dirs: "fs_dirs (fst (writeAtomic fl now fs dst x)) = fs_dirs fs"
  by (simp add: writeAtomic_def Let_def split_beta split: option.split)

lemma disk_Put_adds:
  assumes "disk_usable fl d" "key \<noteq> []" "blob_name n" "disk_Put fl srt now fs d key n x = (fs', None)"
  shows "p \<in> fst ` set (fs_files fs') \<Longrightarrow> p \<in> fst ` set (fs_files fs) \<or> p = blob_path d key n"
    "p \<in> set (fs_dirs fs') \<Longrightarrow> p \<in> set (fs_dirs fs) \<or> below p (entry_path d key)"
proof -
  have r: "disk_rooted fl d" "\<not> bad_component n" using assms by (simp_all add: disk_usable_def blob_name_def)
  note fp = blob_fpath [OF r(1) assms(2) r(2)] fpath_entryDir [OF r(1) assms(2)]
  obtain fs1 where m: "MkdirAll fl fs (entryDir d key) = (fs1, None)"
    and w: "writeAtomic fl now fs1 (Join [entryDir d key, n]) x = (fs', None)"
    using assms(4) by (cases rule: disk_Put_cases [OF assms(1-3), where fs = fs and srt = srt and now = now and x = x]) auto
  show "p \<in> fst ` set (fs_files fs) \<or> p = blob_path d key n" if "p \<in> fst ` set (fs_files fs')"
    using writeAtomic_files [OF w that] MkdirAll_files [of fl fs "entryDir d key"] m fp(1) by simp
  show "p \<in> set (fs_dirs fs) \<or> below p (entry_path d key)" if "p \<in> set (fs_dirs fs')"
    using MkdirAll_dirs [of p fl fs "entryDir d key"] writeAtomic_dirs [of fl now fs1 "Join [entryDir d key, n]" x] w m fp(3) that by simp
qed

lemma disk_Put_succeeds:
  assumes u: "disk_usable fl d" "key \<noteq> []" "blob_name n" and nf: "\<forall>op p. \<not> fl_fail fl op p"
    and d: "fpath (ds_dir d) = cs @ [a, b]" and l: "cache_layout cs fs"
  obtains fs' where "disk_Put fl srt now fs d key n x = (fs', None)"
proof -
  have r: "disk_rooted fl d" "\<not> bad_component n" using u by (simp_all add: disk_usable_def blob_name_def)
  note fp = blob_fpath [OF r(1) u(2) r(2)] fpath_entryDir [OF r(1) u(2)]
  let ?e = "entry_path d key" and ?b = "blob_path d key n" and ?t = "blob_path d key (n @ ''.tmp'')"
  have len: "below cs ?e" "length ?e = length cs + 4" "below cs ?b" "length ?b = length cs + 5" "below cs ?t" "length ?t = length cs + 5"
    "butlast ?b = ?e" "butlast ?t = ?e"
    by (auto simp: entry_path_def blob_path_def d below_iff butlast_append)
  have "snd (MkdirAll fl fs (entryDir d key)) = None"
    using layout_not_through [OF l len(1)] len(2) nf by (auto simp: MkdirAll_def fp Let_def)
  then obtain fs1 where m: "MkdirAll fl fs (entryDir d key) = (fs1, None)" by (metis prod.collapse)
  have dir: "is_dir fs1 ?e" using MkdirAll_ok [OF m] fp(3) by simp
  have "fs_files fs1 = fs_files fs" using MkdirAll_files [of fl fs "entryDir d key"] m by simp
  moreover have "below cs p \<longrightarrow> length p \<le> length cs + 4" if "p \<in> set (fs_dirs fs1)" for p
    using MkdirAll_dirs [of p fl fs "entryDir d key"] m that fp(3) len(2) l below_length [of p ?e]
    by (auto simp: cache_layout_def)
  ultimately have l1: "cache_layout cs fs1" using l by (simp add: cache_layout_def)
  have nd: "\<not> is_dir fs1 q" if "below cs q" "length q = length cs + 5" for q
    using l1 that by (auto simp: is_dir_def cache_layout_def)
  let ?s = "set_file ?t x now fs1"
  have w: "WriteFile fl now fs1 (Join [entryDir d key, n] @ ''.tmp'') x = (?s, None)"
    using layout_not_through(1) [OF l1 len(5)] nd len dir nf by (simp add: WriteFile_def fp)
  have "\<not> through_file ?s q" if "below cs q" "length q = length cs + 5" for q
    using layout_not_through(1) [OF l1 that(1)] that(2) len(6)
    by (auto simp: through_file_iff is_file_def map_of_set_file below_iff split: if_splits)
  then have "snd (Rename fl ?s (Join [entryDir d key, n] @ ''.tmp'') (Join [entryDir d key, n])) = None"
    using len dir nd nf by (simp add: Rename_def fp Let_def map_of_set_file)
  then have "snd (writeAtomic fl now fs1 (Join [entryDir d key, n]) x) = None"
    by (simp add: writeAtomic_def w split_beta)
  then have "snd (disk_Put fl srt now fs d key n x) = None"
    using m u by (simp add: disk_Put_def validateName_def blob_name_def disk_usable_def Let_def split_beta)
  then show ?thesis by (intro that [of "fst (disk_Put fl srt now fs d key n x)"]) (simp add: prod_eq_iff)
qed

lemma disk_Put_layout:
  assumes u: "disk_usable fl d" "key \<noteq> []" "blob_name n" "disk_Put fl srt now fs d key n x = (fs', None)"
    and d: "fpath (ds_dir d) = cs @ [a, b]" and l: "cache_layout cs' fs" and c: "cs' = cs \<or> unrelated cs cs'"
  shows "cache_layout cs' fs'"
proof -
  have b: "\<not> below (blob_path d key n) cs'" "below cs' (blob_path d key n) \<longrightarrow> length (blob_path d key n) = length cs' + 5"
    using c below_linear [of cs' "blob_path d key n" cs] below_trans [of cs "blob_path d key n" cs']
    by (auto simp: unrelated_def blob_path_def d not_below_longer)
  have e: "length p \<le> length cs' + 4" if "below cs' p" "below p (entry_path d key)" for p
    using c below_linear [of cs' "entry_path d key" cs] below_trans [OF that] that(2)
    by (auto simp: unrelated_def entry_path_def d below_iff dest: arg_cong [of _ _ length])
  show ?thesis
    unfolding cache_layout_def
  proof (intro conjI ballI)
    fix p assume "p \<in> fst ` set (fs_files fs')"
    from disk_Put_adds(1) [OF u this] show "\<not> below p cs'" "below cs' p \<longrightarrow> length p = length cs' + 5"
      using l b by (auto simp: cache_layout_def)
  next
    fix p assume "p \<in> set (fs_dirs fs')"
    from disk_Put_adds(2) [OF u this] show "below cs' p \<longrightarrow> length p \<le> length cs' + 4"
      using l e by (auto simp: cache_layout_def)
  qed
qed

text \<open>A whole entry, and the entry in every store.\<close>

lemma put_all_succeeds:
  assumes u: "disk_usable fl d" "key \<noteq> []" "\<forall>n \<in> fst ` set bs. blob_name n" and nf: "\<forall>op p. \<not> fl_fail fl op p"
    and d: "fpath (ds_dir d) = cs @ [a, b]" and l: "cache_layout cs fs"
  shows "\<exists>fs'. put_all (disk_api fl srt now) d key fs bs = (fs', None) \<and>
               (\<forall>cs'. cs' = cs \<or> unrelated cs cs' \<longrightarrow> cache_layout cs' fs \<longrightarrow> cache_layout cs' fs')"
  using u(3) l
proof (induction bs arbitrary: fs)
  case (Cons y bs)
  obtain n x where y: "y = (n, x)" by (cases y)
  have n: "blob_name n" using Cons.prems y by simp
  obtain fs1 where p: "disk_Put fl srt now fs d key n x = (fs1, None)"
    using disk_Put_succeeds [OF u(1,2) n nf d Cons.prems(2)] by blast
  have l1: "cache_layout cs' fs1" if "cs' = cs \<or> unrelated cs cs'" "cache_layout cs' fs" for cs'
    using disk_Put_layout [OF u(1,2) n p d that(2,1)] .
  obtain fs' where "put_all (disk_api fl srt now) d key fs1 bs = (fs', None)"
    "\<forall>cs'. cs' = cs \<or> unrelated cs cs' \<longrightarrow> cache_layout cs' fs1 \<longrightarrow> cache_layout cs' fs'"
    using Cons.IH [of fs1] Cons.prems l1 by auto
  then show ?case using l1 p y by (simp add: disk_api_def)
qed simp

text \<open>A store view whose directory lies one namespace below \<open>cs\<close>.\<close>

definition one_below :: "Faults \<Rightarrow> DiskCacheStore \<Rightarrow> string list \<Rightarrow> bool" where
  "one_below fl d cs \<longleftrightarrow> disk_rooted fl d \<and> (\<exists>a. fpath (ds_dir d) = cs @ [a])"

lemma store_loop_succeeds:
  assumes nf: "\<forall>op p. \<not> fl_fail fl op p" and t: "\<not> bad_component t" and k: "key \<noteq> []" "blobs_ok bs"
    and v: "list_all2 (one_below fl) vs css" "sorted_wrt unrelated css" "\<forall>cs \<in> set css. cache_layout cs fs"
  shows "\<exists>fs'. store_loop (disk_api fl srt now) t key bs fs vs = (fs', None) \<and>
               (\<forall>cs. (\<forall>cs' \<in> set css. cs = cs' \<or> unrelated cs' cs) \<longrightarrow> cache_layout cs fs \<longrightarrow> cache_layout cs fs')"
  using v
proof (induction vs css arbitrary: fs rule: list_all2_induct)
  case (Cons d vs cs css)
  obtain a where d: "disk_rooted fl d" "fpath (ds_dir d) = cs @ [a]" using Cons.hyps by (auto simp: one_below_def)
  obtain ts where ts: "disk_Namespace d t = Inr ts" using t by (simp add: disk_Namespace_def validateNamespace_def)
  note T = disk_ns [OF d(1) ts]
  have bn: "\<forall>n \<in> fst ` set bs. blob_name n" using k(2) by (simp add: blobs_ok_def)
  have "fpath (ds_dir ts) = cs @ [a, t]" using T(1) d(2) by simp
  then obtain fs1 where p: "put_all (disk_api fl srt now) ts key fs bs = (fs1, None)"
    and l: "\<And>cs'. cs' = cs \<or> unrelated cs cs' \<Longrightarrow> cache_layout cs' fs \<Longrightarrow> cache_layout cs' fs1"
    using put_all_succeeds [OF T(2) k(1) bn nf, of cs a t fs srt now] Cons.prems by auto
  have "\<forall>cs' \<in> set css. cache_layout cs' fs1" using l Cons.prems by auto
  then obtain fs' where "store_loop (disk_api fl srt now) t key bs fs1 vs = (fs', None)"
    "\<forall>cs. (\<forall>cs' \<in> set css. cs = cs' \<or> unrelated cs' cs) \<longrightarrow> cache_layout cs fs1 \<longrightarrow> cache_layout cs fs'"
    using Cons.IH [of fs1] Cons.prems by auto
  then show ?case using p ts l by (simp add: disk_api_def)
qed simp

end
