(* ===== verification/Cache_Evict.thy ===== *)
theory Cache_Evict
  imports Cache_Store "HOL-Library.Multiset"
begin

text \<open>
  Eviction in the disk store: what the two-level scan of \<^verbatim>\<open>scanEntries\<close> sees, and what the removal loop
  shared by \<^verbatim>\<open>evict\<close> and \<^verbatim>\<open>Clean\<close> leaves.
\<close>

section \<open>Removing one entry\<close>

lemma map_of_filter_below:
  "map_of (filter (\<lambda>(q, _). \<not> below p q) xs) r = (if below p r then None else map_of xs r)"
  by (induction xs) auto

lemma RemoveAll_simps:
  assumes "\<not> fl_fail fl OpRemove (fpath path)"
  shows "snd (RemoveAll fl fs path) = None"
    "map_of (fs_files (fst (RemoveAll fl fs path))) q = (if below (fpath path) q then None else map_of (fs_files fs) q)"
    "q \<noteq> [] \<Longrightarrow> is_dir (fst (RemoveAll fl fs path)) q \<longleftrightarrow> is_dir fs q \<and> \<not> below (fpath path) q"
  using assms by (auto simp: RemoveAll_def Let_def map_of_filter_below is_dir_def)

lemma RemoveAll_agree: "\<not> below (fpath path) q \<Longrightarrow> \<not> fl_fail fl OpRemove (fpath path) \<Longrightarrow> agree fs (fst (RemoveAll fl fs path)) q"
  unfolding agree_def using RemoveAll_simps(2) [of fl path fs]  below_trans [of "fpath path" _ q]
  by (auto simp: RemoveAll_def Let_def is_dir_def)

lemma children_RemoveAll:
  assumes "\<not> below (fpath path) q" "\<not> fl_fail fl OpRemove (fpath path)"
  shows "children (fst (RemoveAll fl fs path)) q = filter (\<lambda>n. q @ [n] \<noteq> fpath path) (children fs q)"
proof -
  let ?p = "fpath path"
  let ?ch = "\<lambda>r. r \<noteq> [] \<and> butlast r = q"
  have eq: "(\<not> below ?p r) = (q @ [last r] \<noteq> ?p)" if "?ch r" for r
  proof -
    have r: "r = q @ [last r]" using that by (metis append_butlast_last_id)
    have "below ?p (q @ [n]) \<longleftrightarrow> q @ [n] = ?p" for n
    proof
      assume "below ?p (q @ [n])"
      then obtain u where u: "q @ [n] = ?p @ u" by (auto simp: below_iff)
      then show "q @ [n] = ?p" using assms(1) by (cases u rule: rev_cases) (auto simp: below_iff)
    qed (metis below_refl)
    then show ?thesis using r by metis
  qed
  have fm: "map fst (filter (\<lambda>(r, _). \<not> below ?p r) xs) = filter (\<lambda>r. \<not> below ?p r) (map fst xs)" for xs :: "(string list \<times> (bytes \<times> int)) list"
    by (induction xs) auto
  have "map last (filter ?ch (filter (\<lambda>r. \<not> below ?p r) rs)) = filter (\<lambda>n. q @ [n] \<noteq> ?p) (map last (filter ?ch rs))" for rs
    using eq by (induction rs) auto
  then show ?thesis
    using assms(2)
    by (simp add: children_def RemoveAll_def Let_def fm remdups_filter filter_sort del: filter_append flip: filter_append)
qed

lemma ReadDir_agree:
  assumes "agree fs fs' (fpath path)" "children fs' (fpath path) = children fs (fpath path)"
    "\<forall>n \<in> set (children fs (fpath path)). is_dir fs' (fpath path @ [n]) = is_dir fs (fpath path @ [n])"
  shows "ReadDir fl fs' path = ReadDir fl fs path"
  using assms agree_through [OF assms(1)] by (simp add: ReadDir_def Let_def agree_def is_file_def)

lemma children_good: "fs_ok fs \<Longrightarrow> n \<in> set (children fs q) \<Longrightarrow> good_comp n"
  by (auto simp: children_def fs_ok_def)

lemma dirStats_RemoveAll:
  assumes ok: "fs_ok fs" and q: "good_comps q" "unrelated (fpath path) q" and nf: "\<not> fl_fail fl OpRemove (fpath path)"
  shows "dirStats fl (fst (RemoveAll fl fs path)) (abs_path q) = dirStats fl fs (abs_path q)"
proof -
  let ?fs = "fst (RemoveAll fl fs path)"
  have nb: "\<not> below (fpath path) q" "\<not> below (fpath path) (q @ [n])" for n
    using q(2) unrelated_append [OF q(2), of "[]" "[n]"] by (simp_all add: unrelated_def)
  have ne: "q @ [n] \<noteq> fpath path" for n using nb(2) [of n] by auto
  have ch: "children ?fs q = children fs q" using children_RemoveAll [OF nb(1) nf] ne by simp
  have rd: "ReadDir fl ?fs (abs_path q) = ReadDir fl fs (abs_path q)"
    by (rule ReadDir_agree) (use RemoveAll_agree [OF nb(1) nf] RemoveAll_simps(3) [OF nf] nb ch fpath_abs [OF q(1)] in auto)
  have m: "map_of (fs_files ?fs) (fpath (Join [abs_path q, n])) = map_of (fs_files fs) (fpath (Join [abs_path q, n]))"
    if "n \<in> set (children fs q)" for n
  proof -
    have "good_comp n" using children_good [OF ok that] .
    then have "fpath (Join [abs_path q, n]) = q @ [n]" using q(1) Join_comp fpath_abs [of "q @ [n]"] by simp
    then show ?thesis using RemoveAll_simps(2) [OF nf] nb(2) by simp
  qed
  have c: "fst f \<in> set (children fs q)" if "ReadDir fl fs (abs_path q) = Inr files" "f \<in> set files" for files f
    using that fpath_abs [OF q(1)] by (auto simp: ReadDir_def Let_def split: if_splits)
  show ?thesis
  proof (cases "ReadDir fl fs (abs_path q)")
    case (Inl e)
    then show ?thesis by (simp add: dirStats_def rd)
  next
    case (Inr files)
    then show ?thesis
      unfolding dirStats_def rd Inr ebind_simps
      by (intro arg_cong [where f = Inr] foldl_cong [OF refl refl]) (use m c [OF Inr] in \<open>simp add: Let_def split_beta\<close>)
  qed
qed

lemma abs_path_inject: "good_comps p \<Longrightarrow> good_comps q \<Longrightarrow> abs_path p = abs_path q \<longleftrightarrow> p = q"
  using fpath_abs by metis

lemma scanKey_RemoveAll:
  assumes ok: "fs_ok fs" and g: "good_comps (cs @ [a, b])" "good_comps (cs @ [n])" and k: "k \<in> set (children fs (cs @ [n]))"
    and nf: "\<not> fl_fail fl OpRemove (cs @ [a, b])"
  defines "fs' \<equiv> fst (RemoveAll fl fs (abs_path (cs @ [a, b])))"
  shows "filter (\<lambda>e. ei_path e \<noteq> abs_path (cs @ [a, b])) (scanKey fl fs (abs_path (cs @ [n])) (k, is_dir fs (cs @ [n, k]))) =
         (if cs @ [n, k] = cs @ [a, b] then [] else scanKey fl fs' (abs_path (cs @ [n])) (k, is_dir fs' (cs @ [n, k])))"
proof -
  have gk: "good_comps (cs @ [n, k])" using g(2) children_good [OF ok k] by auto
  have j: "Join [abs_path (cs @ [n]), k] = abs_path (cs @ [n, k])" using Join_comp [OF g(2), of k] gk by auto
  have nf': "\<not> fl_fail fl OpRemove (fpath (abs_path (cs @ [a, b])))" using nf fpath_abs [OF g(1)] by simp
  show ?thesis
  proof (cases "cs @ [n, k] = cs @ [a, b]")
    case True
    then show ?thesis using j by (auto simp: scanKey_def Let_def split: sum.split)
  next
    case False
    have u: "unrelated (fpath (abs_path (cs @ [a, b]))) (cs @ [n, k])"
      using False unfolding fpath_abs [OF g(1)] by (intro unrelated_same_length) auto
    have "is_dir fs' (cs @ [n, k]) = is_dir fs (cs @ [n, k])"
      using RemoveAll_simps(3) [OF nf', of "cs @ [n, k]" fs] u by (simp add: fs'_def unrelated_def)
    moreover have "dirStats fl fs' (abs_path (cs @ [n, k])) = dirStats fl fs (abs_path (cs @ [n, k]))"
      unfolding fs'_def by (rule dirStats_RemoveAll [OF ok gk u nf'])
    moreover have "abs_path (cs @ [n, k]) \<noteq> abs_path (cs @ [a, b])" using abs_path_inject [OF gk g(1)] False by blast
    ultimately show ?thesis
      using False by (simp add: scanKey_def Let_def j del: append_same_eq split: sum.split)
  qed
qed

lemma concat_filter_map:
  assumes "\<And>x. x \<in> set xs \<Longrightarrow> filter P (f x) = (if Q x then [] else g x)"
  shows "filter P (concat (map f xs)) = concat (map g (filter (\<lambda>x. \<not> Q x) xs))"
  using assms by (induction xs) auto

lemma scanShard_RemoveAll:
  assumes ok: "fs_ok fs" and g: "good_comps (cs @ [a, b])" "good_comp n" and nf: "\<not> fl_fail fl OpRemove (cs @ [a, b])"
  defines "fs' \<equiv> fst (RemoveAll fl fs (abs_path (cs @ [a, b])))"
  shows "filter (\<lambda>e. ei_path e \<noteq> abs_path (cs @ [a, b])) (scanShard fl fs (abs_path cs) (n, sd)) = scanShard fl fs' (abs_path cs) (n, sd)"
proof -
  let ?p = "cs @ [a, b]" and ?q = "cs @ [n]"
  have gq: "good_comps ?q" using g by auto
  have j: "Join [abs_path cs, n] = abs_path ?q" using Join_comp [of cs n] gq by auto
  have nf': "\<not> fl_fail fl OpRemove (fpath (abs_path ?p))" using nf fpath_abs [OF g(1)] by simp
  have nb: "\<not> below (fpath (abs_path ?p)) ?q" using fpath_abs [OF g(1)] by (simp add: not_below_longer)
  have ag: "agree fs fs' ?q" unfolding fs'_def by (rule RemoveAll_agree [OF nb nf'])
  have ch: "children fs' ?q = filter (\<lambda>k. cs @ [n, k] \<noteq> ?p) (children fs ?q)"
    unfolding fs'_def using children_RemoveAll [OF nb nf', of fs] fpath_abs [OF g(1)] by simp
  have bad: "through_file fs' ?q = through_file fs ?q" "is_file fs' ?q = is_file fs ?q" "is_dir fs' ?q = is_dir fs ?q"
    using agree_through [OF ag] ag by (simp_all add: agree_def is_file_def)
  have K: "filter (\<lambda>e. ei_path e \<noteq> abs_path ?p) (concat (map (\<lambda>k. scanKey fl fs (abs_path ?q) (k, is_dir fs (cs @ [n, k]))) (children fs ?q))) =
        concat (map (\<lambda>k. scanKey fl fs' (abs_path ?q) (k, is_dir fs' (cs @ [n, k]))) (children fs' ?q))"
    unfolding ch by (rule concat_filter_map) (use scanKey_RemoveAll [OF ok g(1) gq _ nf] in \<open>simp add: fs'_def\<close>)
  show ?thesis
    using K bad j fpath_abs [OF gq] by (simp add: scanShard_def ReadDir_def Let_def comp_def)
qed

lemma scan_RemoveAll:
  assumes ok: "fs_ok fs" and g: "good_comps (cs @ [a, b])" and d: "ds_dir d = abs_path cs"
    and nf: "\<not> fl_fail fl OpRemove (cs @ [a, b])" and sc: "scanEntries fl fs d = Inr (es, tot)"
  defines "fs' \<equiv> fst (RemoveAll fl fs (abs_path (cs @ [a, b])))"
  shows "scanEntries fl fs' d =
         Inr (filter (\<lambda>e. ei_path e \<noteq> abs_path (cs @ [a, b])) es, total_size (filter (\<lambda>e. ei_path e \<noteq> abs_path (cs @ [a, b])) es))"
proof -
  let ?p = "cs @ [a, b]"
  have gc: "good_comps cs" using g by auto
  have fp: "fpath (abs_path ?p) = ?p" "fpath (abs_path cs) = cs" using fpath_abs [OF g] fpath_abs [OF gc] by simp_all
  have nb: "\<not> below (fpath (abs_path ?p)) cs" "\<not> below (fpath (abs_path ?p)) (cs @ [n])" for n
    unfolding fp by (simp_all add: not_below_longer)
  have nf': "\<not> fl_fail fl OpRemove (fpath (abs_path ?p))" using nf fp by simp
  have ch: "children fs' cs = children fs cs" unfolding fs'_def using children_RemoveAll [OF nb(1) nf', of fs] fp by simp
  have rd: "ReadDir fl fs' (abs_path cs) = ReadDir fl fs (abs_path cs)"
    by (rule ReadDir_agree)
       (use RemoveAll_agree [OF nb(1) nf', of fs] RemoveAll_simps(3) [OF nf', of _ fs] nb(2) ch fp in \<open>auto simp: fs'_def\<close>)
  have "concat (map (scanShard fl fs' (abs_path cs)) shards) = filter (\<lambda>e. ei_path e \<noteq> abs_path ?p) (concat (map (scanShard fl fs (abs_path cs)) shards))"
    if "ReadDir fl fs (abs_path cs) = Inr shards" for shards
  proof -
    have "good_comp (fst x)" if "x \<in> set shards" for x
      using \<open>ReadDir fl fs (abs_path cs) = Inr shards\<close> that children_good [OF ok] fp by (auto simp: ReadDir_def Let_def split: if_splits)
    then have "scanShard fl fs' (abs_path cs) x = filter (\<lambda>e. ei_path e \<noteq> abs_path ?p) (scanShard fl fs (abs_path cs) x)" if "x \<in> set shards" for x
      using scanShard_RemoveAll [OF ok g _ nf, of "fst x" "snd x"] that by (simp add: fs'_def)
    then show ?thesis by (simp add: filter_concat cong: map_cong)
  qed
  then show ?thesis
    using sc rd d by (auto simp: scanEntries_def Let_def total_size_def split: sum.splits fs_err.splits)
qed

lemma fs_ok_RemoveAll:
  assumes "fs_ok fs" "\<not> fl_fail fl OpRemove (fpath path)"
  shows "fs_ok (fst (RemoveAll fl fs path))"
proof -
  let ?p = "fpath path"
  have b: "below ?p q" if "below ?p (butlast q)" for q
    using that below_trans below_take [of "length q - 1" q] by (auto simp: butlast_conv_take)
  have i: "is_dir (fst (RemoveAll fl fs path)) (butlast q) = is_dir fs (butlast q)" if "\<not> below ?p q" for q
    using RemoveAll_agree [of path "butlast q" fl fs] b [of q] that assms(2) by (auto simp: agree_def)
  have fm: "map fst (filter (\<lambda>(r, _). \<not> below ?p r) xs) = filter (\<lambda>r. \<not> below ?p r) (map fst xs)" for xs :: "(string list \<times> (bytes \<times> int)) list"
    by (induction xs) auto
  have ff: "map fst (fs_files (fst (RemoveAll fl fs path))) = filter (\<lambda>r. \<not> below ?p r) (map fst (fs_files fs))"
    "fs_dirs (fst (RemoveAll fl fs path)) = filter (\<lambda>r. \<not> below ?p r) (fs_dirs fs)"
    using assms(2) by (simp_all add: RemoveAll_def Let_def fm)
  show ?thesis using assms(1) i unfolding fs_ok_def ff by (auto simp: is_dir_def)
qed

section \<open>The removal loop\<close>

lemma children_distinct: "distinct (children fs q)"
  by (simp add: children_def)

lemma scanKey_paths:
  assumes "good_comps (cs @ [n])" "good_comp k"
  shows "map ei_path (scanKey fl fs (abs_path (cs @ [n])) (k, b)) \<in> {[], [abs_path (cs @ [n, k])]}"
  using Join_comp [OF assms] by (cases b; cases "dirStats fl fs (abs_path (cs @ [n, k]))") (auto simp: scanKey_def Let_def)

lemma disjoint_mono: "A \<subseteq> X \<Longrightarrow> B \<subseteq> Y \<Longrightarrow> X \<inter> Y = {} \<Longrightarrow> A \<inter> B = {}"
  by blast

lemma distinct_concat_map:
  assumes "distinct xs" "\<forall>x \<in> set xs. distinct (map f (g x))"
    "\<forall>x \<in> set xs. \<forall>y \<in> set xs. x \<noteq> y \<longrightarrow> f ` set (g x) \<inter> f ` set (g y) = {}"
  shows "distinct (map f (concat (map g xs)))"
  using assms
proof (induction xs)
  case (Cons x xs)
  have "f ` set (g x) \<inter> f ` set (g y) = {}" if "y \<in> set xs" for y
  proof -
    have "x \<noteq> y" using Cons.prems(1) that by auto
    then show ?thesis using Cons.prems(3) that by (meson list.set_intros)
  qed
  then have "f ` set (g x) \<inter> (\<Union>y \<in> set xs. f ` set (g y)) = {}" by blast
  moreover have "f ` set (concat (map g xs)) = (\<Union>y \<in> set xs. f ` set (g y))" by auto
  moreover have "distinct (map f (concat (map g xs)))"
  proof (rule Cons.IH)
    show "distinct xs" using Cons.prems(1) by simp
    show "\<forall>x \<in> set xs. distinct (map f (g x))" using Cons.prems(2) by (meson list.set_intros)
    show "\<forall>x \<in> set xs. \<forall>y \<in> set xs. x \<noteq> y \<longrightarrow> f ` set (g x) \<inter> f ` set (g y) = {}"
      using Cons.prems(3) by (meson list.set_intros)
  qed
  moreover have "distinct (map f (g x))" using Cons.prems(2) by (meson list.set_intros)
  ultimately show ?case by (simp only: list.simps concat.simps map_append distinct_append set_map)
qed simp

lemma scanShard_paths:
  assumes ok: "fs_ok fs" and g: "good_comps (cs @ [n])"
  shows "ei_path ` set (scanShard fl fs (abs_path cs) (n, b)) \<subseteq> {abs_path (cs @ [n, k]) | k. good_comp k}"
    "distinct (map ei_path (scanShard fl fs (abs_path cs) (n, b)))"
proof -
  have j: "Join [abs_path cs, n] = abs_path (cs @ [n])" using Join_comp [of cs n] g by auto
  let ?f = "\<lambda>k. scanKey fl fs (abs_path (cs @ [n])) (k, is_dir fs (cs @ [n, k]))"
  have c: "scanShard fl fs (abs_path cs) (n, b) = [] \<or> scanShard fl fs (abs_path cs) (n, b) = concat (map ?f (children fs (cs @ [n])))"
    using j fpath_abs [OF g] by (auto simp: scanShard_def ReadDir_def Let_def comp_def)
  have gk: "good_comp k" if "k \<in> set (children fs (cs @ [n]))" for k using children_good [OF ok that] .
  have p: "ei_path ` set (?f k) \<subseteq> {abs_path (cs @ [n, k])}" "distinct (map ei_path (?f k))" if "k \<in> set (children fs (cs @ [n]))" for k
  proof -
    have m: "map ei_path (?f k) = [] \<or> map ei_path (?f k) = [abs_path (cs @ [n, k])]"
      using scanKey_paths [OF g gk [OF that], of fl fs "is_dir fs (cs @ [n, k])"] by blast
    then have "set (map ei_path (?f k)) \<subseteq> {abs_path (cs @ [n, k])}" by (metis empty_set list.simps(15) order_refl empty_subsetI)
    then show "ei_path ` set (?f k) \<subseteq> {abs_path (cs @ [n, k])}" by (simp only: set_map)
    show "distinct (map ei_path (?f k))" using m by (metis distinct.simps(1) distinct_singleton)
  qed
  show "ei_path ` set (scanShard fl fs (abs_path cs) (n, b)) \<subseteq> {abs_path (cs @ [n, k]) | k. good_comp k}"
  proof
    fix x assume "x \<in> ei_path ` set (scanShard fl fs (abs_path cs) (n, b))"
    then obtain k where "k \<in> set (children fs (cs @ [n]))" "x \<in> ei_path ` set (?f k)" using c by auto
    then show "x \<in> {abs_path (cs @ [n, k]) | k. good_comp k}" using p(1) gk by blast
  qed
  have "distinct (map ei_path (concat (map ?f (children fs (cs @ [n])))))"
  proof (rule distinct_concat_map [OF children_distinct]; intro ballI impI)
    show "distinct (map ei_path (?f k))" if "k \<in> set (children fs (cs @ [n]))" for k using p(2) [OF that] .
    fix k k' assume k: "k \<in> set (children fs (cs @ [n]))" "k' \<in> set (children fs (cs @ [n]))" "k \<noteq> k'"
    then have "abs_path (cs @ [n, k]) \<noteq> abs_path (cs @ [n, k'])"
      using abs_path_inject [of "cs @ [n, k]" "cs @ [n, k']"] g gk by auto
    then have "{abs_path (cs @ [n, k])} \<inter> {abs_path (cs @ [n, k'])} = {}" by simp
    then show "ei_path ` set (?f k) \<inter> ei_path ` set (?f k') = {}"
      by (rule disjoint_mono [OF p(1) [OF k(1)] p(1) [OF k(2)]])
  qed
  then show "distinct (map ei_path (scanShard fl fs (abs_path cs) (n, b)))" using c by auto
qed

text \<open>Each entry of a scan is a directory two levels down, and appears once.\<close>

lemma scan_paths:
  assumes ok: "fs_ok fs" and d: "ds_dir d = abs_path cs" "good_comps cs" and sc: "scanEntries fl fs d = Inr (es, tot)"
  shows "e \<in> set es \<Longrightarrow> \<exists>a b. good_comps (cs @ [a, b]) \<and> ei_path e = abs_path (cs @ [a, b])" "distinct (map ei_path es)"
    "tot = total_size es"
proof -
  let ?f = "\<lambda>n. scanShard fl fs (abs_path cs) (n, is_dir fs (cs @ [n]))"
  have c: "es = [] \<or> es = concat (map ?f (children fs cs))"
  proof (cases "ReadDir fl fs (abs_path cs)")
    case (Inl e)
    then show ?thesis using sc d(1) by (cases e) (simp_all add: scanEntries_def)
  next
    case (Inr shards)
    then have "shards = map (\<lambda>n. (n, is_dir fs (cs @ [n]))) (children fs cs)"
      using fpath_abs [OF d(2)] by (simp add: ReadDir_def Let_def split: if_splits)
    then show ?thesis using sc d(1) Inr by (simp add: scanEntries_def Let_def comp_def)
  qed
  have gn: "good_comps (cs @ [n])" if "n \<in> set (children fs cs)" for n using d(2) children_good [OF ok that] by auto
  note p = scanShard_paths [OF ok gn]
  show "\<exists>a b. good_comps (cs @ [a, b]) \<and> ei_path e = abs_path (cs @ [a, b])" if "e \<in> set es"
  proof -
    have "e \<in> set (concat (map ?f (children fs cs)))" using c \<open>e \<in> set es\<close> by (metis empty_iff empty_set)
    then obtain n where n: "n \<in> set (children fs cs)" "e \<in> set (?f n)" by auto
    have "ei_path e \<in> {abs_path (cs @ [n, k]) | k. good_comp k}"
      using p(1) [OF n(1), of fl "is_dir fs (cs @ [n])"] n(2) by (meson imageI subsetD)
    then obtain k where k: "good_comp k" "ei_path e = abs_path (cs @ [n, k])" by blast
    then have "good_comps (cs @ [n, k])" using gn [OF n(1)] by simp
    then show ?thesis using k(2) by blast
  qed
  have "distinct (map ei_path (concat (map ?f (children fs cs))))"
  proof (rule distinct_concat_map [OF children_distinct]; intro ballI impI)
    show "distinct (map ei_path (?f n))" if "n \<in> set (children fs cs)" for n using p(2) [OF that] .
    fix n n' assume n: "n \<in> set (children fs cs)" "n' \<in> set (children fs cs)" "n \<noteq> n'"
    then have "abs_path (cs @ [n, k]) \<noteq> abs_path (cs @ [n', k'])" if "good_comp k" "good_comp k'" for k k'
      using abs_path_inject [of "cs @ [n, k]" "cs @ [n', k']"] gn [OF n(1)] gn [OF n(2)] that n(3) by simp
    then have "{abs_path (cs @ [n, k]) | k. good_comp k} \<inter> {abs_path (cs @ [n', k]) | k. good_comp k} = {}" by blast
    then show "ei_path ` set (?f n) \<inter> ei_path ` set (?f n') = {}"
      by (rule disjoint_mono [OF p(1) [OF n(1)] p(1) [OF n(2)]])
  qed
  then show "distinct (map ei_path es)" using c by (elim disjE) (simp, simp only:)
  show "tot = total_size es"
    using sc by (cases "ReadDir fl fs (ds_dir d)") (auto simp: scanEntries_def Let_def total_size_def split: fs_err.splits)
qed

text \<open>
  The loop removes a prefix of its list, stops at the first entry the test lets live, and leaves the
  rest of the store as the scan saw it.
\<close>

lemma evict_loop_spec:
  assumes "fs_ok fs" "ds_dir d = abs_path cs" "scanEntries fl fs d = Inr (es, tot)"
    "\<forall>e \<in> set xs. \<exists>a b. good_comps (cs @ [a, b]) \<and> ei_path e = abs_path (cs @ [a, b])"
    "\<forall>p. \<not> fl_fail fl OpRemove p"
  shows "\<exists>gone rest fs'. xs = gone @ rest \<and> evict_loop fl go fs t xs = (fs', t - total_size gone) \<and>
           scanEntries fl fs' d = Inr (filter (\<lambda>e. ei_path e \<notin> ei_path ` set gone) es,
             total_size (filter (\<lambda>e. ei_path e \<notin> ei_path ` set gone) es)) \<and>
           (rest \<noteq> [] \<longrightarrow> \<not> go (hd rest) (t - total_size gone)) \<and>
           (gone \<noteq> [] \<longrightarrow> go (last gone) (t - total_size gone + ei_size (last gone)))"
  using assms(1,3,4)
proof (induction xs arbitrary: fs es tot t)
  case Nil
  have "tot = total_size es" using Nil by (auto simp: scanEntries_def Let_def total_size_def split: sum.splits fs_err.splits)
  then show ?case using Nil by (simp add: total_size_def)
next
  case (Cons x xs)
  have tt: "tot = total_size es" using Cons by (auto simp: scanEntries_def Let_def total_size_def split: sum.splits fs_err.splits)
  obtain a b where ab: "good_comps (cs @ [a, b])" "ei_path x = abs_path (cs @ [a, b])" using Cons.prems by auto
  show ?case
  proof (cases "go x t")
    case False
    then show ?thesis using Cons.prems tt by (intro exI [of _ "[]"] exI [of _ "x # xs"] exI [of _ fs]) (simp add: total_size_def)
  next
    case True
    let ?fs = "fst (RemoveAll fl fs (ei_path x))" and ?es = "filter (\<lambda>e. ei_path e \<noteq> ei_path x) es"
    have nf: "\<not> fl_fail fl OpRemove (cs @ [a, b])" "\<not> fl_fail fl OpRemove (fpath (ei_path x))" using assms(5) by auto
    have r: "RemoveAll fl fs (ei_path x) = (?fs, None)" using RemoveAll_simps(1) [OF nf(2), of fs] by (metis prod.collapse)
    have "fs_ok ?fs" using fs_ok_RemoveAll [OF Cons.prems(1) nf(2)] .
    moreover have "scanEntries fl ?fs d = Inr (?es, total_size ?es)"
      using scan_RemoveAll [OF Cons.prems(1) ab(1) assms(2) nf(1) Cons.prems(2)] ab(2) by simp
    ultimately obtain gone rest fs' where IH: "xs = gone @ rest"
      "evict_loop fl go ?fs (t - ei_size x) xs = (fs', t - ei_size x - total_size gone)"
      "scanEntries fl fs' d = Inr (filter (\<lambda>e. ei_path e \<notin> ei_path ` set gone) ?es,
             total_size (filter (\<lambda>e. ei_path e \<notin> ei_path ` set gone) ?es))"
      "rest \<noteq> [] \<longrightarrow> \<not> go (hd rest) (t - ei_size x - total_size gone)"
      "gone \<noteq> [] \<longrightarrow> go (last gone) (t - ei_size x - total_size gone + ei_size (last gone))"
      using Cons.IH [of ?fs ?es "total_size ?es" "t - ei_size x"] Cons.prems(3) by auto
    have fe: "filter (\<lambda>e. ei_path e \<notin> ei_path ` set gone) ?es = filter (\<lambda>e. ei_path e \<notin> ei_path ` set (x # gone)) es"
      by (auto intro: filter_cong)
    have tg: "total_size (x # gone) = ei_size x + total_size gone" by (simp add: total_size_def)
    have "x # xs = (x # gone) @ rest" using IH(1) by simp
    moreover have "evict_loop fl go fs t (x # xs) = (fs', t - total_size (x # gone))" using IH(2) True tg RemoveAll_simps(1) [OF nf(2), of fs] by (simp add: split_beta algebra_simps)
    moreover have "rest \<noteq> [] \<longrightarrow> \<not> go (hd rest) (t - total_size (x # gone))" using IH(4) tg by (simp add: algebra_simps)
    moreover have "go (last (x # gone)) (t - total_size (x # gone) + ei_size (last (x # gone)))"
      using IH(5) True tg by (cases "gone = []") (simp_all add: algebra_simps total_size_def)
    ultimately show ?thesis using IH(3) unfolding fe by blast
  qed
qed

text \<open>What is left of the scan when the entries of a prefix of a reordering of it are removed.\<close>

lemma filter_gone:
  assumes "distinct (map ei_path es)" "mset (gone @ rest) = mset es"
  shows "mset (filter (\<lambda>e. ei_path e \<notin> ei_path ` set gone) es) = mset rest"
proof -
  have "mset (map ei_path (gone @ rest)) = mset (map ei_path es)" using assms(2) by (metis mset_map)
  then have d: "distinct (map ei_path (gone @ rest))" using assms(1) by (metis mset_eq_imp_distinct_iff)
  have "mset (filter (\<lambda>e. ei_path e \<notin> ei_path ` set gone) es) = filter_mset (\<lambda>e. ei_path e \<notin> ei_path ` set gone) (mset (gone @ rest))"
    using assms(2) by simp
  also have "\<dots> = mset (filter (\<lambda>e. ei_path e \<notin> ei_path ` set gone) (gone @ rest))" by simp
  also have "filter (\<lambda>e. ei_path e \<notin> ei_path ` set gone) (gone @ rest) = rest"
    using d by (auto simp: filter_empty_conv filter_id_conv)
  finally show ?thesis .
qed

lemma total_size_mset: "mset xs = mset ys \<Longrightarrow> total_size xs = total_size ys"
  unfolding total_size_def by (metis mset_map sum_mset_sum_list)

definition lru_order :: "(entryInfo list \<Rightarrow> entryInfo list) \<Rightarrow> bool" where
  "lru_order srt \<longleftrightarrow> (\<forall>es. mset (srt es) = mset es \<and> sorted_wrt (\<lambda>a b. ei_modTime a \<le> ei_modTime b) (srt es))"

lemma evict_spec:
  assumes ok: "fs_ok fs" and d: "ds_dir d = abs_path cs" "good_comps cs" and sc: "scanEntries fl fs d = Inr (es, tot)"
    and nf: "\<forall>p. \<not> fl_fail fl OpRemove p" and srt: "lru_order srt" and mx: "0 \<le> ds_maxSize d"
    and ev: "evict fl srt fs d = (fs', err)"
  shows "err = None \<and> (\<exists>gone kept kept'.
           mset es = mset (gone @ kept) \<and> scanEntries fl fs' d = Inr (kept', total_size kept') \<and> mset kept' = mset kept \<and>
           total_size kept' \<le> ds_maxSize d \<and> (\<forall>g \<in> set gone. \<forall>k \<in> set kept. ei_modTime g \<le> ei_modTime k) \<and>
           (gone \<noteq> [] \<longrightarrow> total_size kept' + ei_size (last gone) > ds_maxSize d))"
proof -
  note P = scan_paths [OF ok d sc]
  show ?thesis
  proof (cases "tot \<le> ds_maxSize d")
    case True
    then have "fs' = fs" "err = None" using ev sc by (auto simp: evict_def)
    then show ?thesis
      using True sc P(3) by (intro conjI exI [of _ "[]"] exI [of _ es]) simp_all
  next
    case False
    have s: "mset (srt es) = mset es" "sorted_wrt (\<lambda>a b. ei_modTime a \<le> ei_modTime b) (srt es)" using srt by (simp_all add: lru_order_def)
    have "\<forall>e \<in> set (srt es). \<exists>a b. good_comps (cs @ [a, b]) \<and> ei_path e = abs_path (cs @ [a, b])"
      using P(1) s(1) by (metis set_mset_mset)
    from evict_loop_spec [OF ok d(1) sc this nf, of "\<lambda>_ t. t > ds_maxSize d" tot]
    obtain gone rest f where l: "srt es = gone @ rest" "evict_loop fl (\<lambda>_ t. t > ds_maxSize d) fs tot (srt es) = (f, tot - total_size gone)"
      "scanEntries fl f d = Inr (filter (\<lambda>e. ei_path e \<notin> ei_path ` set gone) es, total_size (filter (\<lambda>e. ei_path e \<notin> ei_path ` set gone) es))"
      "rest \<noteq> [] \<longrightarrow> \<not> (tot - total_size gone > ds_maxSize d)"
      "gone \<noteq> [] \<longrightarrow> tot - total_size gone + ei_size (last gone) > ds_maxSize d"
      by blast
    let ?k = "filter (\<lambda>e. ei_path e \<notin> ei_path ` set gone) es"
    have e: "fs' = f" "err = None" using ev sc False l(2) by (auto simp: evict_def)
    have m: "mset es = mset (gone @ rest)" using s(1) l(1) by simp
    have k: "mset ?k = mset rest" using filter_gone [OF P(2)] m by simp
    have "total_size es = total_size (gone @ rest)" by (rule total_size_mset [OF m])
    then have t: "tot - total_size gone = total_size ?k"
      using P(3) total_size_mset [OF k] by (simp add: total_size_def)
    have le: "total_size ?k \<le> ds_maxSize d"
      using l(4) t mx total_size_mset [OF k] by (cases "rest = []") (auto simp: total_size_def)
    have "\<forall>g \<in> set gone. \<forall>k \<in> set rest. ei_modTime g \<le> ei_modTime k" using s(2) unfolding l(1) sorted_wrt_append by blast
    then show ?thesis using e m k l(3,5) t le by auto
  qed
qed

section \<open>What the root store sees of its namespaces\<close>

text \<open>
  Blobs written through a namespace of a namespace lie at least four levels below the root, so no
  directory two levels down holds a regular file.
\<close>

definition namespaced_only :: "FS \<Rightarrow> string list \<Rightarrow> bool" where
  "namespaced_only fs cs \<longleftrightarrow> (\<forall>p \<in> set (map fst (fs_files fs)). below cs p \<longrightarrow> length cs + 3 < length p)"

lemma dirStats_empty:
  assumes "fs_ok fs" "namespaced_only fs cs" "good_comps (cs @ [a, b])" "dirStats fl fs (abs_path (cs @ [a, b])) = Inr r"
  shows "r = (0, 0)"
proof -
  let ?q = "cs @ [a, b]"
  have ch: "is_dir fs (?q @ [n])" if "n \<in> set (children fs ?q)" for n
  proof -
    obtain p where p: "p \<noteq> []" "butlast p = ?q" "n = last p" "p \<in> set (fs_dirs fs) \<or> p \<in> fst ` set (fs_files fs)"
      using \<open>n \<in> set (children fs ?q)\<close> by (auto simp: children_def)
    then have "p = ?q @ [n]" by (metis append_butlast_last_id)
    then have "p \<notin> fst ` set (fs_files fs)"
      using assms(2) below_append [of cs "[a, b, n]"] by (force simp: namespaced_only_def simp del: below_append)
    then show ?thesis using p(4) \<open>p = ?q @ [n]\<close> by (simp add: is_dir_def)
  qed
  have fd: "foldl (\<lambda>(sz, mt) (name, isdir). if isdir then (sz, mt) else f sz mt name) (0 :: int, 0 :: int) files = (0, 0)"
    if "\<forall>x \<in> set files. snd x" for f and files :: "(string \<times> bool) list"
    using that by (induction files) auto
  obtain files where rd: "ReadDir fl fs (abs_path ?q) = Inr files"
    using assms(4) by (cases "ReadDir fl fs (abs_path ?q)") (simp_all add: dirStats_def)
  then have "files = map (\<lambda>n. (n, is_dir fs (?q @ [n]))) (children fs ?q)"
    using fpath_abs [OF assms(3)] by (auto simp: ReadDir_def Let_def split: if_splits)
  then have "\<forall>x \<in> set files. snd x" using ch by auto
  from fd [OF this] show ?thesis using assms(4) unfolding dirStats_def rd ebind_simps by simp
qed

lemma scanKey_stats: "e \<in> set (scanKey fl fs sp k) \<Longrightarrow> dirStats fl fs (ei_path e) = Inr (ei_size e, ei_modTime e)"
  by (cases "dirStats fl fs (Join [sp, fst k])") (auto simp: scanKey_def Let_def split: if_splits)

lemma scanShard_stats: "e \<in> set (scanShard fl fs dir x) \<Longrightarrow> dirStats fl fs (ei_path e) = Inr (ei_size e, ei_modTime e)"
  by (cases "ReadDir fl fs (Join [dir, fst x])") (auto simp: scanShard_def Let_def scanKey_stats split: if_splits)

lemma scan_stats:
  assumes "scanEntries fl fs d = Inr (es, tot)" "e \<in> set es"
  shows "dirStats fl fs (ei_path e) = Inr (ei_size e, ei_modTime e)"
  using assms
  by (cases "ReadDir fl fs (ds_dir d)") (auto simp: scanEntries_def Let_def scanShard_stats split: fs_err.splits)

lemma scan_namespaced:
  assumes ok: "fs_ok fs" and d: "ds_dir d = abs_path cs" "good_comps cs" and ns: "namespaced_only fs cs"
    and sc: "scanEntries fl fs d = Inr (es, tot)"
  shows "e \<in> set es \<Longrightarrow> ei_size e = 0 \<and> ei_modTime e = 0" "tot = 0"
proof -
  have z: "ei_size e = 0 \<and> ei_modTime e = 0" if e: "e \<in> set es" for e
  proof -
    obtain a b where ab: "good_comps (cs @ [a, b])" "ei_path e = abs_path (cs @ [a, b])"
      using scan_paths(1) [OF ok d sc e] by blast
    show ?thesis using dirStats_empty [OF ok ns ab(1), of fl] scan_stats [OF sc e] ab(2) by simp
  qed
  then show "e \<in> set es \<Longrightarrow> ei_size e = 0 \<and> ei_modTime e = 0" .
  have "total_size es = 0" using z by (induction es) (simp_all add: total_size_def)
  then show "tot = 0" using scan_paths(3) [OF ok d sc] by simp
qed

lemma clean_by_size_namespaced:
  assumes ok: "fs_ok fs" and d: "ds_dir d = abs_path cs" "good_comps cs" and ns: "namespaced_only fs cs"
    and sc: "scanEntries fl fs d = Inr (es, tot)" and age: "maxAge \<le> 0"
  shows "disk_Clean fl srt now fs d maxSize maxAge = (fs, None)"
proof -
  have "tot = 0" using scan_namespaced(2) [OF ok d ns sc] .
  moreover have "fst (evict_loop fl (\<lambda>e tot. (0 < (0 :: int) \<and> ei_modTime e < 0) \<or> (maxSize > 0 \<and> tot > maxSize)) fs 0 xs) = fs" for xs
    by (cases xs) auto
  ultimately show ?thesis using sc age by (simp add: disk_Clean_def)
qed

lemma clean_by_age_namespaced:
  assumes ok: "fs_ok fs" and d: "ds_dir d = abs_path cs" "good_comps cs" and ns: "namespaced_only fs cs"
    and sc: "scanEntries fl fs d = Inr (es, tot)" and age: "0 < maxAge" "maxAge < now"
    and nf: "\<forall>p. \<not> fl_fail fl OpRemove p" and srt: "lru_order srt"
  shows "\<exists>fs'. disk_Clean fl srt now fs d maxSize maxAge = (fs', None) \<and> scanEntries fl fs' d = Inr ([], 0)"
proof -
  note P = scan_paths [OF ok d sc]
  let ?go = "\<lambda>e tot. (now - maxAge > 0 \<and> ei_modTime e < now - maxAge) \<or> (maxSize > 0 \<and> tot > maxSize)"
  have s: "mset (srt es) = mset es" using srt by (simp add: lru_order_def)
  then have set_eq: "set (srt es) = set es" by (metis set_mset_mset)
  have "\<forall>e \<in> set (srt es). \<exists>a b. good_comps (cs @ [a, b]) \<and> ei_path e = abs_path (cs @ [a, b])" using P(1) set_eq by blast
  from evict_loop_spec [OF ok d(1) sc this nf, of ?go tot]
  obtain gone rest f where l: "srt es = gone @ rest" "evict_loop fl ?go fs tot (srt es) = (f, tot - total_size gone)"
    "scanEntries fl f d = Inr (filter (\<lambda>e. ei_path e \<notin> ei_path ` set gone) es, total_size (filter (\<lambda>e. ei_path e \<notin> ei_path ` set gone) es))"
    "rest \<noteq> [] \<longrightarrow> \<not> ?go (hd rest) (tot - total_size gone)"
    by blast
  have "rest = []"
  proof (rule ccontr)
    assume "rest \<noteq> []"
    then have "hd rest \<in> set es" using l(1) set_eq by (metis Un_iff hd_in_set set_append)
    then have "ei_modTime (hd rest) = 0" using scan_namespaced(1) [OF ok d ns sc] by blast
    then show False using l(4) \<open>rest \<noteq> []\<close> age by simp
  qed
  then have "set gone = set es" using l(1) set_eq by simp
  then have "filter (\<lambda>e. ei_path e \<notin> ei_path ` set gone) es = []" by (simp add: filter_empty_conv)
  then have "scanEntries fl f d = Inr ([], 0)" using l(3) by (simp add: total_size_def)
  moreover have "disk_Clean fl srt now fs d maxSize maxAge = (f, None)"
    using sc age l(2) by (simp add: disk_Clean_def Let_def)
  ultimately show ?thesis by blast
qed

end
