(* ===== verification/Cache_Props.thy ===== *)
theory Cache_Props
  imports Cache_Live Cache_Evict Compiler_Props
begin

text \<open>
  The properties of the compile cache and of the disk store below it, stated over the disk store
  with arbitrary input/output faults, and witnesses at small concrete stores.
\<close>

lemma Store_effect:
  "snd (fst (CompileCache_Store H api rf meta c w s iv res t)) = s \<or>
   (\<exists>w' key output r. CacheKey H (cc_ctx c) w iv = (w', Inr key) \<and> res = Some r \<and> ir_ExitCode r = 0 \<and>
      stored_output rf w' iv r = Inr output \<and>
      snd (fst (CompileCache_Store H api rf meta c w s iv res t)) = fst (store_loop api t key (entry_blobs output r meta) s (cc_stores c)))"
  by (auto simp: CompileCache_Store_def split: option.split prod.split sum.split)

lemma CacheKey_not_Nil:
  assumes "\<forall>x. H x \<noteq> []" "CacheKey H ctx w iv = (w', Inr key)"
  shows "key \<noteq> []"
  using assms by (auto simp: CacheKey_def CacheKeyWithManifest_def ebind_Inr_conv split: prod.splits sum.splits if_splits)

context blob_store
begin

lemma namespace_all_facts:
  assumes "namespace_all api t vs = Inr as" "\<forall>v \<in> set vs. rooted v" "sorted_wrt sep vs"
  shows "\<forall>a \<in> set as. rooted a" "sorted_wrt sep as" "length as = length vs"
    "\<forall>a \<in> set as. \<exists>v \<in> set vs. st_Namespace api v t = Inr a"
proof -
  have "(\<forall>a \<in> set as. rooted a) \<and> sorted_wrt sep as \<and> length as = length vs \<and>
        (\<forall>a \<in> set as. \<exists>v \<in> set vs. st_Namespace api v t = Inr a)"
    using assms
  proof (induction vs arbitrary: as)
    case (Cons v vs)
    obtain a as' where a: "st_Namespace api v t = Inr a" "namespace_all api t vs = Inr as'" "as = a # as'"
      using Cons.prems(1) by (auto simp: ebind_Inr_conv)
    have IH: "\<forall>a \<in> set as'. rooted a" "sorted_wrt sep as'" "length as' = length vs"
      "\<forall>b \<in> set as'. \<exists>v \<in> set vs. st_Namespace api v t = Inr b"
      using Cons.IH [OF a(2)] Cons.prems by auto
    have "sep a b" if b: "b \<in> set as'" for b
    proof -
      obtain v' where v': "v' \<in> set vs" "st_Namespace api v' t = Inr b" using IH(4) b by blast
      then show ?thesis using ns_sep [of v v' t a t b] a(1) Cons.prems by auto
    qed
    then show ?case using IH a ns_usable [of v t a] Cons.prems(2) by auto
  qed simp
  then show "\<forall>a \<in> set as. rooted a" "sorted_wrt sep as" "length as = length vs"
    "\<forall>a \<in> set as. \<exists>v \<in> set vs. st_Namespace api v t = Inr a" by blast+
qed

lemma NewCompileCache_facts:
  assumes "NewCompileCache api ctx vs = Inr c" "\<forall>v \<in> set vs. rooted v" "sorted_wrt sep vs"
  shows "\<forall>v \<in> set (cc_stores c). rooted v" "sorted_wrt sep (cc_stores c)" "length (cc_stores c) = length vs" "cc_ctx c = ctx"
  using assms namespace_all_facts [of "''compile''" vs] by (auto simp: NewCompileCache_def ebind_Inr_conv)

lemma cache_replay:
  assumes c: "\<forall>v \<in> set (cc_stores c). rooted v" "sorted_wrt sep (cc_stores c)" "cc_stores c \<noteq> []"
    and key: "CacheKey H (cc_ctx c) w iv = (w1, Inr key)" "CacheKey H (cc_ctx c) w2 iv2 = (w3, Inr key)" "key \<noteq> []"
    and st: "CompileCache_Store H api rf meta c w s iv (Some r) t = (ws, None)"
    and r: "ir_ExitCode r = 0" "ir_Output r \<noteq> []" "extras_fit (ir_Extras r)" "distinct (map fst (ir_Extras r))"
  shows "\<exists>x. CompileCache_Lookup H api c w2 (snd ws) iv2 t = (w3, Inr (Some x)) \<and>
           ir_Stdout x = ir_Stdout r \<and> ir_Stderr x = ir_Stderr r \<and> ir_ExitCode x = 0 \<and>
           ir_Output x = (if Output iv2 = [] then [] else ir_Output r) \<and>
           (ir_Extras r \<noteq> [] \<longrightarrow> map_of (ir_Extras x) = map_of (ir_Extras r))"
proof -
  obtain v vs where v: "cc_stores c = v # vs" using c(3) by (cases "cc_stores c") auto
  have t: "t \<noteq> []" using st r(1) c(3) by (auto simp: CompileCache_Store_def)
  have so: "stored_output rf w1 iv r = Inr (Some (ir_Output r))" using r(2) by (simp add: stored_output_def)
  obtain s' where s': "store_loop api t key (entry_blobs (Some (ir_Output r)) r meta) s (v # vs) = (s', None)" "snd ws = s'"
    using st r(1) c(3) t key(1) so v by (auto simp: CompileCache_Store_def split: prod.splits)
  then obtain a where a: "st_Namespace api v t = Inr a" by (cases "st_Namespace api v t") auto
  have "lookup_loop api s' t key (Output iv2) (v # vs) = Inr (Some (r\<lparr> ir_Output := (if Output iv2 = [] then [] else ir_Output r),
     ir_Extras := (if ir_Extras r = [] then load_extras (st_Get api s a key blobExtras) else sorted_extras (ir_Extras r)) \<rparr>))"
    using store_then_lookup [OF c(1,2) [unfolded v] a key(3) s'(1) r(1) _ r(3,4), of "Output iv2"] by (simp add: nil_bytes_def)
  then show ?thesis
    using key(2) t v s'(2) r(1) map_of_sorted_extras [OF r(4)] by (auto simp: CompileCache_Lookup_def)
qed

lemma cache_isolated:
  assumes c: "\<forall>v \<in> set (cc_stores c). rooted v" "sorted_wrt sep (cc_stores c)" and H: "\<forall>x. H x \<noteq> []" and t: "t \<noteq> t'"
  shows "CompileCache_Lookup H api c w' (snd (fst (CompileCache_Store H api rf meta c w s iv res t))) iv' t' =
         CompileCache_Lookup H api c w' s iv' t'"
proof -
  let ?s = "snd (fst (CompileCache_Store H api rf meta c w s iv res t))"
  have "lookup_loop api ?s t' k' p (cc_stores c) = lookup_loop api s t' k' p (cc_stores c)" if "k' \<noteq> []" for k' p
    using Store_effect [of H api rf meta c w s iv res t]
  proof (elim disjE exE conjE)
    fix w1 key r and "output"
    assume k: "CacheKey H (cc_ctx c) w iv = (w1, Inr key)"
      and e: "?s = fst (store_loop api t key (entry_blobs output r meta) s (cc_stores c))"
    show ?thesis unfolding e by (rule store_tenant_frame [OF c t CacheKey_not_Nil [OF H k] that entry_blobs_ok])
  qed simp
  note L = this
  show ?thesis
    by (auto simp: CompileCache_Lookup_def split: prod.split sum.split) (rule L, erule CacheKey_not_Nil [OF H])
qed

end

lemma compile_store_succeeds:
  assumes "NewCompileCache (disk_api fl srt now) ctx ds = Inr c" "\<forall>op p. \<not> fl_fail fl op p"
    and "\<forall>d \<in> set ds. disk_rooted fl d \<and> cache_layout (fpath (ds_dir d)) fs" "sorted_wrt disk_sep ds"
    and "CacheKey H ctx w iv = (w1, Inr key)" "key \<noteq> []" "validateNamespace tenant = None"
    and "ir_Output r \<noteq> []"
  shows "\<exists>w' fs'. CompileCache_Store H (disk_api fl srt now) rf meta c w fs iv (Some r) tenant = ((w', fs'), None)"
proof -
  obtain as where as: "namespace_all (disk_api fl srt now) ''compile'' ds = Inr as" "c = \<lparr> cc_ctx = ctx, cc_stores = as \<rparr>"
    using assms(1) by (auto simp: NewCompileCache_def ebind_Inr_conv)
  have "list_all2 (one_below fl) as (map (\<lambda>d. fpath (ds_dir d)) ds)"
    using as(1) assms(3)
  proof (induction ds arbitrary: as)
    case (Cons d ds)
    then obtain a bs where ab: "disk_Namespace d ''compile'' = Inr a" "namespace_all (disk_api fl srt now) ''compile'' ds = Inr bs" "as = a # bs"
      by (auto simp: ebind_Inr_conv disk_api_def)
    have "one_below fl a (fpath (ds_dir d))"
      using disk_ns [OF _ ab(1), of fl] Cons.prems(2) by (auto simp: one_below_def)
    then show ?case using Cons ab by simp
  qed simp
  moreover have "sorted_wrt unrelated (map (\<lambda>d. fpath (ds_dir d)) ds)"
    using assms(4) by (simp add: sorted_wrt_map disk_sep_def [abs_def])
  moreover have "\<not> bad_component tenant" using assms(7) by (simp add: validateNamespace_def split: if_splits)
  ultimately obtain fs' where "store_loop (disk_api fl srt now) tenant key (entry_blobs (Some (ir_Output r)) r meta) fs as = (fs', None)"
    using store_loop_succeeds [OF assms(2) _ assms(6) entry_blobs_ok, of tenant as "map (\<lambda>d. fpath (ds_dir d)) ds" fs srt now "Some (ir_Output r)" r meta]
      assms(3) by auto
  moreover have "tenant \<noteq> []" using \<open>\<not> bad_component tenant\<close> by (auto simp: bad_component_def)
  ultimately show ?thesis
    using assms(5,8) as(2) by (simp add: CompileCache_Store_def stored_output_def)
qed

section \<open>A small store\<close>

definition demo_store :: DiskCacheStore where
  "demo_store = \<lparr> ds_dir = ''/c'', ds_maxSize = 0 \<rparr>"

definition demo_key :: "bytes \<Rightarrow> bytes" where "demo_key x = ''k''"

definition demo_cc :: "(unit, DiskCacheStore) CompileCache" where
  "demo_cc = \<lparr> cc_ctx = demo_ctx, cc_stores = [\<lparr> ds_dir = ''/c/compile'', ds_maxSize = 0 \<rparr>] \<rparr>"

definition demo_res :: InvocationResult where
  "demo_res = \<lparr> ir_Output = ''obj'', ir_Stdout = [], ir_Stderr = ''w'', ir_ExitCode = 0, ir_Extras = [(''a.d'', ''x'')] \<rparr>"

definition demo_fs :: FS where "demo_fs = \<lparr> fs_files = [], fs_dirs = [] \<rparr>"

lemma demo_new: "NewCompileCache (disk_api noFaults id 1) demo_ctx [demo_store] = Inr demo_cc"
  by (simp add: NewCompileCache_def disk_api_def disk_Namespace_def validateNamespace_def bad_component_def demo_store_def demo_cc_def) code_simp

lemma demo_cachekey: "CacheKey demo_key demo_ctx () demo_cas = ((), Inr ''k'')"
  by (simp add: CacheKey_def CacheKeyWithManifest_def key_identity_def key_source_def demo_ctx_def demo_cas_def demo_inv_def
      NewInvocation_def demo_key_def)

lemma demo_rooted: "disk_rooted noFaults demo_store" "\<forall>d \<in> set (cc_stores demo_cc). disk_rooted noFaults d"
proof -
  have "ds_dir demo_store = abs_path [''c'']" "good_comps [''c'']" by (simp_all add: demo_store_def good_comp_def)
  then show "disk_rooted noFaults demo_store" unfolding disk_rooted_def by (intro conjI exI [of _ "[''c'']"]) simp_all
  have "\<lparr> ds_dir = ''/c/compile'', ds_maxSize = 0 \<rparr> = \<lparr> ds_dir = abs_path [''c'', ''compile''], ds_maxSize = 0 :: int \<rparr>" by simp
  moreover have "good_comps [''c'', ''compile'']" by (simp add: good_comp_def)
  ultimately have "disk_rooted noFaults \<lparr> ds_dir = ''/c/compile'', ds_maxSize = 0 \<rparr>"
    unfolding disk_rooted_def by (intro conjI exI [of _ "[''c'', ''compile'']"]) simp_all
  then show "\<forall>d \<in> set (cc_stores demo_cc). disk_rooted noFaults d" by (simp add: demo_cc_def)
qed

lemma demo_extras: "extras_fit (ir_Extras demo_res)" "distinct (map fst (ir_Extras demo_res))"
  by (simp_all add: extras_fit_def demo_res_def)

lemma demo_layout: "\<forall>d \<in> set [demo_store]. disk_rooted noFaults d \<and> cache_layout (fpath (ds_dir d)) demo_fs"
  using demo_rooted by (simp add: cache_layout_def demo_fs_def)

lemma demo_tenant: "validateNamespace ''t'' = None"
  by (simp add: validateNamespace_def bad_component_def)

lemma demo_stored:
  "\<exists>w' fs'. CompileCache_Store demo_key (disk_api noFaults id 1) (\<lambda>_ _. Inl ENoEnt) ''m'' demo_cc () demo_fs demo_cas (Some demo_res) ''t'' =
     ((w', fs'), None)"
  by (rule compile_store_succeeds [OF demo_new _ demo_layout _ demo_cachekey _ demo_tenant]) (simp_all add: demo_res_def)

section \<open>Properties\<close>



text \<open>
  C23.  Tenants do not see each other: whatever one tenant stores, and however its writes fail, every
  lookup of another tenant answers as before.
\<close>

theorem tenant_isolation:
  assumes "NewCompileCache (disk_api fl srt now) ctx ds = Inr c" "\<forall>d \<in> set ds. disk_rooted fl d" "sorted_wrt disk_sep ds"
    and "\<forall>x. H x \<noteq> []" "tenant \<noteq> tenant'"
    and "CompileCache_Store H (disk_api fl srt now) rf meta c w fs iv res tenant = ((w', fs'), err)"
  shows "CompileCache_Lookup H (disk_api fl srt now) c w2 fs' iv' tenant' = CompileCache_Lookup H (disk_api fl srt now) c w2 fs iv' tenant'"
  using disk.cache_isolated [OF disk.NewCompileCache_facts(1,2) [OF assms(1-3)] assms(4,5), where w' = w2 and s = fs and iv' = iv' and iv = iv and res = res and w = w and rf = rf and meta = meta and srt = srt and now = now]
    assms(6) by simp

theorem tenant_isolation_witness:
  "\<exists>fs'. snd (fst (CompileCache_Store demo_key (disk_api noFaults id 1) (\<lambda>_ _. Inl ENoEnt) ''m'' demo_cc () demo_fs demo_cas (Some demo_res) ''t'')) = fs' \<and>
     CompileCache_Lookup demo_key (disk_api noFaults id 1) demo_cc () fs' demo_cas ''u'' = ((), Inr None)"
proof -
  obtain w' fs' where st: "CompileCache_Store demo_key (disk_api noFaults id 1) (\<lambda>_ _. Inl ENoEnt) ''m'' demo_cc () demo_fs demo_cas (Some demo_res) ''t'' = ((w', fs'), None)"
    using demo_stored by blast
  have "disk_Namespace \<lparr> ds_dir = ''/c/compile'', ds_maxSize = 0 \<rparr> ''u'' = Inr \<lparr> ds_dir = ''/c/compile/u'', ds_maxSize = 0 \<rparr>" by code_simp
  moreover have "disk_Has noFaults demo_fs \<lparr> ds_dir = ''/c/compile/u'', ds_maxSize = 0 \<rparr> ''k'' = Inr False" by code_simp
  ultimately have "CompileCache_Lookup demo_key (disk_api noFaults id 1) demo_cc () demo_fs demo_cas ''u'' = ((), Inr None)"
    using demo_cachekey by (simp add: CompileCache_Lookup_def demo_cc_def disk_api_def)
  moreover have "\<forall>x. demo_key x \<noteq> []" by (simp add: demo_key_def)
  ultimately show ?thesis
    using tenant_isolation [OF demo_new _ _ _ _ st, of "''u''" "()" demo_cas] demo_rooted(1) st by simp
qed


lemma demo_fresh:
  assumes "disk_rooted fl a" "key \<noteq> []" "blob_name n"
  shows "disk_Get fl demo_fs a key n = Inr None"
proof -
  have n: "\<not> bad_component n" using assms(3) by (simp add: blob_name_def)
  have "blob_path a key n \<noteq> []" by (simp add: blob_path_def)
  then show ?thesis
    using blob_fpath(1) [OF assms(1,2) n] n
    by (simp add: disk_Get_def validateName_def ReadFile_def Let_def demo_fs_def through_file_iff is_file_def is_dir_def)
qed


text \<open>
  C25.  While the operating system fails nothing and the store directories hold only cache entries,
  storing a successful result of a computable key in any well-formed tenant completes without an error.
\<close>

theorem store_completes:
  assumes "NewCompileCache (disk_api fl srt now) ctx ds = Inr c" "\<forall>op p. \<not> fl_fail fl op p"
    and "\<forall>d \<in> set ds. disk_rooted fl d \<and> cache_layout (fpath (ds_dir d)) fs" "sorted_wrt disk_sep ds"
    and "CacheKey H ctx w iv = (w1, Inr key)" "key \<noteq> []" "validateNamespace tenant = None"
    and "ir_Output r \<noteq> []"
  shows "\<exists>w' fs'. CompileCache_Store H (disk_api fl srt now) rf meta c w fs iv (Some r) tenant = ((w', fs'), None)"
  using assms by (rule compile_store_succeeds)

theorem store_completes_witness:
  "\<exists>w' fs'. CompileCache_Store demo_key (disk_api noFaults id 1) (\<lambda>_ _. Inl ENoEnt) ''m'' demo_cc () demo_fs demo_cas (Some demo_res) ''t'' =
     ((w', fs'), None)"
  by (rule store_completes [OF demo_new _ demo_layout _ demo_cachekey _ demo_tenant]) (simp_all add: demo_res_def)

text \<open>
  C26.  The serialised side-effect files decode to the same map, and the encoding does not depend on
  the order in which the map is iterated.
\<close>

theorem extras_roundtrip:
  assumes "extras_fit ex" "distinct (map fst ex)"
  shows "\<exists>out. decodeExtras (encodeExtras ex) = Some out \<and> map_of out = map_of ex \<and>
               (\<forall>ex'. distinct (map fst ex') \<and> set ex' = set ex \<longrightarrow> encodeExtras ex' = encodeExtras ex)"
proof -
  have "encodeExtras ex' = encodeExtras ex" if e: "distinct (map fst ex')" "set ex' = set ex" for ex'
  proof -
    have "set (map fst ex') = set (map fst ex)" using e(2) by simp
    then have "mset (map fst ex') = mset (map fst ex)" using e(1) assms(2) set_eq_iff_mset_eq_distinct by blast
    then have "sort (map fst ex') = sort (map fst ex)" by (intro properties_for_sort) simp_all
    moreover have "map_of ex' = map_of ex" using e assms(2) by (simp add: map_of_inject_set)
    ultimately show ?thesis by (simp add: encodeExtras_def extras_at_def)
  qed
  then show ?thesis using decode_encode_extras [OF assms] map_of_sorted_extras [OF assms(2)] by blast
qed

theorem extras_roundtrip_witness:
  "\<exists>out. decodeExtras (encodeExtras [(''b.d'', ''y''), (''a.d'', [])]) = Some out \<and> map_of out ''a.d'' = Some []"
proof -
  let ?ex = "[(''b.d'', ''y''), (''a.d'', [])]"
  have "extras_fit ?ex" "distinct (map fst ?ex)" by (simp_all add: extras_fit_def)
  from extras_roundtrip [OF this] obtain out where "decodeExtras (encodeExtras ?ex) = Some out" "map_of out = map_of ?ex" by blast
  moreover from this(2) have "map_of out ''a.d'' = Some []" by simp
  ultimately show ?thesis by blast
qed

text \<open>
  C27.  Eviction brings the store under its size limit, takes the entries in order of age, and takes no
  more than needed: the youngest entry it removed would not have fitted.
\<close>

theorem evict_bounds_store:
  assumes "fs_ok fs" "ds_dir d = abs_path cs" "good_comps cs" "scanEntries fl fs d = Inr (es, tot)"
    and "\<forall>p. \<not> fl_fail fl OpRemove p" "lru_order srt" "0 \<le> ds_maxSize d"
    and "evict fl srt fs d = (fs', err)"
  shows "err = None \<and> (\<exists>gone kept kept'.
           mset es = mset (gone @ kept) \<and> scanEntries fl fs' d = Inr (kept', total_size kept') \<and> mset kept' = mset kept \<and>
           total_size kept' \<le> ds_maxSize d \<and> (\<forall>g \<in> set gone. \<forall>k \<in> set kept. ei_modTime g \<le> ei_modTime k) \<and>
           (gone \<noteq> [] \<longrightarrow> total_size kept' + ei_size (last gone) > ds_maxSize d))"
  using assms by (rule evict_spec)

text \<open>A store limited to two bytes that holds two entries of two bytes each.\<close>

definition full_fs :: FS where
  "full_fs = \<lparr> fs_files = [([''c'', ''6b'', ''6b'', ''o''], (''xy'', 5)), ([''c'', ''6c'', ''6c'', ''o''], (''zw'', 3))],
     fs_dirs = [[''c''], [''c'', ''6b''], [''c'', ''6b'', ''6b''], [''c'', ''6c''], [''c'', ''6c'', ''6c'']] \<rparr>"

definition by_age :: "entryInfo list \<Rightarrow> entryInfo list" where "by_age es = sort_key ei_modTime es"

lemma by_age_order: "lru_order by_age"
proof -
  have "sorted_wrt (\<lambda>a b. ei_modTime a \<le> ei_modTime b) (sort_key ei_modTime es)" for es :: "entryInfo list"
    using sorted_sort_key [of ei_modTime es] by (simp only: sorted_map)
  then show ?thesis by (simp add: lru_order_def by_age_def)
qed

theorem evict_bounds_store_witness:
  "\<exists>kept. scanEntries noFaults (fst (evict noFaults by_age full_fs (demo_store\<lparr> ds_maxSize := 2 \<rparr>))) (demo_store\<lparr> ds_maxSize := 2 \<rparr>) =
     Inr (kept, total_size kept) \<and> total_size kept \<le> 2"
proof -
  let ?d = "demo_store\<lparr> ds_maxSize := 2 \<rparr>"
  have d: "ds_dir ?d = abs_path [''c'']" "good_comps [''c'']" by (simp_all add: demo_store_def good_comp_def)
  have ok: "fs_ok full_fs" by (simp add: fs_ok_def full_fs_def is_dir_def good_comp_def)
  obtain es tot where sc: "scanEntries noFaults full_fs ?d = Inr (es, tot)"
  proof (cases "ReadDir noFaults full_fs (ds_dir ?d)")
    case (Inl e)
    have "fpath (ds_dir ?d) = [''c'']" using fpath_abs [OF d(2)] d(1) by simp
    then have False using Inl
      by (auto simp: ReadDir_def Let_def through_file_def is_file_def is_dir_def full_fs_def split: if_splits)
    then show ?thesis ..
  next
    case (Inr shards)
    then show ?thesis using that by (simp add: scanEntries_def Let_def)
  qed
  obtain fs' err where ev: "evict noFaults by_age full_fs ?d = (fs', err)" by fastforce
  show ?thesis using evict_bounds_store [OF ok d sc _ by_age_order _ ev] ev by auto
qed


text \<open>One entry of the compile cache, written at time 90.\<close>

definition ns_fs :: FS where
  "ns_fs = \<lparr> fs_files = [([''c'', ''compile'', ''t'', ''6b'', ''6b'', ''o''], (''xy'', 90))],
     fs_dirs = [[''c''], [''c'', ''compile''], [''c'', ''compile'', ''t''], [''c'', ''compile'', ''t'', ''6b''],
                [''c'', ''compile'', ''t'', ''6b'', ''6b'']] \<rparr>"


end
