(* ===== verification/Runtime_Pool.thy ===== *)
theory Runtime_Pool
  imports Go_Prelude "HOL-Library.AList" "HOL-Library.Multiset"
begin

text \<open>
  \<^verbatim>\<open>internal/worker/runtime/pool.go\<close>: the pool of reference-counted containers.  Entries are shared by
  pointer, so the pool holds lists of pointers into a heap of entries.  Go does not specify the order
  in which the map of lists is iterated; it is the order of an association list that may be permuted
  at any time.  The clock is an argument that a critical section reads once, a container is named by a number, and the containers an
  operation stops are returned with its result.  The operations take the lock for one critical
  section each, so an interleaving of concurrent callers is a sequence of these sections: \<^verbatim>\<open>Start\<close> has
  two, with the start of the new container between them.
\<close>

record ContainerSpec =
  cs_ID :: string
  cs_TenantID :: string
  cs_ImageDigest :: string
  cs_VCPUs :: int
  cs_MemoryBytes :: int

record pooledEntry =
  pe_container :: nat
  pe_createdAt :: int
  pe_refs :: int
  pe_maxRefs :: int
  pe_lastFreeT :: int

record PooledRuntime =
  pr_idleTTL :: int
  pr_maxLifetime :: int
  pr_maxEntries :: int
  pr_entries :: "(string \<times> nat list) list"
  pr_total :: int
  pr_closed :: bool
  pr_heap :: "nat \<Rightarrow> pooledEntry"
  pr_next :: nat

definition NewPooledRuntime :: "int \<Rightarrow> int \<Rightarrow> int \<Rightarrow> PooledRuntime" where
  "NewPooledRuntime idleTTL maxLifetime maxEntries =
     \<lparr> pr_idleTTL = idleTTL, pr_maxLifetime = maxLifetime, pr_maxEntries = maxEntries, pr_entries = [], pr_total = 0,
       pr_closed = False, pr_heap = \<lambda>_. \<lparr> pe_container = 0, pe_createdAt = 0, pe_refs = 0, pe_maxRefs = 0, pe_lastFreeT = 0 \<rparr>,
       pr_next = 0 \<rparr>"

definition reaperInterval :: "PooledRuntime \<Rightarrow> int" where
  "reaperInterval p =
     (if pr_idleTTL p > 0 \<and> pr_maxLifetime p > 0 then
        (if pr_maxLifetime p < pr_idleTTL p then pr_maxLifetime p else pr_idleTTL p) div 2
      else if pr_idleTTL p > 0 then pr_idleTTL p div 2
      else if pr_maxLifetime p > 0 then pr_maxLifetime p div 2
      else 0)"

definition poolKey :: "ContainerSpec \<Rightarrow> string" where
  "poolKey spec = cs_TenantID spec @ ''|'' @ cs_ImageDigest spec"

definition entries_at :: "PooledRuntime \<Rightarrow> string \<Rightarrow> nat list" where
  "entries_at p key = (case map_of (pr_entries p) key of None \<Rightarrow> [] | Some l \<Rightarrow> l)"

text \<open>Store a list under a key; a key with an empty list is deleted.\<close>

definition put_list :: "string \<Rightarrow> nat list \<Rightarrow> (string \<times> nat list) list \<Rightarrow> (string \<times> nat list) list" where
  "put_list key l es = (if l = [] then AList.delete key es else AList.update key l es)"

definition over_age :: "PooledRuntime \<Rightarrow> int \<Rightarrow> pooledEntry \<Rightarrow> bool" where
  "over_age p now e \<longleftrightarrow> pr_maxLifetime p > 0 \<and> now - pe_createdAt e > pr_maxLifetime p"

definition canReapLocked :: "PooledRuntime \<Rightarrow> int \<Rightarrow> pooledEntry \<Rightarrow> bool" where
  "canReapLocked p now e =
     (if pe_refs e > 0 then False
      else if pr_idleTTL p > 0 \<and> now - pe_lastFreeT e > pr_idleTTL p then True
      else over_age p now e)"

definition entryUsableLocked :: "PooledRuntime \<Rightarrow> int \<Rightarrow> pooledEntry \<Rightarrow> bool" where
  "entryUsableLocked p now e = (if pe_refs e \<ge> pe_maxRefs e then False else \<not> over_age p now e)"

definition outstandingLocked :: "PooledRuntime \<Rightarrow> bool" where
  "outstandingLocked p = list_ex (\<lambda>(_, l). list_ex (\<lambda>i. pe_refs (pr_heap p i) > 0) l) (pr_entries p)"

definition containers :: "PooledRuntime \<Rightarrow> nat list \<Rightarrow> nat list" where
  "containers p l = map (\<lambda>i. pe_container (pr_heap p i)) l"

definition pruneStaleLocked :: "int \<Rightarrow> PooledRuntime \<Rightarrow> string \<Rightarrow> PooledRuntime \<times> nat list" where
  "pruneStaleLocked now p key =
     (let l = entries_at p key
      in if l = [] then (p, [])
         else let stale = filter (\<lambda>i. canReapLocked p now (pr_heap p i)) l;
                  kept = filter (\<lambda>i. \<not> canReapLocked p now (pr_heap p i)) l
              in (p\<lparr> pr_entries := put_list key kept (pr_entries p), pr_total := pr_total p - int (length stale) \<rparr>,
                  containers p stale))"

definition set_refs :: "nat \<Rightarrow> int \<Rightarrow> PooledRuntime \<Rightarrow> PooledRuntime" where
  "set_refs i n p = p\<lparr> pr_heap := (pr_heap p)(i := (pr_heap p i)\<lparr> pe_refs := n \<rparr>) \<rparr>"

definition removeEntryLocked :: "PooledRuntime \<Rightarrow> string \<Rightarrow> nat \<Rightarrow> PooledRuntime" where
  "removeEntryLocked p key entry =
     (let l = entries_at p key
      in if entry \<in> set l
         then p\<lparr> pr_entries := put_list key (remove1 entry l) (pr_entries p), pr_total := pr_total p - 1 \<rparr>
         else p)"

text \<open>The idle entry that has been free for longest, the first found among equals.\<close>

fun oldest_in :: "PooledRuntime \<Rightarrow> string \<Rightarrow> nat list \<Rightarrow> (string \<times> nat) option \<Rightarrow> (string \<times> nat) option" where
  "oldest_in p k [] best = best"
| "oldest_in p k (i # l) best =
     oldest_in p k l
       (if pe_refs (pr_heap p i) \<noteq> 0 then best
        else case best of
               None \<Rightarrow> Some (k, i)
             | Some (_, j) \<Rightarrow> (if pe_lastFreeT (pr_heap p i) < pe_lastFreeT (pr_heap p j) then Some (k, i) else best))"

fun oldest_free :: "PooledRuntime \<Rightarrow> (string \<times> nat list) list \<Rightarrow> (string \<times> nat) option \<Rightarrow> (string \<times> nat) option" where
  "oldest_free p [] best = best"
| "oldest_free p ((k, l) # es) best = oldest_free p es (oldest_in p k l best)"

definition evictOldestFreeLocked :: "PooledRuntime \<Rightarrow> PooledRuntime \<times> nat option" where
  "evictOldestFreeLocked p =
     (case oldest_free p (pr_entries p) None of
        None \<Rightarrow> (p, None)
      | Some (k, i) \<Rightarrow>
          (p\<lparr> pr_entries := put_list k (remove1 i (entries_at p k)) (pr_entries p), pr_total := pr_total p - 1 \<rparr>,
           Some (pe_container (pr_heap p i))))"

datatype start_result = PoolClosed | Reuse nat | Fresh

text \<open>
  The first critical section of \<^verbatim>\<open>Start\<close>: prune, reuse an entry with room, or make room for a new one.
  The list is the containers to stop.
\<close>

definition Start_lookup :: "int \<Rightarrow> PooledRuntime \<Rightarrow> ContainerSpec \<Rightarrow> PooledRuntime \<times> start_result \<times> nat list" where
  "Start_lookup now p spec =
     (if pr_closed p then (p, PoolClosed, [])
      else case pruneStaleLocked now p (poolKey spec) of
             (p1, stale) \<Rightarrow>
               (case find (\<lambda>i. entryUsableLocked p1 now (pr_heap p1 i)) (entries_at p1 (poolKey spec)) of
                  Some i \<Rightarrow> (set_refs i (pe_refs (pr_heap p1 i) + 1) p1, Reuse i, stale)
                | None \<Rightarrow>
                    (if pr_maxEntries p1 > 0 \<and> pr_total p1 \<ge> pr_maxEntries p1
                     then (case evictOldestFreeLocked p1 of
                             (p2, None) \<Rightarrow> (p2, Fresh, stale)
                           | (p2, Some c) \<Rightarrow> (p2, Fresh, stale @ [c]))
                     else (p1, Fresh, stale))))"

text \<open>The second: enter the started container, or stop it when the pool was closed meanwhile.\<close>

definition Start_insert :: "int \<Rightarrow> PooledRuntime \<Rightarrow> ContainerSpec \<Rightarrow> nat \<Rightarrow> PooledRuntime \<times> start_result \<times> nat list" where
  "Start_insert now p spec c =
     (if pr_closed p then (p, PoolClosed, [c])
      else let i = pr_next p;
               e = \<lparr> pe_container = c, pe_createdAt = now, pe_refs = 1,
                     pe_maxRefs = (if cs_VCPUs spec < 1 then 1 else cs_VCPUs spec), pe_lastFreeT = now \<rparr>
           in (p\<lparr> pr_heap := (pr_heap p)(i := e), pr_next := i + 1,
                  pr_entries := AList.update (poolKey spec) (entries_at p (poolKey spec) @ [i]) (pr_entries p),
                  pr_total := pr_total p + 1 \<rparr>, Reuse i, []))"

definition release :: "int \<Rightarrow> PooledRuntime \<Rightarrow> string \<Rightarrow> nat \<Rightarrow> PooledRuntime \<times> nat list" where
  "release now p key entry =
     (let p1 = set_refs entry (pe_refs (pr_heap p entry) - 1) p
      in if pe_refs (pr_heap p1 entry) = 0
         then let p2 = p1\<lparr> pr_heap := (pr_heap p1)(entry := (pr_heap p1 entry)\<lparr> pe_lastFreeT := now \<rparr>) \<rparr>
              in if over_age p2 now (pr_heap p2 entry)
                 then (removeEntryLocked p2 key entry, [pe_container (pr_heap p2 entry)])
                 else (p2, [])
         else (p1, []))"

definition keep_live :: "int \<Rightarrow> PooledRuntime \<Rightarrow> nat list \<Rightarrow> nat list" where
  "keep_live now p l = filter (\<lambda>i. \<not> canReapLocked p now (pr_heap p i)) l"

definition evictExpired :: "int \<Rightarrow> PooledRuntime \<Rightarrow> PooledRuntime \<times> nat list" where
  "evictExpired now p =
     (let gone = filter (\<lambda>i. canReapLocked p now (pr_heap p i)) (concat (map snd (pr_entries p)))
      in (p\<lparr> pr_entries := filter (\<lambda>(_, l). l \<noteq> []) (map (\<lambda>(k, l). (k, keep_live now p l)) (pr_entries p)),
              pr_total := pr_total p - int (length gone) \<rparr>,
          containers p gone))"

text \<open>
  \<^verbatim>\<open>Close\<close>: mark the pool closed; then, once no entry is held, take all entries out and stop them.
\<close>

definition Close_begin :: "PooledRuntime \<Rightarrow> PooledRuntime" where
  "Close_begin p = p\<lparr> pr_closed := True \<rparr>"

definition Close_drain :: "PooledRuntime \<Rightarrow> PooledRuntime \<times> nat list" where
  "Close_drain p = (p\<lparr> pr_entries := [], pr_total := 0 \<rparr>, containers p (concat (map snd (pr_entries p))))"

text \<open>The number of entries by tenant, the part of the key before the first bar.\<close>

definition key_tenant :: "string \<Rightarrow> string" where
  "key_tenant key = (case IndexByte key CHR ''|'' of Some i \<Rightarrow> take i key | None \<Rightarrow> key)"

fun count_tenants :: "(string \<times> nat list) list \<Rightarrow> (string \<times> nat) list \<Rightarrow> (string \<times> nat) list" where
  "count_tenants [] out = out"
| "count_tenants ((key, l) # es) out =
     count_tenants es (AList.update (key_tenant key)
       ((case map_of out (key_tenant key) of None \<Rightarrow> 0 | Some n \<Rightarrow> n) + length l) out)"

definition EntriesByTenant :: "PooledRuntime \<Rightarrow> (string \<times> nat) list" where
  "EntriesByTenant p = count_tenants (pr_entries p) []"

section \<open>The pool with its callers\<close>

text \<open>
  The state of the system: the pool, the wrappers that are held (one per successful \<^verbatim>\<open>Start\<close> not yet
  stopped), the callers between the two sections of \<^verbatim>\<open>Start\<close>, and the containers started and stopped so far.
\<close>

record pool_sys =
  ps_pool :: PooledRuntime
  ps_held :: "(string \<times> nat) multiset"
  ps_starting :: "ContainerSpec multiset"
  ps_started :: "nat set"
  ps_stopped :: "nat set"
  ps_tenant :: "nat \<Rightarrow> string \<times> string"

definition pool_init :: "int \<Rightarrow> int \<Rightarrow> int \<Rightarrow> pool_sys" where
  "pool_init idleTTL maxLifetime maxEntries =
     \<lparr> ps_pool = NewPooledRuntime idleTTL maxLifetime maxEntries, ps_held = {#}, ps_starting = {#}, ps_started = {}, ps_stopped = {},
       ps_tenant = \<lambda>_. ([], []) \<rparr>"

inductive pool_step :: "pool_sys \<Rightarrow> pool_sys \<Rightarrow> bool" where
  Start_refused: "Start_lookup now (ps_pool s) spec = (p, PoolClosed, gone) \<Longrightarrow>
    pool_step s (s\<lparr> ps_pool := p, ps_stopped := ps_stopped s \<union> set gone \<rparr>)"
| Start_reuse: "Start_lookup now (ps_pool s) spec = (p, Reuse i, gone) \<Longrightarrow>
    pool_step s (s\<lparr> ps_pool := p, ps_held := add_mset (poolKey spec, i) (ps_held s), ps_stopped := ps_stopped s \<union> set gone \<rparr>)"
| Start_fresh: "Start_lookup now (ps_pool s) spec = (p, Fresh, gone) \<Longrightarrow>
    pool_step s (s\<lparr> ps_pool := p, ps_starting := add_mset spec (ps_starting s), ps_stopped := ps_stopped s \<union> set gone \<rparr>)"
| Inner_fails: "spec \<in># ps_starting s \<Longrightarrow> pool_step s (s\<lparr> ps_starting := ps_starting s - {#spec#} \<rparr>)"
| Inner_closed: "spec \<in># ps_starting s \<Longrightarrow> c \<notin> ps_started s \<Longrightarrow> Start_insert now (ps_pool s) spec c = (p, PoolClosed, gone) \<Longrightarrow>
    pool_step s (s\<lparr> ps_pool := p, ps_starting := ps_starting s - {#spec#}, ps_started := insert c (ps_started s),
      ps_tenant := (ps_tenant s)(c := (cs_TenantID spec, cs_ImageDigest spec)), ps_stopped := ps_stopped s \<union> set gone \<rparr>)"
| Inner_started: "spec \<in># ps_starting s \<Longrightarrow> c \<notin> ps_started s \<Longrightarrow> Start_insert now (ps_pool s) spec c = (p, Reuse i, gone) \<Longrightarrow>
    pool_step s (s\<lparr> ps_pool := p, ps_starting := ps_starting s - {#spec#}, ps_held := add_mset (poolKey spec, i) (ps_held s),
      ps_started := insert c (ps_started s), ps_tenant := (ps_tenant s)(c := (cs_TenantID spec, cs_ImageDigest spec)),
      ps_stopped := ps_stopped s \<union> set gone \<rparr>)"
| Release: "(k, i) \<in># ps_held s \<Longrightarrow> release now (ps_pool s) k i = (p, gone) \<Longrightarrow>
    pool_step s (s\<lparr> ps_pool := p, ps_held := ps_held s - {#(k, i)#}, ps_stopped := ps_stopped s \<union> set gone \<rparr>)"
| Reap: "evictExpired now (ps_pool s) = (p, gone) \<Longrightarrow>
    pool_step s (s\<lparr> ps_pool := p, ps_stopped := ps_stopped s \<union> set gone \<rparr>)"
| Closing: "pool_step s (s\<lparr> ps_pool := Close_begin (ps_pool s) \<rparr>)"
| Drain: "pr_closed (ps_pool s) \<Longrightarrow> \<not> outstandingLocked (ps_pool s) \<Longrightarrow> Close_drain (ps_pool s) = (p, gone) \<Longrightarrow>
    pool_step s (s\<lparr> ps_pool := p, ps_stopped := ps_stopped s \<union> set gone \<rparr>)"
| Iterate: "mset es = mset (pr_entries (ps_pool s)) \<Longrightarrow>
    pool_step s (s\<lparr> ps_pool := (ps_pool s)\<lparr> pr_entries := es \<rparr> \<rparr>)"

inductive pool_reach :: "pool_sys \<Rightarrow> bool" where
  Init: "pool_reach (pool_init a b c)"
| Step: "pool_reach s \<Longrightarrow> pool_step s s' \<Longrightarrow> pool_reach s'"

inductive_cases pool_stepE: "pool_step s s'"

section \<open>The pool as a multiset of keyed entries\<close>

definition pairs :: "(string \<times> nat list) list \<Rightarrow> (string \<times> nat) multiset" where
  "pairs es = mset (concat (map (\<lambda>(k, l). map (Pair k) l) es))"

lemma pairs_simps [simp]:
  "pairs [] = {#}" "pairs ((k, l) # es) = image_mset (Pair k) (mset l) + pairs es"
  by (simp_all add: pairs_def)

definition list_at :: "(string \<times> nat list) list \<Rightarrow> string \<Rightarrow> nat list" where
  "list_at es key = (case map_of es key of None \<Rightarrow> [] | Some l \<Rightarrow> l)"

lemma entries_at_list: "entries_at p key = list_at (pr_entries p) key"
  by (simp add: entries_at_def list_at_def)

lemma pairs_absent: "key \<notin> fst ` set es \<Longrightarrow> {#x \<in># pairs es. fst x \<noteq> key#} = pairs es"
  by (induction es) (auto simp: filter_mset_image_mset)

lemma pairs_delete: "distinct (map fst es) \<Longrightarrow> pairs (AList.delete key es) = {#x \<in># pairs es. fst x \<noteq> key#}"
  by (induction es) (auto simp: filter_mset_image_mset pairs_absent AList.delete_eq)

lemma pairs_split:
  "distinct (map fst es) \<Longrightarrow> pairs es = {#x \<in># pairs es. fst x \<noteq> key#} + image_mset (Pair key) (mset (list_at es key))"
proof (induction es)
  case (Cons e es)
  obtain k l where e: "e = (k, l)" by (cases e)
  show ?case
  proof (cases "k = key")
    case True
    then have "{#x \<in># pairs es. fst x \<noteq> key#} = pairs es" using Cons.prems e by (intro pairs_absent) auto
    then show ?thesis using True e by (simp add: list_at_def filter_mset_image_mset)
  next
    case False
    then show ?thesis using Cons e by (simp add: list_at_def filter_mset_image_mset)
  qed
qed (simp add: list_at_def)

lemma pairs_update:
  "distinct (map fst es) \<Longrightarrow> pairs (AList.update key l es) = {#x \<in># pairs es. fst x \<noteq> key#} + image_mset (Pair key) (mset l)"
  by (induction es) (auto simp: filter_mset_image_mset pairs_absent)

lemma pairs_put_list:
  "distinct (map fst es) \<Longrightarrow> pairs (put_list key l es) = {#x \<in># pairs es. fst x \<noteq> key#} + image_mset (Pair key) (mset l)"
  by (simp add: put_list_def pairs_update pairs_delete)

lemma keys_put_list: "distinct (map fst es) \<Longrightarrow> distinct (map fst (put_list key l es))"
  by (simp add: put_list_def distinct_update distinct_delete)

lemma keys_filter: "distinct (map fst es) \<Longrightarrow> distinct (map fst (filter P (map (\<lambda>(k, l). (k, f l)) es)))"
  by (induction es) (auto simp: image_iff)

lemma in_pairs: "distinct (map fst es) \<Longrightarrow> (key, i) \<in># pairs es \<longleftrightarrow> i \<in> set (list_at es key)"
  by (subst pairs_split [of es key]) auto

lemma pairs_put_filter:
  assumes "distinct (map fst es)"
  shows "pairs (put_list key (filter Q (list_at es key)) es) = {#x \<in># pairs es. fst x \<noteq> key \<or> Q (snd x)#}"
proof -
  have "{#x \<in># pairs es. fst x \<noteq> key \<or> Q (snd x)#} =
        {#x \<in># {#x \<in># pairs es. fst x \<noteq> key#} + image_mset (Pair key) (mset (list_at es key)). fst x \<noteq> key \<or> Q (snd x)#}"
    by (rule arg_cong [OF pairs_split [OF assms]])
  also have "\<dots> = {#x \<in># pairs es. fst x \<noteq> key#} + image_mset (Pair key) (mset (filter Q (list_at es key)))"
    by (simp add: filter_mset_image_mset filter_filter_mset conj_disj_distribL cong: conj_cong)
  finally show ?thesis using pairs_put_list [OF assms] by simp
qed

lemma pairs_at:
  assumes "distinct (map fst es)"
  shows "{#x \<in># pairs es. fst x = key \<and> Q (snd x)#} = image_mset (Pair key) (mset (filter Q (list_at es key)))"
proof -
  have "{#x \<in># pairs es. fst x = key \<and> Q (snd x)#} =
        {#x \<in># {#x \<in># pairs es. fst x \<noteq> key#} + image_mset (Pair key) (mset (list_at es key)). fst x = key \<and> Q (snd x)#}"
    by (rule arg_cong [OF pairs_split [OF assms]])
  also have "\<dots> = image_mset (Pair key) (mset (filter Q (list_at es key)))"
    by (simp add: filter_mset_image_mset filter_filter_mset)
  finally show ?thesis .
qed

lemma pairs_filter:
  "pairs (filter (\<lambda>(_, l). l \<noteq> []) (map (\<lambda>(k, l). (k, filter Q l)) es)) = {#x \<in># pairs es. Q (snd x)#}"
  by (induction es) (auto simp: filter_mset_image_mset filter_empty_conv)

lemma pairs_snd: "mset (filter Q (concat (map snd es))) = image_mset snd {#x \<in># pairs es. Q (snd x)#}"
  by (induction es) (auto simp: filter_mset_image_mset image_mset.compositionality comp_def)

lemma pairs_sum: "pairs es = sum_mset (image_mset (\<lambda>(k, l). image_mset (Pair k) (mset l)) (mset es))"
  by (induction es) auto

lemma in_pairs_ex: "(k, i) \<in># pairs es \<longleftrightarrow> (\<exists>l. (k, l) \<in> set es \<and> i \<in> set l)"
  by (induction es) auto

lemma pairs_put_remove:
  assumes "distinct (map fst es)" "i \<in> set (list_at es key)"
  shows "pairs (put_list key (remove1 i (list_at es key)) es) = pairs es - {#(key, i)#}"
proof -
  have "pairs es - {#(key, i)#} = {#x \<in># pairs es. fst x \<noteq> key#} + (image_mset (Pair key) (mset (list_at es key)) - {#(key, i)#})"
    using assms(2) by (subst pairs_split [OF assms(1), of key]) (rule diff_union_single_conv, simp)
  also have "image_mset (Pair key) (mset (list_at es key)) - {#(key, i)#} = image_mset (Pair key) (mset (remove1 i (list_at es key)))"
    using image_mset_Diff [of "{#i#}" "mset (list_at es key)" "Pair key"] assms(2) by simp
  finally show ?thesis using pairs_put_list [OF assms(1)] by simp
qed

section \<open>The invariant\<close>

text \<open>
  Entries are pairwise different and counted; every held wrapper points to an entry whose reference
  count is the number of wrappers that hold it; the containers of the entries are those started and not
  yet stopped; and an entry sits under the key of the tenant and the image its container was started for.
\<close>

definition cont :: "PooledRuntime \<Rightarrow> string \<times> nat \<Rightarrow> nat" where
  "cont p x = pe_container (pr_heap p (snd x))"

definition pool_ok :: "PooledRuntime \<Rightarrow> (string \<times> nat) multiset \<Rightarrow> nat set \<Rightarrow> nat set \<Rightarrow> (nat \<Rightarrow> string \<times> string) \<Rightarrow> bool" where
  "pool_ok p held started stopped tenant \<longleftrightarrow>
     distinct (map fst (pr_entries p)) \<and>
     inj_on snd (set_mset (pairs (pr_entries p))) \<and> (\<forall>x. count (pairs (pr_entries p)) x \<le> 1) \<and>
     (\<forall>x \<in># pairs (pr_entries p). snd x < pr_next p) \<and>
     pr_total p = int (size (pairs (pr_entries p))) \<and>
     set_mset held \<subseteq> set_mset (pairs (pr_entries p)) \<and>
     (\<forall>x \<in># pairs (pr_entries p). pe_refs (pr_heap p (snd x)) = int (count held x) \<and>
        pe_refs (pr_heap p (snd x)) \<le> pe_maxRefs (pr_heap p (snd x))) \<and>
     inj_on (cont p) (set_mset (pairs (pr_entries p))) \<and>
     cont p ` set_mset (pairs (pr_entries p)) = started - stopped \<and> stopped \<subseteq> started \<and>
     (\<forall>x \<in># pairs (pr_entries p). fst x = fst (tenant (cont p x)) @ ''|'' @ snd (tenant (cont p x)))"

definition pool_inv :: "pool_sys \<Rightarrow> bool" where
  "pool_inv s \<longleftrightarrow> pool_ok (ps_pool s) (ps_held s) (ps_started s) (ps_stopped s) (ps_tenant s)"

lemma pool_okD:
  assumes "pool_ok p H S T ten"
  shows "distinct (map fst (pr_entries p))" "inj_on snd (set_mset (pairs (pr_entries p)))"
    "count (pairs (pr_entries p)) x \<le> 1" "x \<in># pairs (pr_entries p) \<Longrightarrow> snd x < pr_next p"
    "pr_total p = int (size (pairs (pr_entries p)))" "x \<in># H \<Longrightarrow> x \<in># pairs (pr_entries p)"
    "x \<in># pairs (pr_entries p) \<Longrightarrow> pe_refs (pr_heap p (snd x)) = int (count H x)"
    "x \<in># pairs (pr_entries p) \<Longrightarrow> pe_refs (pr_heap p (snd x)) \<le> pe_maxRefs (pr_heap p (snd x))"
    "inj_on (cont p) (set_mset (pairs (pr_entries p)))"
    "cont p ` set_mset (pairs (pr_entries p)) = S - T" "T \<subseteq> S"
    "x \<in># pairs (pr_entries p) \<Longrightarrow> fst x = fst (ten (cont p x)) @ ''|'' @ snd (ten (cont p x))"
  using assms unfolding pool_ok_def by blast+

lemma pool_okI:
  assumes "distinct (map fst (pr_entries p))" "inj_on snd (set_mset (pairs (pr_entries p)))"
    "\<And>x. count (pairs (pr_entries p)) x \<le> 1" "\<And>x. x \<in># pairs (pr_entries p) \<Longrightarrow> snd x < pr_next p"
    "pr_total p = int (size (pairs (pr_entries p)))" "\<And>x. x \<in># H \<Longrightarrow> x \<in># pairs (pr_entries p)"
    "\<And>x. x \<in># pairs (pr_entries p) \<Longrightarrow> pe_refs (pr_heap p (snd x)) = int (count H x)"
    "\<And>x. x \<in># pairs (pr_entries p) \<Longrightarrow> pe_refs (pr_heap p (snd x)) \<le> pe_maxRefs (pr_heap p (snd x))"
    "inj_on (cont p) (set_mset (pairs (pr_entries p)))"
    "cont p ` set_mset (pairs (pr_entries p)) = S - T" "T \<subseteq> S"
    "\<And>x. x \<in># pairs (pr_entries p) \<Longrightarrow> fst x = fst (ten (cont p x)) @ ''|'' @ snd (ten (cont p x))"
  shows "pool_ok p H S T ten"
  using assms unfolding pool_ok_def by blast

text \<open>Entries without holders leave the pool and their containers are stopped.\<close>

definition drops :: "(string \<times> nat \<Rightarrow> bool) \<Rightarrow> PooledRuntime \<Rightarrow> PooledRuntime \<Rightarrow> nat list \<Rightarrow> bool" where
  "drops P p p' gone \<longleftrightarrow>
     distinct (map fst (pr_entries p')) \<and>
     pairs (pr_entries p') = filter_mset P (pairs (pr_entries p)) \<and>
     mset gone = image_mset (cont p) (filter_mset (\<lambda>x. \<not> P x) (pairs (pr_entries p))) \<and>
     pr_total p' = pr_total p - int (length gone) \<and>
     (\<forall>x \<in># pairs (pr_entries p). \<not> P x \<longrightarrow> pe_refs (pr_heap p (snd x)) \<le> 0) \<and>
     pr_heap p' = pr_heap p \<and> pr_next p' = pr_next p"

lemma dropsD:
  assumes "drops P p p' gone"
  shows "distinct (map fst (pr_entries p'))" "pairs (pr_entries p') = filter_mset P (pairs (pr_entries p))"
    "mset gone = image_mset (cont p) (filter_mset (\<lambda>x. \<not> P x) (pairs (pr_entries p)))"
    "pr_total p' = pr_total p - int (length gone)"
    "x \<in># pairs (pr_entries p) \<Longrightarrow> \<not> P x \<Longrightarrow> pe_refs (pr_heap p (snd x)) \<le> 0"
    "pr_heap p' = pr_heap p" "pr_next p' = pr_next p"
  using assms unfolding drops_def by blast+

lemma drops_ok:
  assumes ok: "pool_ok p H S T ten" and d: "drops P p p' gone"
  shows "pool_ok p' H S (T \<union> set gone) ten"
proof -
  let ?M = "pairs (pr_entries p)"
  have c: "cont p' = cont p" using dropsD(6) [OF d] by (simp add: cont_def fun_eq_iff)
  have set_gone: "set gone = cont p ` {x \<in> set_mset ?M. \<not> P x}"
    using arg_cong [OF dropsD(3) [OF d], of set_mset] by simp
  have sz: "size ?M = size (filter_mset P ?M) + length gone"
  proof -
    have "size (filter_mset P ?M) + size (filter_mset (\<lambda>x. \<not> P x) ?M) = size ?M"
      by (simp only: size_union [symmetric] multiset_partition [symmetric])
    then show ?thesis using arg_cong [OF dropsD(3) [OF d], of size] by simp
  qed
  have held: "P x" if "x \<in># H" for x
  proof (rule ccontr)
    assume "\<not> P x"
    with pool_okD(6) [OF ok that] have "pe_refs (pr_heap p (snd x)) \<le> 0" by (rule dropsD(5) [OF d])
    then have "count H x = 0" using pool_okD(7) [OF ok pool_okD(6) [OF ok that]] by simp
    then show False using that by (simp add: count_eq_zero_iff)
  qed
  have sub: "inj_on f (set_mset (filter_mset P ?M))" if "inj_on f (set_mset ?M)" for f :: "string \<times> nat \<Rightarrow> nat"
    using that by (rule inj_on_subset) auto
  have "cont p ` {x \<in> set_mset ?M. P x} = cont p ` (set_mset ?M - {x \<in> set_mset ?M. \<not> P x})"
    by (rule arg_cong [of _ _ "image (cont p)"]) auto
  also have "\<dots> = cont p ` set_mset ?M - cont p ` {x \<in> set_mset ?M. \<not> P x}"
    by (rule inj_on_image_set_diff [OF pool_okD(9) [OF ok]]) auto
  finally have live: "cont p ` {x \<in> set_mset ?M. P x} = S - (T \<union> set gone)"
    unfolding pool_okD(10) [OF ok] set_gone by blast
  have "cont p ` {x \<in> set_mset ?M. \<not> P x} \<subseteq> cont p ` set_mset ?M" by blast
  then have gone: "set gone \<subseteq> S" unfolding set_gone pool_okD(10) [OF ok] by blast
  show ?thesis
  proof (rule pool_okI, goal_cases)
    case 1 show ?case by (rule dropsD(1) [OF d])
  next
    case 2 show ?case using sub [OF pool_okD(2) [OF ok]] by (simp add: dropsD(2) [OF d])
  next
    case (3 x) show ?case using pool_okD(3) [OF ok, of x] by (simp add: dropsD(2) [OF d])
  next
    case (4 x) then show ?case using pool_okD(4) [OF ok, of x] by (simp add: dropsD(2,7) [OF d])
  next
    case 5 show ?case using pool_okD(5) [OF ok] sz by (simp add: dropsD(2,4) [OF d])
  next
    case (6 x) then show ?case using pool_okD(6) [OF ok, of x] held by (simp add: dropsD(2) [OF d])
  next
    case (7 x) then show ?case using pool_okD(7) [OF ok, of x] by (simp add: dropsD(2,6) [OF d])
  next
    case (8 x) then show ?case using pool_okD(8) [OF ok, of x] by (simp add: dropsD(2,6) [OF d])
  next
    case 9 show ?case using sub [OF pool_okD(9) [OF ok]] by (simp add: dropsD(2) [OF d] c)
  next
    case 10 show ?case using live by (simp add: dropsD(2) [OF d] c)
  next
    case 11 show ?case using pool_okD(11) [OF ok] gone by simp
  next
    case (12 x) then show ?case using pool_okD(12) [OF ok, of x] by (simp add: dropsD(2) [OF d] c)
  qed
qed

lemma canReap_refs: "canReapLocked p now e \<Longrightarrow> pe_refs e \<le> 0"
  by (simp add: canReapLocked_def split: if_splits)

lemma pruneStaleLocked_drops:
  assumes dist: "distinct (map fst (pr_entries p))" and run: "pruneStaleLocked now p key = (p', gone)"
  shows "drops (\<lambda>x. fst x \<noteq> key \<or> \<not> canReapLocked p now (pr_heap p (snd x))) p p' gone"
proof -
  let ?Q = "\<lambda>i. canReapLocked p now (pr_heap p i)"
  let ?l = "list_at (pr_entries p) key"
  have at: "{#x \<in># pairs (pr_entries p). fst x = key \<and> ?Q (snd x)#} = image_mset (Pair key) (mset (filter ?Q ?l))"
    by (rule pairs_at [OF dist])
  have keep: "pairs (put_list key (filter (\<lambda>i. \<not> ?Q i) ?l) (pr_entries p)) =
      {#x \<in># pairs (pr_entries p). fst x \<noteq> key \<or> \<not> ?Q (snd x)#}"
    by (rule pairs_put_filter [OF dist])
  show ?thesis
  proof (cases "?l = []")
    case True
    then have none: "\<not> (fst x = key \<and> ?Q (snd x))" if "x \<in># pairs (pr_entries p)" for x
      using in_pairs [OF dist, of key "snd x"] that by auto
    have "{#x \<in># pairs (pr_entries p). fst x \<noteq> key \<or> \<not> ?Q (snd x)#} = pairs (pr_entries p)"
      using none by (simp add: filter_mset_eq_conv)
    moreover have "p' = p" "gone = []" using run True by (simp_all add: pruneStaleLocked_def entries_at_list)
    ultimately show ?thesis using dist at True canReap_refs by (auto simp: drops_def)
  next
    case False
    then have p': "p' = p\<lparr> pr_entries := put_list key (filter (\<lambda>i. \<not> ?Q i) ?l) (pr_entries p),
          pr_total := pr_total p - int (length (filter ?Q ?l)) \<rparr>" and gone: "gone = containers p (filter ?Q ?l)"
      using run by (simp_all add: pruneStaleLocked_def entries_at_list Let_def)
    have "mset gone = image_mset (cont p) (image_mset (Pair key) (mset (filter ?Q ?l)))"
      by (simp add: gone containers_def cont_def image_mset.compositionality comp_def)
    then show ?thesis
      using keep keys_put_list [OF dist] at canReap_refs by (auto simp: drops_def p' gone containers_def)
  qed
qed

lemma oldest_in_found:
  "oldest_in p k l best = Some (k', i) \<Longrightarrow> best = Some (k', i) \<or> k' = k \<and> i \<in> set l \<and> pe_refs (pr_heap p i) = 0"
proof (induction l arbitrary: best)
  case (Cons j l)
  define b where "b = (if pe_refs (pr_heap p j) \<noteq> 0 then best
        else case best of
               None \<Rightarrow> Some (k, j)
             | Some (_, j') \<Rightarrow> (if pe_lastFreeT (pr_heap p j) < pe_lastFreeT (pr_heap p j') then Some (k, j) else best))"
  have "b = best \<or> b = Some (k, j) \<and> pe_refs (pr_heap p j) = 0" by (auto simp: b_def split: option.splits)
  moreover have "oldest_in p k l b = Some (k', i)" using Cons.prems by (simp add: b_def)
  ultimately show ?case using Cons.IH [of b] by auto
qed simp

lemma oldest_free_found:
  "oldest_free p es best = Some (k, i) \<Longrightarrow>
   best = Some (k, i) \<or> (\<exists>l. (k, l) \<in> set es \<and> i \<in> set l) \<and> pe_refs (pr_heap p i) = 0"
proof (induction es arbitrary: best)
  case (Cons e es)
  obtain k' l' where e: "e = (k', l')" by (cases e)
  show ?case using Cons.IH [of "oldest_in p k' l' best"] Cons.prems oldest_in_found [of p k' l' best k i] by (auto simp: e)
qed simp

lemma remove_drops:
  assumes dist: "distinct (map fst (pr_entries p))" and once: "count (pairs (pr_entries p)) (k, i) \<le> 1"
    and inn: "(k, i) \<in># pairs (pr_entries p)" and refs: "pe_refs (pr_heap p i) \<le> 0"
  shows "drops (\<lambda>x. x \<noteq> (k, i)) p
     (p\<lparr> pr_entries := put_list k (remove1 i (entries_at p k)) (pr_entries p), pr_total := pr_total p - 1 \<rparr>)
     [pe_container (pr_heap p i)]"
proof -
  let ?M = "pairs (pr_entries p)"
  have one: "count ?M (k, i) = 1" using once inn by (simp add: le_antisym Suc_le_eq)
  have "pairs (put_list k (remove1 i (list_at (pr_entries p) k)) (pr_entries p)) = ?M - {#(k, i)#}"
    using inn by (intro pairs_put_remove dist) (simp add: in_pairs [OF dist])
  also have "\<dots> = {#x \<in># ?M. x \<noteq> (k, i)#}" using one by (auto intro!: multiset_eqI)
  finally have "pairs (put_list k (remove1 i (list_at (pr_entries p) k)) (pr_entries p)) = {#x \<in># ?M. x \<noteq> (k, i)#}" .
  moreover have "{#x \<in># ?M. \<not> x \<noteq> (k, i)#} = {#(k, i)#}" using one by (auto intro!: multiset_eqI)
  ultimately show ?thesis using refs keys_put_list [OF dist] by (auto simp: drops_def entries_at_list cont_def)
qed

lemma evictOldestFreeLocked_drops:
  assumes ok: "pool_ok p H S T ten" and run: "evictOldestFreeLocked p = (p', Some c)"
  shows "\<exists>P. drops P p p' [c]"
proof -
  obtain k i where old: "oldest_free p (pr_entries p) None = Some (k, i)" using run by (auto simp: evictOldestFreeLocked_def split: option.splits)
  then have "(k, i) \<in># pairs (pr_entries p)" "pe_refs (pr_heap p i) \<le> 0"
    using oldest_free_found [OF old] by (auto simp: in_pairs_ex)
  from remove_drops [OF pool_okD(1) [OF ok] pool_okD(3) [OF ok] this] show ?thesis
    using run old by (auto simp: evictOldestFreeLocked_def)
qed

lemma evictExpired_drops:
  assumes dist: "distinct (map fst (pr_entries p))" and run: "evictExpired now p = (p', gone)"
  shows "drops (\<lambda>x. \<not> canReapLocked p now (pr_heap p (snd x))) p p' gone"
proof -
  let ?Q = "\<lambda>i. canReapLocked p now (pr_heap p i)"
  have ents: "pr_entries p' = filter (\<lambda>(_, l). l \<noteq> []) (map (\<lambda>(k, l). (k, filter (\<lambda>i. \<not> ?Q i) l)) (pr_entries p))"
    and gone: "gone = map (\<lambda>i. pe_container (pr_heap p i)) (filter ?Q (concat (map snd (pr_entries p))))"
    and rest: "pr_total p' = pr_total p - int (length gone)" "pr_heap p' = pr_heap p" "pr_next p' = pr_next p"
    using run by (auto simp: evictExpired_def Let_def keep_live_def containers_def)
  have "distinct (map fst (pr_entries p'))"
    unfolding ents by (rule keys_filter [OF dist])
  moreover have "mset gone = image_mset (cont p) {#x \<in># pairs (pr_entries p). ?Q (snd x)#}"
    unfolding gone mset_map pairs_snd by (simp add: image_mset.compositionality comp_def cont_def [abs_def])
  ultimately show ?thesis using rest canReap_refs pairs_filter [of "\<lambda>i. \<not> ?Q i" "pr_entries p"]
    unfolding drops_def ents by auto
qed

lemma Close_drain_drops:
  assumes "Close_drain p = (p', gone)" "\<not> outstandingLocked p" "pr_total p = int (size (pairs (pr_entries p)))"
  shows "drops (\<lambda>x. False) p p' gone"
proof -
  have len: "size (pairs (pr_entries p)) = length (concat (map snd (pr_entries p)))"
    using arg_cong [OF pairs_snd [of "\<lambda>_. True" "pr_entries p"], of size] by simp
  have "mset gone = image_mset (cont p) (pairs (pr_entries p))"
    using assms(1) pairs_snd [of "\<lambda>_. True" "pr_entries p"]
    by (auto simp: Close_drain_def containers_def image_mset.compositionality comp_def cont_def [abs_def])
  moreover have "pe_refs (pr_heap p (snd x)) \<le> 0" if "x \<in># pairs (pr_entries p)" for x
    using that assms(2) in_pairs_ex [of "fst x" "snd x" "pr_entries p"]
    by (force simp: outstandingLocked_def list_ex_iff not_less)
  ultimately show ?thesis using assms(1,3) len by (auto simp: drops_def Close_drain_def containers_def)
qed

text \<open>The holders of one entry change.\<close>

lemma pool_ok_id:
  assumes "pool_ok p H S T ten" "(k, i) \<in># pairs (pr_entries p)" "x \<in># pairs (pr_entries p)"
  shows "snd x = i \<longleftrightarrow> x = (k, i)"
  using inj_onD [OF pool_okD(2) [OF assms(1)], of x "(k, i)"] assms(2,3) by auto

lemma update_ok:
  assumes ok: "pool_ok p H S T ten" and inn: "(k, i) \<in># pairs (pr_entries p)"
    and same: "\<And>x. x \<noteq> (k, i) \<Longrightarrow> count H' x = count H x"
    and e: "pe_container e = pe_container (pr_heap p i)" "pe_maxRefs e = pe_maxRefs (pr_heap p i)"
      "pe_refs e = int (count H' (k, i))" "pe_refs e \<le> pe_maxRefs e"
  shows "pool_ok (p\<lparr> pr_heap := (pr_heap p)(i := e) \<rparr>) H' S T ten"
proof -
  let ?p = "p\<lparr> pr_heap := (pr_heap p)(i := e) \<rparr>"
  have c: "cont ?p = cont p" using e(1) by (simp add: cont_def fun_eq_iff)
  show ?thesis
  proof (rule pool_okI, goal_cases)
    case (6 x)
    then show ?case
    proof (cases "x = (k, i)")
      case False
      then have "x \<in># H" using 6 same [OF False] by (simp add: count_greater_zero_iff [symmetric] del: count_greater_zero_iff)
      then show ?thesis using pool_okD(6) [OF ok] by simp
    qed (simp add: inn)
  next
    case (7 x)
    then show ?case using pool_ok_id [OF ok inn, of x] pool_okD(7) [OF ok, of x] e(3) same [of x] by auto
  next
    case (8 x)
    then show ?case using pool_ok_id [OF ok inn, of x] pool_okD(8) [OF ok, of x] e(4) by auto
  qed (simp_all only: c, simp_all add: pool_okD [OF ok] pool_okD(3) [OF ok, unfolded One_nat_def])
qed

lemma notin_image: "(\<And>x. x \<in> A \<Longrightarrow> f x \<noteq> y) \<Longrightarrow> y \<notin> f ` A"
  by auto

lemma insert_ok:
  assumes ok: "pool_ok p H S T ten" and new: "c \<notin> S" and k: "k = t @ ''|'' @ d"
    and e: "pe_container e = c" "pe_refs e = 1" "1 \<le> pe_maxRefs e"
  shows "pool_ok (p\<lparr> pr_heap := (pr_heap p)(pr_next p := e), pr_next := pr_next p + 1,
      pr_entries := AList.update k (entries_at p k @ [pr_next p]) (pr_entries p), pr_total := pr_total p + 1 \<rparr>)
    (add_mset (k, pr_next p) H) (insert c S) T (ten(c := (t, d)))"
    (is "pool_ok ?p ?H ?S T ?ten")
proof -
  let ?M = "pairs (pr_entries p)" and ?x = "(k, pr_next p)"
  have dist: "distinct (map fst (pr_entries p))" by (rule pool_okD(1) [OF ok])
  have M: "pairs (pr_entries ?p) = add_mset ?x ?M"
    using pairs_update [OF dist, of k "list_at (pr_entries p) k @ [pr_next p]"] pairs_split [OF dist, of k]
    by (simp add: entries_at_list)
  have old: "snd x \<noteq> pr_next p" if "x \<in># ?M" for x using pool_okD(4) [OF ok that] by simp
  have notin: "?x \<notin># ?M" using old [of ?x] by auto
  then have notheld: "?x \<notin># H" using pool_okD(6) [OF ok] by blast
  have c_old: "cont ?p x = cont p x" "pr_heap ?p (snd x) = pr_heap p (snd x)" if "x \<in># ?M" for x
    using old [OF that] by (simp_all add: cont_def)
  have c_in: "cont p x \<in> S - T" if "x \<in># ?M" for x using pool_okD(10) [OF ok] that by blast
  then have c_new: "cont p x \<noteq> c" if "x \<in># ?M" for x using new that by blast
  have c_x: "cont ?p ?x = c" by (simp add: cont_def e)
  show ?thesis
  proof (rule pool_okI, goal_cases)
    case 1 show ?case using dist by (simp add: distinct_update)
  next
    case 2
    have "pr_next p \<notin> snd ` set_mset ?M" by (rule notin_image) (rule old)
    then show ?case using pool_okD(2) [OF ok] notin unfolding M by simp
  next
    case (3 x) show ?case using pool_okD(3) [OF ok, of x] notin unfolding M by (auto simp: not_in_iff)
  next
    case (4 x) then show ?case using pool_okD(4) [OF ok, of x] unfolding M by (auto simp: less_Suc_eq)
  next
    case 5 show ?case using pool_okD(5) [OF ok] unfolding M by simp
  next
    case (6 x) then show ?case using pool_okD(6) [OF ok, of x] unfolding M by auto
  next
    case (7 x)
    show ?case
    proof (cases "x = ?x")
      case True
      then show ?thesis using e(2) notheld by (simp add: not_in_iff)
    next
      case False
      then have "x \<in># ?M" using 7 unfolding M by simp
      then show ?thesis using pool_okD(7) [OF ok, of x] c_old(2) [of x] False by simp
    qed
  next
    case (8 x)
    then show ?case using pool_okD(8) [OF ok, of x] c_old(2) [of x] e unfolding M by auto
  next
    case 9
    have "inj_on (cont ?p) (set_mset ?M)" using pool_okD(9) [OF ok] c_old(1) by (simp add: inj_on_def)
    moreover have "cont ?p ?x \<notin> cont ?p ` set_mset ?M" unfolding c_x by (rule notin_image) (simp only: c_old(1) c_new not_False_eq_True)
    ultimately show ?case using notin unfolding M by simp
  next
    case 10
    have "cont ?p ` set_mset ?M = S - T" using pool_okD(10) [OF ok] c_old(1) by simp
    then have "cont ?p ` set_mset (add_mset ?x ?M) = insert c (S - T)" using c_x by simp
    also have "\<dots> = insert c S - T" using new pool_okD(11) [OF ok] by blast
    finally show ?case unfolding M .
  next
    case 11 show ?case using pool_okD(11) [OF ok] by blast
  next
    case (12 x)
    show ?case
    proof (cases "x = ?x")
      case True
      then show ?thesis using c_x k by simp
    next
      case False
      then have "x \<in># ?M" using 12 unfolding M by simp
      then show ?thesis using pool_okD(12) [OF ok, of x] c_old(1) [of x] c_new [of x] by simp
    qed
  qed
qed

lemma unused_ok:
  assumes ok: "pool_ok p H S T ten" and new: "c \<notin> S"
  shows "pool_ok p H (insert c S) (T \<union> {c}) (ten(c := td))"
proof (rule pool_okI, goal_cases)
  case 10 show ?case using pool_okD(10) [OF ok] new by blast
next
  case (12 x)
  then have "cont p x \<noteq> c" using pool_okD(10) [OF ok] new by blast
  then show ?case using pool_okD(12) [OF ok 12] by simp
qed (use pool_okD [OF ok] in blast)+

section \<open>Every step keeps the invariant\<close>

lemma prune_ok:
  assumes "pool_ok p H S T ten" "pruneStaleLocked now p key = (p', gone)"
  shows "pool_ok p' H S (T \<union> set gone) ten"
  using drops_ok [OF assms(1) pruneStaleLocked_drops [OF pool_okD(1) [OF assms(1)] assms(2)]] .

lemma prune_config: "pruneStaleLocked now p key = (p', gone) \<Longrightarrow> pr_maxEntries p' = pr_maxEntries p \<and> pr_closed p' = pr_closed p"
  by (auto simp: pruneStaleLocked_def Let_def split: if_splits)

lemma find_at:
  assumes "find Q (entries_at p key) = Some i" "distinct (map fst (pr_entries p))"
  shows "(key, i) \<in># pairs (pr_entries p) \<and> Q i"
  using assms by (auto simp: find_Some_iff in_pairs entries_at_list)

lemma reuse_ok:
  assumes ok: "pool_ok p H S T ten" and run: "Start_lookup now p spec = (p', Reuse i, gone)"
  shows "pool_ok p' (add_mset (poolKey spec, i) H) S (T \<union> set gone) ten"
proof -
  obtain p1 where pr: "pruneStaleLocked now p (poolKey spec) = (p1, gone)"
    and fd: "find (\<lambda>i. entryUsableLocked p1 now (pr_heap p1 i)) (entries_at p1 (poolKey spec)) = Some i"
    and p': "p' = set_refs i (pe_refs (pr_heap p1 i) + 1) p1"
    using run by (auto simp: Start_lookup_def split: if_splits prod.splits option.splits)
  note ok1 = prune_ok [OF ok pr]
  have inn: "(poolKey spec, i) \<in># pairs (pr_entries p1)" and use: "entryUsableLocked p1 now (pr_heap p1 i)"
    using find_at [OF fd pool_okD(1) [OF ok1]] by simp_all
  have "pe_refs (pr_heap p1 i) = int (count H (poolKey spec, i))" using pool_okD(7) [OF ok1 inn] by simp
  moreover have "pe_refs (pr_heap p1 i) < pe_maxRefs (pr_heap p1 i)" using use by (simp add: entryUsableLocked_def split: if_splits)
  ultimately show ?thesis unfolding p' set_refs_def by (intro update_ok [OF ok1 inn]) simp_all
qed

lemma fresh_ok:
  assumes ok: "pool_ok p H S T ten" and run: "Start_lookup now p spec = (p', Fresh, gone)"
  shows "pool_ok p' H S (T \<union> set gone) ten"
proof -
  obtain p1 stale where pr: "pruneStaleLocked now p (poolKey spec) = (p1, stale)" by fastforce
  note ok1 = prune_ok [OF ok pr]
  consider "p' = p1" "gone = stale" | c where "evictOldestFreeLocked p1 = (p', Some c)" "gone = stale @ [c]"
    using run pr by (auto simp: Start_lookup_def evictOldestFreeLocked_def split: if_splits prod.splits option.splits)
  then show ?thesis
  proof cases
    case 2
    then show ?thesis using evictOldestFreeLocked_drops [OF ok1] drops_ok [OF ok1] by (fastforce simp: Un_assoc)
  qed (use ok1 in simp)
qed

lemma refused_same: "Start_lookup now p spec = (p', PoolClosed, gone) \<Longrightarrow> p' = p \<and> gone = []"
  by (auto simp: Start_lookup_def split: if_splits prod.splits option.splits)

lemma started_ok:
  assumes ok: "pool_ok p H S T ten" and new: "c \<notin> S" and run: "Start_insert now p spec c = (p', Reuse i, gone)"
  shows "pool_ok p' (add_mset (poolKey spec, i) H) (insert c S) (T \<union> set gone) (ten(c := (cs_TenantID spec, cs_ImageDigest spec)))"
proof -
  define e where "e = \<lparr> pe_container = c, pe_createdAt = now, pe_refs = 1,
                     pe_maxRefs = (if cs_VCPUs spec < 1 then 1 else cs_VCPUs spec), pe_lastFreeT = now \<rparr>"
  have "i = pr_next p" "gone = []" and p': "p' = p\<lparr> pr_heap := (pr_heap p)(pr_next p := e), pr_next := pr_next p + 1,
      pr_entries := AList.update (poolKey spec) (entries_at p (poolKey spec) @ [pr_next p]) (pr_entries p), pr_total := pr_total p + 1 \<rparr>"
    using run by (auto simp: Start_insert_def Let_def e_def split: if_splits)
  moreover have "pool_ok p' (add_mset (poolKey spec, pr_next p) H) (insert c S) T (ten(c := (cs_TenantID spec, cs_ImageDigest spec)))"
    unfolding p' by (rule insert_ok [OF ok new]) (simp_all add: poolKey_def e_def)
  ultimately show ?thesis by simp
qed

lemma release_ok:
  assumes ok: "pool_ok p H S T ten" and held: "(k, i) \<in># H" and run: "release now p k i = (p', gone)"
  shows "pool_ok p' (H - {#(k, i)#}) S (T \<union> set gone) ten"
proof -
  let ?H = "H - {#(k, i)#}"
  have inn: "(k, i) \<in># pairs (pr_entries p)" by (rule pool_okD(6) [OF ok held])
  have refs: "pe_refs (pr_heap p i) - 1 = int (count ?H (k, i))"
    using pool_okD(7) [OF ok inn] held by (simp add: of_nat_diff Suc_le_eq)
  have le: "pe_refs (pr_heap p i) - 1 \<le> pe_maxRefs (pr_heap p i)" using pool_okD(8) [OF ok inn] by simp
  define e where "e = (pr_heap p i)\<lparr> pe_refs := pe_refs (pr_heap p i) - 1 \<rparr>"
  define e0 where "e0 = e\<lparr> pe_lastFreeT := now \<rparr>"
  define p2 where "p2 = p\<lparr> pr_heap := (pr_heap p)(i := e0) \<rparr>"
  have upd: "pool_ok (p\<lparr> pr_heap := (pr_heap p)(i := e') \<rparr>) ?H S T ten" if "e' = e \<or> e' = e0" for e'
    by (rule update_ok [OF ok inn]) (use that refs le in \<open>auto simp: e_def e0_def\<close>)
  have "set_refs i (pe_refs (pr_heap p i) - 1) p = p\<lparr> pr_heap := (pr_heap p)(i := e) \<rparr>" by (simp add: set_refs_def e_def)
  with run consider "p' = p\<lparr> pr_heap := (pr_heap p)(i := e) \<rparr>" "gone = []" | "p' = p2" "gone = []"
    | "pe_refs e = 0" "p' = removeEntryLocked p2 k i" "gone = [pe_container (pr_heap p2 i)]"
    by (auto simp: release_def Let_def p2_def e0_def split: if_splits)
  then show ?thesis
  proof cases
    case 3
    have ok2: "pool_ok p2 ?H S T ten" unfolding p2_def by (rule upd) simp
    have inn2: "(k, i) \<in># pairs (pr_entries p2)" using inn by (simp add: p2_def)
    then have "i \<in> set (entries_at p2 k)" by (simp add: in_pairs [OF pool_okD(1) [OF ok2]] entries_at_list)
    then have "p' = p2\<lparr> pr_entries := put_list k (remove1 i (entries_at p2 k)) (pr_entries p2), pr_total := pr_total p2 - 1 \<rparr>"
      using 3(2) by (simp add: removeEntryLocked_def Let_def)
    moreover have "pe_refs (pr_heap p2 i) \<le> 0" using 3(1) by (simp add: p2_def e0_def)
    ultimately show ?thesis
      using drops_ok [OF ok2 remove_drops [OF pool_okD(1) [OF ok2] pool_okD(3) [OF ok2] inn2]] 3(3) by simp
  qed (use upd in \<open>simp_all add: p2_def\<close>)
qed

lemma iterate_ok:
  assumes ok: "pool_ok p H S T ten" and es: "mset es = mset (pr_entries p)"
  shows "pool_ok (p\<lparr> pr_entries := es \<rparr>) H S T ten"
proof -
  have same: "pairs es = pairs (pr_entries p)" unfolding pairs_sum es ..
  have "distinct (map fst es) = distinct (map fst (pr_entries p))"
    using es by (intro mset_eq_imp_distinct_iff) simp
  then have "drops (\<lambda>_. True) p (p\<lparr> pr_entries := es \<rparr>) []"
    using pool_okD(1) [OF ok] same by (simp add: drops_def)
  from drops_ok [OF ok this] show ?thesis by simp
qed

lemma pool_step_inv:
  assumes "pool_inv s" "pool_step s s'"
  shows "pool_inv s'"
proof -
  have ok: "pool_ok (ps_pool s) (ps_held s) (ps_started s) (ps_stopped s) (ps_tenant s)"
    using assms(1) by (simp add: pool_inv_def)
  show ?thesis
    using assms(2)
  proof cases
    case (Reap now p gone)
    from drops_ok [OF ok evictExpired_drops [OF pool_okD(1) [OF ok] Reap(2)]] show ?thesis using Reap(1) by (simp add: pool_inv_def)
  next
    case (Drain p gone)
    from drops_ok [OF ok Close_drain_drops [OF Drain(4,3) pool_okD(5) [OF ok]]] show ?thesis using Drain(1) by (simp add: pool_inv_def)
  next
    case Closing
    have "pool_ok (Close_begin p) H S T ten = pool_ok p H S T ten" for p H S T ten
      by (simp add: pool_ok_def Close_begin_def cont_def [abs_def])
    then show ?thesis using ok Closing by (simp add: pool_inv_def)
  next
    case (Inner_closed spec c now p gone)
    then have "p = ps_pool s" "gone = [c]" by (auto simp: Start_insert_def Let_def split: if_splits)
    then show ?thesis using unused_ok [OF ok Inner_closed(3)] Inner_closed(1) by (simp add: pool_inv_def)
  next
    case (Start_refused now spec p gone)
    then show ?thesis using ok refused_same [OF Start_refused(2)] by (simp add: pool_inv_def)
  next
    case (Start_reuse now spec p i gone)
    then show ?thesis using reuse_ok [OF ok Start_reuse(2)] by (simp add: pool_inv_def)
  next
    case (Start_fresh now spec p gone)
    then show ?thesis using fresh_ok [OF ok Start_fresh(2)] by (simp add: pool_inv_def)
  next
    case (Inner_fails spec)
    then show ?thesis using ok by (simp add: pool_inv_def)
  next
    case (Inner_started spec c now p i gone)
    then show ?thesis using started_ok [OF ok Inner_started(3,4)] by (simp add: pool_inv_def)
  next
    case (Release k i now p gone)
    then show ?thesis using release_ok [OF ok Release(2,3)] by (simp add: pool_inv_def)
  next
    case (Iterate es)
    then show ?thesis using iterate_ok [OF ok Iterate(2)] by (simp add: pool_inv_def)
  qed
qed

lemma pool_reach_inv: "pool_reach s \<Longrightarrow> pool_inv s"
proof (induction rule: pool_reach.induct)
  case (Init a b c)
  show ?case by (simp add: pool_inv_def pool_ok_def pool_init_def NewPooledRuntime_def)
next
  case (Step s s')
  show ?case by (rule pool_step_inv [OF Step.IH Step.hyps(2)])
qed

end
