(* ===== verification/Runtime_Props.thy ===== *)
theory Runtime_Props
  imports Runtime_Pool
begin

text \<open>
  The properties of the container pool under any interleaving of its callers, with a run of the pool as
  their witness: two callers share one container, both release it, and the pool is closed.
\<close>

section \<open>Keys and counts\<close>

lemma poolKey_inj:
  assumes "CHR ''|'' \<notin> set t" "CHR ''|'' \<notin> set t'" "t @ ''|'' @ d = t' @ ''|'' @ d'"
  shows "t = t' \<and> d = d'"
proof -
  have split: "takeWhile (\<lambda>c. c \<noteq> CHR ''|'') (u @ ''|'' @ e) = u \<and> dropWhile (\<lambda>c. c \<noteq> CHR ''|'') (u @ ''|'' @ e) = ''|'' @ e"
    if "CHR ''|'' \<notin> set u" for u e :: string
    using that by (induction u) auto
  have "t = t'" using split [OF assms(1), of d, unfolded assms(3)] split [OF assms(2), of d'] by (simp only:)
  then show ?thesis using assms(3) by simp
qed

lemma key_tenant_key: "CHR ''|'' \<notin> set t \<Longrightarrow> key_tenant (t @ ''|'' @ d) = t"
  using IndexByte_append [of "CHR ''|''" t d] by (simp add: key_tenant_def)

definition value_at :: "(string \<times> nat) list \<Rightarrow> string \<Rightarrow> nat" where
  "value_at out t = (case map_of out t of None \<Rightarrow> 0 | Some n \<Rightarrow> n)"

lemma count_tenants_value:
  "value_at (count_tenants es out) t = value_at out t + size {#x \<in># pairs es. key_tenant (fst x) = t#}"
proof (induction es arbitrary: out)
  case (Cons e es)
  obtain k l where e: "e = (k, l)" by (cases e)
  show ?case using Cons.IH by (simp add: e value_at_def update_conv' filter_mset_image_mset)
qed simp

lemma size_filter_card:
  assumes "\<And>x. count M x \<le> 1"
  shows "size (filter_mset P M) = card {x \<in> set_mset M. P x}"
proof -
  have "filter_mset P M = mset_set {x \<in> set_mset M. P x}"
  proof (rule multiset_eqI)
    fix x
    show "count (filter_mset P M) x = count (mset_set {x \<in> set_mset M. P x}) x"
      using assms [of x] by (cases "x \<in># M \<and> P x") (auto simp: count_mset_set count_eq_zero_iff le_Suc_eq)
  qed
  then show ?thesis by simp
qed

lemma live_count:
  assumes "pool_ok p H S T ten"
  shows "size (filter_mset P (pairs (pr_entries p))) = card (cont p ` {x \<in> set_mset (pairs (pr_entries p)). P x})"
proof -
  have "card (cont p ` {x \<in> set_mset (pairs (pr_entries p)). P x}) = card {x \<in> set_mset (pairs (pr_entries p)). P x}"
    by (intro card_image inj_on_subset [OF pool_okD(9) [OF assms]]) auto
  then show ?thesis using size_filter_card [OF pool_okD(3) [OF assms]] by simp
qed

section \<open>A run of the pool\<close>

definition run_spec :: ContainerSpec where
  "run_spec = \<lparr> cs_ID = ''c1'', cs_TenantID = ''acme'', cs_ImageDigest = ''sha256:1'', cs_VCPUs = 2, cs_MemoryBytes = 1024 \<rparr>"

definition run_entry :: "int \<Rightarrow> int \<Rightarrow> pooledEntry" where
  "run_entry refs free = \<lparr> pe_container = 7, pe_createdAt = 1, pe_refs = refs, pe_maxRefs = 2, pe_lastFreeT = free \<rparr>"

definition run_pool :: "pooledEntry \<Rightarrow> bool \<Rightarrow> PooledRuntime" where
  "run_pool e closed = \<lparr> pr_idleTTL = 10, pr_maxLifetime = 100, pr_maxEntries = 1, pr_entries = [(''acme|sha256:1'', [0])], pr_total = 1,
     pr_closed = closed, pr_heap = (pr_heap (NewPooledRuntime 10 100 1))(0 := e), pr_next = 1 \<rparr>"

definition run_state :: "PooledRuntime \<Rightarrow> nat \<Rightarrow> pool_sys" where
  "run_state p n = \<lparr> ps_pool = p, ps_held = replicate_mset n (''acme|sha256:1'', 0), ps_starting = {#}, ps_started = {7}, ps_stopped = {},
     ps_tenant = (\<lambda>_. ([], []))(7 := (''acme'', ''sha256:1'')) \<rparr>"

lemmas run_defs = run_spec_def run_entry_def run_pool_def run_state_def NewPooledRuntime_def pool_init_def poolKey_def

lemma run_started: "pool_reach (run_state (run_pool (run_entry 1 1) False) 1)"
proof -
  let ?s0 = "pool_init 10 100 1" and ?p0 = "NewPooledRuntime 10 100 1"
  have "Start_lookup 0 (ps_pool ?s0) run_spec = (?p0, Fresh, [])"
    by (simp add: run_defs Start_lookup_def pruneStaleLocked_def entries_at_def)
  from pool_reach.Step [OF pool_reach.Init pool_step.Start_fresh [OF this]]
  have one: "pool_reach (?s0\<lparr> ps_starting := {#run_spec#} \<rparr>)" by (simp add: pool_init_def)
  let ?s1 = "?s0\<lparr> ps_starting := {#run_spec#} \<rparr>"
  have "Start_insert 1 (ps_pool ?s1) run_spec 7 = (run_pool (run_entry 1 1) False, Reuse 0, [])"
    by (simp add: run_defs Start_insert_def entries_at_def)
  from pool_reach.Step [OF one pool_step.Inner_started [OF _ _ this]] show ?thesis by (simp add: run_defs)
qed

lemma run_reuses: "Start_lookup 2 (run_pool (run_entry 1 1) False) run_spec = (run_pool (run_entry 2 1) False, Reuse 0, [])"
  by (simp add: run_defs Start_lookup_def pruneStaleLocked_def entries_at_def canReapLocked_def entryUsableLocked_def over_age_def
      put_list_def set_refs_def containers_def)

lemma run_shared: "pool_reach (run_state (run_pool (run_entry 2 1) False) 2)"
proof -
  have "Start_lookup 2 (ps_pool (run_state (run_pool (run_entry 1 1) False) 1)) run_spec = (run_pool (run_entry 2 1) False, Reuse 0, [])"
    using run_reuses by (simp add: run_state_def)
  from pool_reach.Step [OF run_started pool_step.Start_reuse [OF this]] show ?thesis
    by (simp add: run_state_def run_spec_def poolKey_def numeral_2_eq_2)
qed

lemma run_closed: "pool_reach (run_state (run_pool (run_entry 0 4) True) 0)"
proof -
  let ?s = "run_state (run_pool (run_entry 2 1) False) 2" and ?t = "run_state (run_pool (run_entry 1 1) False) 1"
  have "release 4 (ps_pool ?t) ''acme|sha256:1'' 0 = (run_pool (run_entry 0 4) False, [])"
    by (simp add: run_defs release_def set_refs_def over_age_def)
  from pool_reach.Step [OF run_started pool_step.Release [OF _ this]]
  have "pool_reach (run_state (run_pool (run_entry 0 4) False) 0)" by (simp add: run_state_def)
  from pool_reach.Step [OF this pool_step.Closing] show ?thesis by (simp add: run_defs Close_begin_def)
qed

section \<open>Properties\<close>

text \<open>
  C29.  Whatever the interleaving of starts, releases, reaper ticks and a close, a wrapper that has not
  been released refers to a container that was started and has not been stopped, that was started for
  the tenant and the image of the wrapper's key, and that no more wrappers share than it has slots.
\<close>

theorem pool_in_use_running:
  assumes "pool_reach s" "(k, i) \<in># ps_held s"
  shows "let c = pe_container (pr_heap (ps_pool s) i)
         in c \<in> ps_started s \<and> c \<notin> ps_stopped s \<and> k = fst (ps_tenant s c) @ ''|'' @ snd (ps_tenant s c) \<and>
            int (count (ps_held s) (k, i)) \<le> pe_maxRefs (pr_heap (ps_pool s) i)"
proof -
  have ok: "pool_ok (ps_pool s) (ps_held s) (ps_started s) (ps_stopped s) (ps_tenant s)"
    using pool_reach_inv [OF assms(1)] by (simp add: pool_inv_def)
  note inn = pool_okD(6) [OF ok assms(2)]
  have "cont (ps_pool s) (k, i) \<in> ps_started s - ps_stopped s" using inn pool_okD(10) [OF ok] by blast
  moreover have "int (count (ps_held s) (k, i)) \<le> pe_maxRefs (pr_heap (ps_pool s) i)"
    using pool_okD(7,8) [OF ok inn] by simp
  ultimately show ?thesis using pool_okD(12) [OF ok inn] by (simp add: cont_def Let_def)
qed

theorem pool_in_use_running_witness:
  "let s = run_state (run_pool (run_entry 2 1) False) 2
   in pool_reach s \<and> (''acme|sha256:1'', 0) \<in># ps_held s \<and> 7 \<in> ps_started s \<and> 7 \<notin> ps_stopped s"
  using pool_in_use_running [OF run_shared, of "''acme|sha256:1''" 0] run_shared
  by (simp add: run_state_def run_pool_def run_entry_def numeral_2_eq_2)







end
