(* ===== verification/Sched_Core.thy ===== *)
theory Sched_Core
  imports Go_Prelude "HOL-Library.AList" "HOL-Library.Word" "HOL-Library.Multiset"
begin

text \<open>
  \<^verbatim>\<open>internal/scheduler\<close>: sessions, worker registration, routing and the reaper.  The JWT library is a
  parameter: \<^verbatim>\<open>parse\<close> verifies a token under a key at a time and returns its claims, \<^verbatim>\<open>sign\<close> signs claims.
  Session tokens come from \<^verbatim>\<open>rand.Text\<close> and are arguments, as is the clock, in nanoseconds since the epoch.
  A \<^verbatim>\<open>sync.Map\<close> that is ranged over is an association list, whose order may change at any time.  Each RPC
  handler is one step.
\<close>

section \<open>Claims\<close>

datatype json = JString string | JNumber int | JArray "json list" | JStrings "string list" | JOther

type_synonym MapClaims = "(string \<times> json) list"
type_synonym jwt_Parse = "string \<Rightarrow> string \<Rightarrow> int \<Rightarrow> MapClaims option"
type_synonym jwt_Sign = "string \<Rightarrow> MapClaims \<Rightarrow> string option"

definition claim_string :: "MapClaims \<Rightarrow> string \<Rightarrow> string" where
  "claim_string claims k = (case map_of claims k of Some (JString s) \<Rightarrow> s | _ \<Rightarrow> [])"

fun audienceMatches :: "json option \<Rightarrow> string \<Rightarrow> bool" where
  "audienceMatches (Some (JString v)) want = (v = want)"
| "audienceMatches (Some (JArray l)) want = list_ex (\<lambda>a. case a of JString s \<Rightarrow> s = want | _ \<Rightarrow> False) l"
| "audienceMatches (Some (JStrings l)) want = list_ex (\<lambda>s. s = want) l"
| "audienceMatches _ want = False"

section \<open>Configuration\<close>

record Tenant =
  tn_ID :: string
  tn_Issuer :: string
  tn_JWKSURL :: string
  tn_TokenURL :: string
  tn_Audience :: string
  tn_ClientID :: string
  tn_Scope :: string

record TLSConfig =
  tls_CertFile :: string
  tls_KeyFile :: string
  tls_CertRef :: string
  tls_KeyRef :: string

record SchedConfig =
  cf_TLS :: TLSConfig
  cf_WorkerToken :: string
  cf_Tenants :: "Tenant list"
  cf_StickyTenants :: bool
  cf_WorkerTimeout :: string

datatype cfg_err =
    CertRequired | CertExclusive | KeyRequired | KeyExclusive | TokenRequired | TokenShort | NoTenants | BadTimeout
  | TenantIDRequired nat | TenantDuplicated nat | IssuerRequired string | JWKSRequired string | TokenURLRequired string | AudienceRequired string

text \<open>The timeout, empty for none; \<^verbatim>\<open>time.ParseDuration\<close> is the parameter.\<close>

definition WorkerTimeoutDur :: "(string \<Rightarrow> int option) \<Rightarrow> SchedConfig \<Rightarrow> int option" where
  "WorkerTimeoutDur ParseDuration c = (if cf_WorkerTimeout c = [] then Some 0 else ParseDuration (cf_WorkerTimeout c))"

fun validate_tenants :: "nat \<Rightarrow> string list \<Rightarrow> Tenant list \<Rightarrow> cfg_err option" where
  "validate_tenants i seen [] = None"
| "validate_tenants i seen (t # ts) =
     (if tn_ID t = [] then Some (TenantIDRequired i)
      else if tn_ID t \<in> set seen then Some (TenantDuplicated i)
      else if tn_Issuer t = [] then Some (IssuerRequired (tn_ID t))
      else if tn_JWKSURL t = [] then Some (JWKSRequired (tn_ID t))
      else if tn_TokenURL t = [] then Some (TokenURLRequired (tn_ID t))
      else if tn_Audience t = [] then Some (AudienceRequired (tn_ID t))
      else validate_tenants (Suc i) (tn_ID t # seen) ts)"

definition Sched_Validate :: "(string \<Rightarrow> int option) \<Rightarrow> SchedConfig \<Rightarrow> cfg_err option" where
  "Sched_Validate ParseDuration c =
     (if tls_CertFile (cf_TLS c) = [] \<and> tls_CertRef (cf_TLS c) = [] then Some CertRequired
      else if tls_CertFile (cf_TLS c) \<noteq> [] \<and> tls_CertRef (cf_TLS c) \<noteq> [] then Some CertExclusive
      else if tls_KeyFile (cf_TLS c) = [] \<and> tls_KeyRef (cf_TLS c) = [] then Some KeyRequired
      else if tls_KeyFile (cf_TLS c) \<noteq> [] \<and> tls_KeyRef (cf_TLS c) \<noteq> [] then Some KeyExclusive
      else if cf_WorkerToken c = [] then Some TokenRequired
      else if length (cf_WorkerToken c) < 16 then Some TokenShort
      else if cf_Tenants c = [] then Some NoTenants
      else if WorkerTimeoutDur ParseDuration c = None then Some BadTimeout
      else validate_tenants 0 [] (cf_Tenants c))"

section \<open>State\<close>

record tenantAuth =
  ta_keyfunc :: string
  ta_issuer :: string
  ta_tokenURL :: string
  ta_audience :: string
  ta_clientID :: string
  ta_scope :: string

datatype RuntimeType = FIRECRACKER | HYPERV | DANGEROUS
datatype VMState = RUNNING | SNAPSHOTTED | BOOTING

record VMInfo =
  vm_VMID :: string
  vm_TenantID :: string
  vm_ImageDigest :: string
  vm_State :: VMState

record WorkerState =
  ws_WorkerID :: string
  ws_PublicAddr :: string
  ws_ImageDigests :: "string list"
  ws_AvailableVCPUs :: "32 word"
  ws_CurrentLoad :: "32 word"
  ws_Runtime :: RuntimeType
  ws_CertFingerprint :: bytes
  ws_ActiveVMs :: "VMInfo list"
  ws_LastHeartbeat :: int

text \<open>The value of a worker session: \<^verbatim>\<open>true\<close> after authentication, the worker's id after registration.\<close>

datatype worker_session = Authenticated | Registered string

record Scheduler =
  sc_config :: SchedConfig
  sc_tenantAuth :: "string \<rightharpoonup> tenantAuth"
  sc_workerSessions :: "string \<rightharpoonup> worker_session"
  sc_userSessions :: "string \<rightharpoonup> string"
  sc_workerStates :: "(string \<times> WorkerState) list"
  sc_signingPrivKey :: string
  sc_signingPubKey :: string

text \<open>
  \<^verbatim>\<open>NewScheduler\<close>: the key pair and the construction of a key function from a URL, which may fail, are
  parameters; a later entry of a tenant replaces an earlier one.
\<close>

fun tenant_auths :: "(string \<Rightarrow> string option) \<Rightarrow> Tenant list \<Rightarrow> (string \<rightharpoonup> tenantAuth) \<Rightarrow> (string \<rightharpoonup> tenantAuth) option" where
  "tenant_auths kf [] m = Some m"
| "tenant_auths kf (t # ts) m =
     (case kf (tn_JWKSURL t) of
        None \<Rightarrow> None
      | Some k \<Rightarrow>
          tenant_auths kf ts (m(tn_ID t \<mapsto> \<lparr> ta_keyfunc = k, ta_issuer = tn_Issuer t, ta_tokenURL = tn_TokenURL t,
            ta_audience = tn_Audience t, ta_clientID = tn_ClientID t, ta_scope = tn_Scope t \<rparr>)))"

definition NewScheduler :: "(string \<times> string) option \<Rightarrow> (string \<Rightarrow> string option) \<Rightarrow> SchedConfig \<Rightarrow> Scheduler option" where
  "NewScheduler keys kf config =
     (case keys of
        None \<Rightarrow> None
      | Some (pub, priv) \<Rightarrow>
          (case tenant_auths kf (cf_Tenants config) Map.empty of
             None \<Rightarrow> None
           | Some tenants \<Rightarrow>
               Some \<lparr> sc_config = config, sc_tenantAuth = tenants, sc_workerSessions = Map.empty, sc_userSessions = Map.empty,
                      sc_workerStates = [], sc_signingPrivKey = priv, sc_signingPubKey = pub \<rparr>))"

section \<open>Handlers\<close>

record GetTenantIdPResponse =
  ip_Issuer :: string
  ip_TokenUrl :: string
  ip_Audience :: string
  ip_ClientId :: string
  ip_Scope :: string

definition GetTenantIdP :: "Scheduler \<Rightarrow> string \<Rightarrow> GetTenantIdPResponse option" where
  "GetTenantIdP s tenantId =
     map_option (\<lambda>ta. \<lparr> ip_Issuer = ta_issuer ta, ip_TokenUrl = ta_tokenURL ta, ip_Audience = ta_audience ta,
       ip_ClientId = ta_clientID ta, ip_Scope = ta_scope ta \<rparr>) (sc_tenantAuth s tenantId)"

definition verifyTenantJWT :: "jwt_Parse \<Rightarrow> int \<Rightarrow> Scheduler \<Rightarrow> string \<Rightarrow> string \<Rightarrow> bool" where
  "verifyTenantJWT parse now s tenantID raw =
     (if tenantID = [] then False
      else case sc_tenantAuth s tenantID of
             None \<Rightarrow> False
           | Some ta \<Rightarrow>
               (case parse (ta_keyfunc ta) raw now of
                  None \<Rightarrow> False
                | Some claims \<Rightarrow>
                    (if claim_string claims ''iss'' \<noteq> ta_issuer ta then False
                     else audienceMatches (map_of claims ''aud'') (ta_audience ta))))"

datatype AuthToken = JwtToken string | StaticToken string | OtherToken

record AuthResponse =
  ar_Success :: bool
  ar_SessionToken :: string
  ar_SigningPublicKey :: "string option"

definition refused :: AuthResponse where
  "refused = \<lparr> ar_Success = False, ar_SessionToken = [], ar_SigningPublicKey = None \<rparr>"

definition Authenticate :: "jwt_Parse \<Rightarrow> int \<Rightarrow> string \<Rightarrow> Scheduler \<Rightarrow> string \<Rightarrow> AuthToken \<Rightarrow> Scheduler \<times> AuthResponse" where
  "Authenticate parse now tok s tenantId t =
     (case t of
        JwtToken raw \<Rightarrow>
          (if \<not> verifyTenantJWT parse now s tenantId raw then (s, refused)
           else (s\<lparr> sc_userSessions := (sc_userSessions s)(tok \<mapsto> tenantId) \<rparr>,
                 \<lparr> ar_Success = True, ar_SessionToken = tok, ar_SigningPublicKey = None \<rparr>))
      | StaticToken st \<Rightarrow>
          (if st \<noteq> cf_WorkerToken (sc_config s) then (s, refused)
           else (s\<lparr> sc_workerSessions := (sc_workerSessions s)(tok \<mapsto> Authenticated) \<rparr>,
                 \<lparr> ar_Success = True, ar_SessionToken = tok, ar_SigningPublicKey = Some (sc_signingPubKey s) \<rparr>))
      | OtherToken \<Rightarrow> (s, refused))"

definition coldPullPenalty :: int where
  "coldPullPenalty = 100"

definition stickyTenantBonus :: int where
  "stickyTenantBonus = 2"

text \<open>The score of a worker; loads fit a \<^verbatim>\<open>float64\<close> exactly, so the score is an integer.\<close>

definition score :: "Scheduler \<Rightarrow> string \<Rightarrow> string \<Rightarrow> WorkerState \<Rightarrow> int" where
  "score s tenantID imageDigest w =
     sint (ws_CurrentLoad w)
     + (if list_ex (\<lambda>d. d = imageDigest) (ws_ImageDigests w) then 0 else coldPullPenalty)
     - (if cf_StickyTenants (sc_config s) \<and>
           list_ex (\<lambda>vm. vm_TenantID vm = tenantID \<and> vm_ImageDigest vm = imageDigest) (ws_ActiveVMs w)
        then stickyTenantBonus else 0)"

fun best_worker :: "(WorkerState \<Rightarrow> int) \<Rightarrow> (string \<times> WorkerState) list \<Rightarrow> (string \<times> WorkerState) option \<Rightarrow> (string \<times> WorkerState) option" where
  "best_worker sc [] best = best"
| "best_worker sc ((k, w) # l) best =
     best_worker sc l
       (if sint (ws_AvailableVCPUs w) \<le> 0 then best
        else case best of
               None \<Rightarrow> Some (k, w)
             | Some (_, b) \<Rightarrow> (if sc w < sc b then Some (k, w) else best))"

definition pickWorker :: "Scheduler \<Rightarrow> string \<Rightarrow> string \<Rightarrow> (Scheduler \<times> WorkerState) option" where
  "pickWorker s tenantID imageDigest =
     (case best_worker (score s tenantID imageDigest) (sc_workerStates s) None of
        None \<Rightarrow> None
      | Some (k, w) \<Rightarrow>
          (let w' = w\<lparr> ws_CurrentLoad := ws_CurrentLoad w + 1 \<rparr>
           in Some (s\<lparr> sc_workerStates := AList.update k w' (sc_workerStates s) \<rparr>, w')))"

definition nanos :: int where
  "nanos = 1000000000"

definition taskTokenTTL :: int where
  "taskTokenTTL = 5 * 60 * nanos"

definition task_claims :: "int \<Rightarrow> string \<Rightarrow> string \<Rightarrow> string \<Rightarrow> MapClaims" where
  "task_claims now tenantID imageDigest workerID =
     [(''tenant_id'', JString tenantID), (''image_digest'', JString imageDigest), (''worker_id'', JString workerID),
      (''iat'', JNumber (now div nanos)), (''exp'', JNumber ((now + taskTokenTTL) div nanos))]"

definition signTaskToken :: "jwt_Sign \<Rightarrow> int \<Rightarrow> Scheduler \<Rightarrow> string \<Rightarrow> string \<Rightarrow> string \<Rightarrow> string option" where
  "signTaskToken sign now s tenantID imageDigest workerID = sign (sc_signingPrivKey s) (task_claims now tenantID imageDigest workerID)"

record RouteRequest =
  rq_SessionToken :: string
  rq_TenantId :: string
  rq_ImageDigest :: string

record RouteResponse =
  rr_WorkerAddress :: string
  rr_Token :: string
  rr_CertFingerprint :: bytes

datatype sched_err = Unauthenticated | NoWorker | SignFailed | IdMismatch | NotRegistered

definition Route :: "jwt_Sign \<Rightarrow> int \<Rightarrow> Scheduler \<Rightarrow> RouteRequest \<Rightarrow> Scheduler \<times> (sched_err + RouteResponse)" where
  "Route sign now s req =
     (case sc_userSessions s (rq_SessionToken req) of
        None \<Rightarrow> (s, Inl Unauthenticated)
      | Some sessTenant \<Rightarrow>
          (if sessTenant = [] \<or> sessTenant \<noteq> rq_TenantId req then (s, Inl Unauthenticated)
           else case pickWorker s (rq_TenantId req) (rq_ImageDigest req) of
                  None \<Rightarrow> (s, Inl NoWorker)
                | Some (s', worker) \<Rightarrow>
                    (case signTaskToken sign now s (rq_TenantId req) (rq_ImageDigest req) (ws_WorkerID worker) of
                       None \<Rightarrow> (s', Inl SignFailed)
                     | Some taskToken \<Rightarrow>
                         (s', Inr \<lparr> rr_WorkerAddress = ws_PublicAddr worker, rr_Token = taskToken,
                                    rr_CertFingerprint = ws_CertFingerprint worker \<rparr>))))"

record RegisterWorkerRequest =
  rw_SessionToken :: string
  rw_WorkerId :: string
  rw_PublicAddr :: string
  rw_ImageDigests :: "string list"
  rw_AvailableVcpus :: "32 word"
  rw_CurrentLoad :: "32 word"
  rw_Runtime :: RuntimeType
  rw_CertFingerprint :: bytes

definition workerStateFromRegistration :: "int \<Rightarrow> RegisterWorkerRequest \<Rightarrow> WorkerState" where
  "workerStateFromRegistration now req =
     \<lparr> ws_WorkerID = rw_WorkerId req, ws_PublicAddr = rw_PublicAddr req, ws_ImageDigests = rw_ImageDigests req,
       ws_AvailableVCPUs = rw_AvailableVcpus req, ws_CurrentLoad = rw_CurrentLoad req, ws_Runtime = rw_Runtime req,
       ws_CertFingerprint = rw_CertFingerprint req, ws_ActiveVMs = [], ws_LastHeartbeat = now \<rparr>"

definition RegisterWorker :: "int \<Rightarrow> Scheduler \<Rightarrow> RegisterWorkerRequest \<Rightarrow> Scheduler \<times> bool" where
  "RegisterWorker now s req =
     (if sc_workerSessions s (rw_SessionToken req) = None then (s, False)
      else (s\<lparr> sc_workerSessions := (sc_workerSessions s)(rw_SessionToken req \<mapsto> Registered (rw_WorkerId req)),
               sc_workerStates := AList.update (rw_WorkerId req) (workerStateFromRegistration now req) (sc_workerStates s) \<rparr>, True))"

record WorkerHeartbeat =
  hb_SessionToken :: string
  hb_WorkerId :: string
  hb_AvailableVcpus :: "32 word"
  hb_CurrentLoad :: "32 word"
  hb_ActiveVms :: "VMInfo list"

definition applyHeartbeat :: "int \<Rightarrow> WorkerState \<Rightarrow> WorkerHeartbeat \<Rightarrow> WorkerState" where
  "applyHeartbeat now w hb =
     w\<lparr> ws_AvailableVCPUs := hb_AvailableVcpus hb, ws_CurrentLoad := hb_CurrentLoad hb, ws_LastHeartbeat := now,
        ws_ActiveVMs := hb_ActiveVms hb \<rparr>"

definition Heartbeat :: "int \<Rightarrow> Scheduler \<Rightarrow> WorkerHeartbeat \<Rightarrow> Scheduler \<times> (sched_err + unit)" where
  "Heartbeat now s hb =
     (case sc_workerSessions s (hb_SessionToken hb) of
        None \<Rightarrow> (s, Inl Unauthenticated)
      | Some ses \<Rightarrow>
          (if ses \<noteq> Registered (hb_WorkerId hb) then (s, Inl IdMismatch)
           else case map_of (sc_workerStates s) (hb_WorkerId hb) of
                  None \<Rightarrow> (s, Inl NotRegistered)
                | Some w \<Rightarrow> (s\<lparr> sc_workerStates := AList.update (hb_WorkerId hb) (applyHeartbeat now w hb) (sc_workerStates s) \<rparr>, Inr ())))"

definition RegisteredWorkers :: "Scheduler \<Rightarrow> nat" where
  "RegisteredWorkers s = length (sc_workerStates s)"

text \<open>The period of the reaper; \<open>None\<close> when it is disabled.\<close>

definition StartReaper :: "(string \<Rightarrow> int option) \<Rightarrow> Scheduler \<Rightarrow> int option" where
  "StartReaper ParseDuration s =
     (case WorkerTimeoutDur ParseDuration (sc_config s) of
        None \<Rightarrow> None
      | Some timeout \<Rightarrow>
          (if timeout \<le> 0 then None else Some (if timeout div 3 < nanos then nanos else timeout div 3)))"

definition stale_ids :: "int \<Rightarrow> (string \<times> WorkerState) list \<Rightarrow> string list" where
  "stale_ids cutoff ws = map fst (filter (\<lambda>(_, w). ws_LastHeartbeat w < cutoff) ws)"

definition reapStaleWorkers :: "int \<Rightarrow> int \<Rightarrow> Scheduler \<Rightarrow> Scheduler" where
  "reapStaleWorkers now timeout s =
     (let stale = stale_ids (now - timeout) (sc_workerStates s)
      in if stale = [] then s
         else s\<lparr> sc_workerStates := fold AList.delete stale (sc_workerStates s),
                 sc_workerSessions := (\<lambda>tok. case sc_workerSessions s tok of
                     Some (Registered w) \<Rightarrow> (if w \<in> set stale then None else Some (Registered w))
                   | v \<Rightarrow> v) \<rparr>)"

section \<open>Runs\<close>

text \<open>
  The states a scheduler reaches from its first state, with the authentications that succeeded: the session
  token handed out, the tenant, the JWT and the time.  The order of the worker map may change at any step.
\<close>

type_synonym auth_event = "string \<times> string \<times> string \<times> int"

definition auth_events :: "int \<Rightarrow> string \<Rightarrow> AuthToken \<Rightarrow> AuthResponse \<Rightarrow> auth_event set" where
  "auth_events now tenant t r = (case t of JwtToken raw \<Rightarrow> (if ar_Success r then {(ar_SessionToken r, tenant, raw, now)} else {}) | _ \<Rightarrow> {})"

inductive sched_run :: "jwt_Parse \<Rightarrow> jwt_Sign \<Rightarrow> Scheduler \<Rightarrow> Scheduler \<Rightarrow> auth_event set \<Rightarrow> bool"
  for parse sign s0 where
  Begin: "sched_run parse sign s0 s0 {}"
| Auth: "sched_run parse sign s0 s E \<Longrightarrow> Authenticate parse now tok s tenant t = (s', r) \<Longrightarrow>
    sched_run parse sign s0 s' (E \<union> auth_events now tenant t r)"
| Routed: "sched_run parse sign s0 s E \<Longrightarrow> Route sign now s req = (s', r) \<Longrightarrow> sched_run parse sign s0 s' E"
| Register: "sched_run parse sign s0 s E \<Longrightarrow> RegisterWorker now s reg = (s', ok) \<Longrightarrow> sched_run parse sign s0 s' E"
| Beat: "sched_run parse sign s0 s E \<Longrightarrow> Heartbeat now s hb = (s', r') \<Longrightarrow> sched_run parse sign s0 s' E"
| Reaper: "sched_run parse sign s0 s E \<Longrightarrow> sched_run parse sign s0 (reapStaleWorkers now timeout s) E"
| Ranged: "sched_run parse sign s0 s E \<Longrightarrow> mset ws = mset (sc_workerStates s) \<Longrightarrow> sched_run parse sign s0 (s\<lparr> sc_workerStates := ws \<rparr>) E"

section \<open>The invariant\<close>

text \<open>
  The configuration and the keys never change; every user session stems from an authentication that
  verified a JWT of its tenant; a worker is kept under its own id, and a registered session names a
  worker that is kept.
\<close>

definition sched_inv :: "jwt_Parse \<Rightarrow> Scheduler \<Rightarrow> Scheduler \<Rightarrow> auth_event set \<Rightarrow> bool" where
  "sched_inv parse s0 s E \<longleftrightarrow>
     sc_config s = sc_config s0 \<and> sc_tenantAuth s = sc_tenantAuth s0 \<and>
     sc_signingPrivKey s = sc_signingPrivKey s0 \<and> sc_signingPubKey s = sc_signingPubKey s0 \<and>
     (\<forall>(tok, ten, raw, t) \<in> E. verifyTenantJWT parse t s0 ten raw) \<and>
     (\<forall>tok ten. sc_userSessions s tok = Some ten \<longrightarrow> (\<exists>raw t. (tok, ten, raw, t) \<in> E)) \<and>
     distinct (map fst (sc_workerStates s)) \<and>
     (\<forall>(k, w) \<in> set (sc_workerStates s). ws_WorkerID w = k) \<and>
     (\<forall>tok id. sc_workerSessions s tok = Some (Registered id) \<longrightarrow> id \<in> fst ` set (sc_workerStates s))"

lemma verifyTenantJWT_cong: "sc_tenantAuth s = sc_tenantAuth s' \<Longrightarrow> verifyTenantJWT parse now s = verifyTenantJWT parse now s'"
  by (simp add: verifyTenantJWT_def fun_eq_iff)

lemma best_worker_from:
  "best_worker sc l best = Some (k, w) \<Longrightarrow> best = Some (k, w) \<or> (k, w) \<in> set l \<and> sint (ws_AvailableVCPUs w) > 0"
proof (induction l arbitrary: best)
  case (Cons a l)
  obtain k' w' where a: "a = (k', w')" by (cases a)
  define b where "b = (if sint (ws_AvailableVCPUs w') \<le> 0 then best
        else case best of None \<Rightarrow> Some (k', w') | Some (_, b) \<Rightarrow> (if sc w' < sc b then Some (k', w') else best))"
  have "b = best \<or> b = Some (k', w') \<and> sint (ws_AvailableVCPUs w') > 0" by (auto simp: b_def split: option.splits)
  moreover have "best_worker sc l b = Some (k, w)" using Cons.prems by (simp add: a b_def)
  ultimately show ?case using Cons.IH [of b] a by auto
qed simp

text \<open>The scan keeps a worker at most as expensive as any it has seen with capacity.\<close>

lemma best_worker_None: "best_worker sc l best = None \<longleftrightarrow> best = None \<and> (\<forall>(k, w) \<in> set l. sint (ws_AvailableVCPUs w) \<le> 0)"
  by (induction l arbitrary: best) (auto split: option.splits if_splits)

lemma best_worker_least:
  "best_worker sc l best = Some (k, w) \<Longrightarrow>
   (\<forall>k' b. best = Some (k', b) \<longrightarrow> sc w \<le> sc b) \<and> (\<forall>(k', v) \<in> set l. sint (ws_AvailableVCPUs v) > 0 \<longrightarrow> sc w \<le> sc v)"
proof (induction l arbitrary: best)
  case (Cons a l)
  obtain k' w' where a: "a = (k', w')" by (cases a)
  define b where "b = (if sint (ws_AvailableVCPUs w') \<le> 0 then best
        else case best of None \<Rightarrow> Some (k', w') | Some (_, b) \<Rightarrow> (if sc w' < sc b then Some (k', w') else best))"
  have run: "best_worker sc l b = Some (k, w)" using Cons.prems by (simp add: a b_def)
  have IH: "\<forall>k' v. b = Some (k', v) \<longrightarrow> sc w \<le> sc v" "\<forall>(k', v) \<in> set l. sint (ws_AvailableVCPUs v) > 0 \<longrightarrow> sc w \<le> sc v"
    using Cons.IH [OF run] by auto
  have "sc w \<le> sc v" if "best = Some (j, v)" for j v
    using IH(1) that by (auto simp: b_def split: if_splits)
  moreover have "sc w \<le> sc w'" if "sint (ws_AvailableVCPUs w') > 0"
    using IH(1) that by (auto simp: b_def split: if_splits option.splits)
  ultimately show ?case using IH(2) a by auto
qed simp

lemma pickWorker_Some:
  assumes "pickWorker s ten dig = Some (s', w')" "distinct (map fst (sc_workerStates s))"
  obtains k w where "map_of (sc_workerStates s) k = Some w" "sint (ws_AvailableVCPUs w) > 0"
    "w' = w\<lparr> ws_CurrentLoad := ws_CurrentLoad w + 1 \<rparr>"
    "s' = s\<lparr> sc_workerStates := AList.update k w' (sc_workerStates s) \<rparr>"
    "\<forall>(k', v) \<in> set (sc_workerStates s). sint (ws_AvailableVCPUs v) > 0 \<longrightarrow> score s ten dig w \<le> score s ten dig v"
proof -
  obtain k w where b: "best_worker (score s ten dig) (sc_workerStates s) None = Some (k, w)"
    and w': "w' = w\<lparr> ws_CurrentLoad := ws_CurrentLoad w + 1 \<rparr>" "s' = s\<lparr> sc_workerStates := AList.update k w' (sc_workerStates s) \<rparr>"
    using assms(1) by (auto simp: pickWorker_def Let_def split: option.splits)
  have "map_of (sc_workerStates s) k = Some w" "sint (ws_AvailableVCPUs w) > 0"
    using best_worker_from [OF b] assms(2) by simp_all
  from that [OF this w'] show thesis using best_worker_least [OF b] by blast
qed

text \<open>Replacing the state of one worker.\<close>

lemma update_inv:
  assumes "sched_inv parse s0 s E" "ws_WorkerID w = k"
  shows "sched_inv parse s0 (s\<lparr> sc_workerStates := AList.update k w (sc_workerStates s) \<rparr>) E"
proof -
  have "set (AList.update k w l) \<subseteq> insert (k, w) (set l)" for l :: "(string \<times> WorkerState) list"
    by (induction l) auto
  then have "\<forall>(k', v) \<in> set (AList.update k w (sc_workerStates s)). ws_WorkerID v = k'"
    using assms unfolding sched_inv_def by fastforce
  moreover have "fst ` set (AList.update k w l) = insert k (fst ` set l)" for l :: "(string \<times> WorkerState) list"
    by (simp add: dom_update)
  ultimately show ?thesis using assms(1) by (auto simp: sched_inv_def distinct_update)
qed

lemma reap_states:
  "distinct (map fst (sc_workerStates s)) \<Longrightarrow>
   sc_workerStates (reapStaleWorkers now timeout s) = filter (\<lambda>(_, w). \<not> ws_LastHeartbeat w < now - timeout) (sc_workerStates s)"
  (is "distinct _ \<Longrightarrow> ?l = ?r")
proof -
  assume dist: "distinct (map fst (sc_workerStates s))"
  have del: "fold AList.delete ks ws = filter (\<lambda>(k, _). k \<notin> set ks) ws" for ks and ws :: "(string \<times> WorkerState) list"
    by (induction ks arbitrary: ws) (auto simp: AList.delete_eq intro!: filter_cong)
  let ?stale = "stale_ids (now - timeout) (sc_workerStates s)"
  have mem: "k \<in> set ?stale \<longleftrightarrow> ws_LastHeartbeat w < now - timeout" if "(k, w) \<in> set (sc_workerStates s)" for k w
  proof
    assume "k \<in> set ?stale"
    then obtain v where "(k, v) \<in> set (sc_workerStates s)" "ws_LastHeartbeat v < now - timeout" by (auto simp: stale_ids_def)
    then show "ws_LastHeartbeat w < now - timeout" using that dist by (metis eq_key_imp_eq_value)
  qed (use that in \<open>force simp: stale_ids_def\<close>)
  have "filter (\<lambda>(k, _). k \<notin> set ?stale) (sc_workerStates s) = ?r"
    by (rule filter_cong) (auto simp: mem)
  then show "?l = ?r" by (auto simp: reapStaleWorkers_def Let_def del)
qed

lemma reap_session:
  "sc_workerSessions (reapStaleWorkers now timeout s) tok =
     (case sc_workerSessions s tok of
        Some (Registered w) \<Rightarrow> (if w \<in> set (stale_ids (now - timeout) (sc_workerStates s)) then None else Some (Registered w))
      | v \<Rightarrow> v)"
  by (auto simp: reapStaleWorkers_def Let_def split: option.splits worker_session.splits)

lemma reap_same [simp]:
  "sc_config (reapStaleWorkers now timeout s) = sc_config s" "sc_tenantAuth (reapStaleWorkers now timeout s) = sc_tenantAuth s"
  "sc_userSessions (reapStaleWorkers now timeout s) = sc_userSessions s"
  "sc_signingPrivKey (reapStaleWorkers now timeout s) = sc_signingPrivKey s"
  "sc_signingPubKey (reapStaleWorkers now timeout s) = sc_signingPubKey s"
  by (simp_all add: reapStaleWorkers_def Let_def)

lemma sched_invD:
  assumes "sched_inv parse s0 s E"
  shows "sc_config s = sc_config s0" "sc_tenantAuth s = sc_tenantAuth s0" "sc_signingPrivKey s = sc_signingPrivKey s0"
    "sc_signingPubKey s = sc_signingPubKey s0" "(tok, ten, raw, t) \<in> E \<Longrightarrow> verifyTenantJWT parse t s0 ten raw"
    "sc_userSessions s tok = Some ten \<Longrightarrow> \<exists>raw t. (tok, ten, raw, t) \<in> E"
    "distinct (map fst (sc_workerStates s))" "(k, w) \<in> set (sc_workerStates s) \<Longrightarrow> ws_WorkerID w = k"
    "sc_workerSessions s tok = Some (Registered wid) \<Longrightarrow> wid \<in> fst ` set (sc_workerStates s)"
  using assms unfolding sched_inv_def by blast+

lemma Authenticate_inv:
  assumes inv: "sched_inv parse s0 s E" and run: "Authenticate parse now tok s ten t = (s', r)"
  shows "sched_inv parse s0 s' (E \<union> auth_events now ten t r)"
proof (cases t)
  case (JwtToken raw)
  show ?thesis
  proof (cases "verifyTenantJWT parse now s ten raw")
    case True
    then have "verifyTenantJWT parse now s0 ten raw" using verifyTenantJWT_cong [OF sched_invD(2) [OF inv]] by simp
    moreover have "s' = s\<lparr> sc_userSessions := (sc_userSessions s)(tok \<mapsto> ten) \<rparr>" "auth_events now ten t r = {(tok, ten, raw, now)}"
      using run JwtToken True by (auto simp: Authenticate_def auth_events_def)
    ultimately show ?thesis using inv by (simp add: sched_inv_def) blast
  next
    case False
    then have "s' = s" "auth_events now ten t r = {}" using run JwtToken by (auto simp: Authenticate_def auth_events_def refused_def)
    then show ?thesis using inv by simp
  qed
next
  case (StaticToken st)
  have [simp]: "auth_events now ten t r = {}" using StaticToken by (simp add: auth_events_def)
  from run StaticToken consider "s' = s" | "s' = s\<lparr> sc_workerSessions := (sc_workerSessions s)(tok \<mapsto> Authenticated) \<rparr>"
    by (auto simp: Authenticate_def split: if_splits)
  then show ?thesis using inv by cases (simp_all add: sched_inv_def)
next
  case OtherToken
  then show ?thesis using inv run by (simp add: Authenticate_def auth_events_def)
qed

lemma Route_inv:
  assumes inv: "sched_inv parse s0 s E" and run: "Route sign now s req = (s', r)"
  shows "sched_inv parse s0 s' E"
proof -
  have "s' = s \<or> (\<exists>w. pickWorker s (rq_TenantId req) (rq_ImageDigest req) = Some (s', w))"
    using run by (auto simp: Route_def split: option.splits if_splits)
  then show ?thesis
  proof
    assume "\<exists>w. pickWorker s (rq_TenantId req) (rq_ImageDigest req) = Some (s', w)"
    then obtain w' where pick: "pickWorker s (rq_TenantId req) (rq_ImageDigest req) = Some (s', w')" ..
    obtain k w where w: "map_of (sc_workerStates s) k = Some w" "w' = w\<lparr> ws_CurrentLoad := ws_CurrentLoad w + 1 \<rparr>"
        "s' = s\<lparr> sc_workerStates := AList.update k w' (sc_workerStates s) \<rparr>"
      using pickWorker_Some [OF pick sched_invD(7) [OF inv]] by metis
    have "ws_WorkerID w' = k" using sched_invD(8) [OF inv map_of_SomeD [OF w(1)]] w(2) by simp
    then show ?thesis unfolding w(3) by (rule update_inv [OF inv])
  qed (use inv in simp)
qed

lemma RegisterWorker_inv:
  assumes inv: "sched_inv parse s0 s E" and run: "RegisterWorker now s reg = (s', ok)"
  shows "sched_inv parse s0 s' E"
proof (cases "sc_workerSessions s (rw_SessionToken reg) = None")
  case False
  let ?u = "s\<lparr> sc_workerStates := AList.update (rw_WorkerId reg) (workerStateFromRegistration now reg) (sc_workerStates s) \<rparr>"
  have u: "sched_inv parse s0 ?u E" by (rule update_inv [OF inv]) (simp add: workerStateFromRegistration_def)
  have "rw_WorkerId reg \<in> fst ` set (sc_workerStates ?u)" by (simp add: dom_update)
  moreover have "s' = ?u\<lparr> sc_workerSessions := (sc_workerSessions s)(rw_SessionToken reg \<mapsto> Registered (rw_WorkerId reg)) \<rparr>"
    using run False by (auto simp: RegisterWorker_def)
  ultimately show ?thesis using u by (simp add: sched_inv_def)
qed (use inv run in \<open>simp add: RegisterWorker_def\<close>)

lemma Heartbeat_inv:
  assumes inv: "sched_inv parse s0 s E" and run: "Heartbeat now s hb = (s', r)"
  shows "sched_inv parse s0 s' E"
proof -
  have "s' = s \<or> (\<exists>w. map_of (sc_workerStates s) (hb_WorkerId hb) = Some w \<and>
      s' = s\<lparr> sc_workerStates := AList.update (hb_WorkerId hb) (applyHeartbeat now w hb) (sc_workerStates s) \<rparr>)"
    using run by (simp add: Heartbeat_def split: option.splits if_splits)
  then consider "s' = s" | w where "map_of (sc_workerStates s) (hb_WorkerId hb) = Some w"
      "s' = s\<lparr> sc_workerStates := AList.update (hb_WorkerId hb) (applyHeartbeat now w hb) (sc_workerStates s) \<rparr>"
    by blast
  then show ?thesis
  proof cases
    case 2
    then have "ws_WorkerID (applyHeartbeat now w hb) = hb_WorkerId hb"
      using sched_invD(8) [OF inv map_of_SomeD] by (simp add: applyHeartbeat_def)
    then show ?thesis unfolding 2(2) by (rule update_inv [OF inv])
  qed (use inv in simp)
qed

lemma reap_inv:
  assumes inv: "sched_inv parse s0 s E"
  shows "sched_inv parse s0 (reapStaleWorkers now timeout s) E"
proof -
  let ?s = "reapStaleWorkers now timeout s"
  note st = reap_states [OF sched_invD(7) [OF inv], of now timeout]
  have "wid \<in> fst ` set (sc_workerStates ?s)" if "sc_workerSessions ?s tok = Some (Registered wid)" for tok wid
  proof -
    have ses: "sc_workerSessions s tok = Some (Registered wid)" "wid \<notin> set (stale_ids (now - timeout) (sc_workerStates s))"
      using that by (auto simp: reap_session split: option.splits worker_session.splits if_splits)
    then obtain w where "(wid, w) \<in> set (sc_workerStates s)" using sched_invD(9) [OF inv ses(1)] by auto
    then show ?thesis using ses(2) unfolding st by (force simp: stale_ids_def)
  qed
  moreover have "distinct (map fst (sc_workerStates ?s))"
    using sched_invD(7) [OF inv] unfolding st by (auto simp: distinct_map intro: inj_on_subset)
  moreover have "ws_WorkerID w = k" if "(k, w) \<in> set (sc_workerStates ?s)" for k w
    using that sched_invD(8) [OF inv] unfolding st by auto
  ultimately show ?thesis using inv by (auto simp: sched_inv_def)
qed

lemma Range_inv:
  assumes inv: "sched_inv parse s0 s E" and ws: "mset ws = mset (sc_workerStates s)"
  shows "sched_inv parse s0 (s\<lparr> sc_workerStates := ws \<rparr>) E"
proof -
  have "distinct (map fst ws)" using sched_invD(7) [OF inv] ws by (metis mset_eq_imp_distinct_iff mset_map)
  moreover have "set ws = set (sc_workerStates s)" by (rule mset_eq_setD [OF ws])
  ultimately show ?thesis using inv by (simp add: sched_inv_def)
qed

lemma sched_run_inv:
  assumes "sched_run parse sign s0 s E" "sc_workerStates s0 = []" "sc_userSessions s0 = Map.empty" "sc_workerSessions s0 = Map.empty"
  shows "sched_inv parse s0 s E"
  using assms(1)
proof (induction rule: sched_run.induct)
  case Begin
  show ?case using assms(2-4) by (simp add: sched_inv_def)
qed (blast intro: Authenticate_inv Route_inv RegisterWorker_inv Heartbeat_inv reap_inv Range_inv)+

text \<open>What a granted route rests on.\<close>

lemma Route_granted:
  assumes inv: "sched_inv parse s0 s E" and route: "Route sign now s req = (s', Inr resp)"
  obtains raw t w where "(rq_SessionToken req, rq_TenantId req, raw, t) \<in> E" "verifyTenantJWT parse t s0 (rq_TenantId req) raw"
    "map_of (sc_workerStates s) (ws_WorkerID w) = Some w" "sint (ws_AvailableVCPUs w) > 0"
    "rr_WorkerAddress resp = ws_PublicAddr w" "rr_CertFingerprint resp = ws_CertFingerprint w"
    "sign (sc_signingPrivKey s0) (task_claims now (rq_TenantId req) (rq_ImageDigest req) (ws_WorkerID w)) = Some (rr_Token resp)"
proof -
  obtain w' where ses: "sc_userSessions s (rq_SessionToken req) = Some (rq_TenantId req)"
    and pick: "pickWorker s (rq_TenantId req) (rq_ImageDigest req) = Some (s', w')"
    and sig: "sign (sc_signingPrivKey s) (task_claims now (rq_TenantId req) (rq_ImageDigest req) (ws_WorkerID w')) = Some (rr_Token resp)"
    and ans: "rr_WorkerAddress resp = ws_PublicAddr w'" "rr_CertFingerprint resp = ws_CertFingerprint w'"
    using route by (auto simp: Route_def signTaskToken_def split: option.splits if_splits)
  obtain k w where w: "map_of (sc_workerStates s) k = Some w" "sint (ws_AvailableVCPUs w) > 0" "w' = w\<lparr> ws_CurrentLoad := ws_CurrentLoad w + 1 \<rparr>"
    using pickWorker_Some [OF pick sched_invD(7) [OF inv]] by metis
  have k: "ws_WorkerID w = k" by (rule sched_invD(8) [OF inv map_of_SomeD [OF w(1)]])
  obtain raw t where ev: "(rq_SessionToken req, rq_TenantId req, raw, t) \<in> E" using sched_invD(6) [OF inv ses] by blast
  from that [OF ev sched_invD(5) [OF inv ev], of w] show thesis
    using w k sig ans sched_invD(3) [OF inv] by simp
qed

end
