(* ===== verification/Worker_CAS.thy ===== *)
theory Worker_CAS
  imports Cache_Store Compiler_Manifest Sched_Core
begin

text \<open>
  The content-addressed source transfer of the worker: the check of the scheduler's token
  (\<^verbatim>\<open>internal/worker/worker.go\<close>), the manifest check and the two blob streams (\<^verbatim>\<open>cas.go\<close>), and the staging of
  the sources (\<^verbatim>\<open>staging.go\<close>).  A stream is the list of what \<^verbatim>\<open>Recv\<close> returns, each message with the time it is
  handled; its end is the end of the stream.  BLAKE3 is the parameter \<open>h\<close>, the JWT library the parameter
  \<open>parse\<close>, and the source store any implementation of the \<^verbatim>\<open>Store\<close> interface.
\<close>

section \<open>Scheduler tokens\<close>

record Worker =
  wk_workerID :: string
  wk_schedulerPubKey :: string

definition parseSchedulerToken :: "jwt_Parse \<Rightarrow> int \<Rightarrow> Worker \<Rightarrow> string \<Rightarrow> string \<Rightarrow> MapClaims option" where
  "parseSchedulerToken parse now w rawToken tenantID =
     (case parse (wk_schedulerPubKey w) rawToken now of
        None \<Rightarrow> None
      | Some claims \<Rightarrow>
          (if map_of claims ''tenant_id'' \<noteq> Some (JString tenantID) then None
           else if map_of claims ''worker_id'' \<noteq> Some (JString (wk_workerID w)) then None
           else Some claims))"

definition validateSchedulerToken :: "jwt_Parse \<Rightarrow> int \<Rightarrow> Worker \<Rightarrow> string \<Rightarrow> string \<Rightarrow> string \<Rightarrow> bool" where
  "validateSchedulerToken parse now w rawToken tenantID imageDigest =
     (case parseSchedulerToken parse now w rawToken tenantID of
        None \<Rightarrow> False
      | Some claims \<Rightarrow> map_of claims ''image_digest'' = Some (JString imageDigest))"

definition validateSchedulerTokenForCAS :: "jwt_Parse \<Rightarrow> int \<Rightarrow> Worker \<Rightarrow> string \<Rightarrow> string \<Rightarrow> bool" where
  "validateSchedulerTokenForCAS parse now w rawToken tenantID = (parseSchedulerToken parse now w rawToken tenantID \<noteq> None)"

section \<open>The manifest\<close>

datatype cas_err =
    EManifestLen | EBlobLen string | EManifestMismatch | ENoSourceStore | EStream | EEmptyDigest | ENoTenant | EBadToken
  | ETenantChanged string string | EStore store_err | ENamespace store_err | EBadHeader | EDataFirst | EUnknownBody

record BlobDesc =
  bd_digest :: bytes
  bd_path :: string
  bd_size :: "64 word"

record CasDescriptor =
  cas_ManifestDigest :: bytes
  cas_Blobs :: "BlobDesc list"

fun blob_refs :: "BlobDesc list \<Rightarrow> cas_err + BlobRef list" where
  "blob_refs [] = Inr []"
| "blob_refs (b # bs) =
     (if length (bd_digest b) \<noteq> 32 then Inl (EBlobLen (bd_path b))
      else ebind (blob_refs bs) (\<lambda>rs. Inr (\<lparr> br_Path = bd_path b, br_Digest = bd_digest b, br_Size = sint (bd_size b) \<rparr> # rs)))"

text \<open>\<open>srt\<close> is \<^verbatim>\<open>sort.Slice\<close> by path, which leaves the order of equal paths open.\<close>

definition verifyManifestDigest :: "(bytes \<Rightarrow> bytes) \<Rightarrow> (BlobRef list \<Rightarrow> BlobRef list) \<Rightarrow> CasDescriptor \<Rightarrow> cas_err + bytes" where
  "verifyManifestDigest h srt cas =
     (if length (cas_ManifestDigest cas) \<noteq> 32 then Inl EManifestLen
      else ebind (blob_refs (cas_Blobs cas)) (\<lambda>blobs.
        let recomputed = AggregateManifestDigest h (srt blobs)
        in if recomputed \<noteq> cas_ManifestDigest cas then Inl EManifestMismatch else Inr recomputed))"

section \<open>Blob streams\<close>

definition blobData :: string where
  "blobData = ''data''"

definition maxSourceBlobBytes :: int where
  "maxSourceBlobBytes = 256 * 2 ^ 20"

record BlobDigest =
  dg_Digest :: bytes
  dg_Size :: "64 word"
  dg_TenantId :: string
  dg_SchedulerToken :: string

datatype 'a recv = Msg int 'a | RecvErr

text \<open>The digests sent back and the error that ends the stream; \<open>ok\<close> says whether a \<^verbatim>\<open>Send\<close> succeeds.\<close>

fun find_loop :: "('s, 'v) StoreAPI \<Rightarrow> (int \<Rightarrow> string \<Rightarrow> string \<Rightarrow> bool) \<Rightarrow> (BlobDigest \<Rightarrow> bool) \<Rightarrow> 's \<Rightarrow> 'v \<Rightarrow> string \<Rightarrow> BlobDigest recv list \<Rightarrow> BlobDigest list \<times> cas_err option" where
  "find_loop api valid ok s store streamTenant [] = ([], None)"
| "find_loop api valid ok s store streamTenant (RecvErr # msgs) = ([], Some EStream)"
| "find_loop api valid ok s store streamTenant (Msg now req # msgs) =
     (if dg_Digest req = [] then ([], Some EEmptyDigest)
      else if dg_TenantId req = [] then ([], Some ENoTenant)
      else if \<not> valid now (dg_SchedulerToken req) (dg_TenantId req) then ([], Some EBadToken)
      else if streamTenant \<noteq> [] \<and> dg_TenantId req \<noteq> streamTenant then ([], Some (ETenantChanged streamTenant (dg_TenantId req)))
      else case st_Namespace api store (dg_TenantId req) of
             Inl e \<Rightarrow> ([], Some (ENamespace e))
           | Inr v \<Rightarrow>
               (case st_Has api s v (dg_Digest req) of
                  Inl e \<Rightarrow> ([], Some (EStore e))
                | Inr True \<Rightarrow> find_loop api valid ok s store (dg_TenantId req) msgs
                | Inr False \<Rightarrow>
                    (if \<not> ok req then ([], Some EStream)
                     else case find_loop api valid ok s store (dg_TenantId req) msgs of (sent, e) \<Rightarrow> (req # sent, e))))"

definition FindMissingBlobs :: "('s, 'v) StoreAPI \<Rightarrow> jwt_Parse \<Rightarrow> Worker \<Rightarrow> (BlobDigest \<Rightarrow> bool) \<Rightarrow> 's \<Rightarrow> 'v option \<Rightarrow> BlobDigest recv list \<Rightarrow> BlobDigest list \<times> cas_err option" where
  "FindMissingBlobs api parse w ok s sourceStore msgs =
     (case sourceStore of
        None \<Rightarrow> ([], Some ENoSourceStore)
      | Some store \<Rightarrow> find_loop api (\<lambda>now. validateSchedulerTokenForCAS parse now w) ok s store [] msgs)"

datatype BlobChunk = ChunkHeader "BlobDigest option" | ChunkData bytes | ChunkOther

record blobInProgress =
  bp_header :: BlobDigest
  bp_hashed :: bytes
  bp_buf :: bytes
  bp_rejected :: bool

record UploadResult =
  ur_BlobsReceived :: "64 word"
  ur_BytesReceived :: "64 word"
  ur_RejectedDigests :: "bytes list"

definition commit :: "('s, 'v) StoreAPI \<Rightarrow> (bytes \<Rightarrow> bytes) \<Rightarrow> 's \<Rightarrow> 'v \<Rightarrow> blobInProgress option \<Rightarrow> UploadResult \<Rightarrow> 's \<times> (cas_err + UploadResult)" where
  "commit api h s store active result =
     (case active of
        None \<Rightarrow> (s, Inr result)
      | Some a \<Rightarrow>
          (if bp_rejected a then (s, Inr (result\<lparr> ur_RejectedDigests := ur_RejectedDigests result @ [dg_Digest (bp_header a)] \<rparr>))
           else let recomputed = h (bp_hashed a)
                in if recomputed \<noteq> dg_Digest (bp_header a)
                   then (s, Inr (result\<lparr> ur_RejectedDigests := ur_RejectedDigests result @ [dg_Digest (bp_header a)] \<rparr>))
                   else case st_Namespace api store (dg_TenantId (bp_header a)) of
                          Inl e \<Rightarrow> (s, Inl (ENamespace e))
                        | Inr v \<Rightarrow>
                            (case st_Put api s v recomputed blobData (bp_buf a) of
                               (s', Some e) \<Rightarrow> (s', Inl (EStore e))
                             | (s', None) \<Rightarrow>
                                 (s', Inr (result\<lparr> ur_BlobsReceived := ur_BlobsReceived result + 1,
                                                   ur_BytesReceived := ur_BytesReceived result + of_nat (length (bp_buf a)) \<rparr>)))))"

definition add_data :: "blobInProgress \<Rightarrow> bytes \<Rightarrow> blobInProgress" where
  "add_data a data =
     (if bp_rejected a then a
      else if int (length (bp_buf a)) + int (length data) > maxSourceBlobBytes then a\<lparr> bp_rejected := True, bp_buf := [] \<rparr>
      else a\<lparr> bp_hashed := bp_hashed a @ data, bp_buf := bp_buf a @ data \<rparr>)"

fun upload_loop :: "('s, 'v) StoreAPI \<Rightarrow> (bytes \<Rightarrow> bytes) \<Rightarrow> (int \<Rightarrow> string \<Rightarrow> string \<Rightarrow> bool) \<Rightarrow> 's \<Rightarrow> 'v \<Rightarrow> blobInProgress option \<Rightarrow> string \<Rightarrow> UploadResult \<Rightarrow> BlobChunk recv list \<Rightarrow> 's \<times> (cas_err + UploadResult)" where
  "upload_loop api h valid s store active streamTenant result [] = commit api h s store active result"
| "upload_loop api h valid s store active streamTenant result (RecvErr # msgs) = (s, Inl EStream)"
| "upload_loop api h valid s store active streamTenant result (Msg now (ChunkHeader hdr) # msgs) =
     (case commit api h s store active result of
        (s', Inl e) \<Rightarrow> (s', Inl e)
      | (s', Inr result') \<Rightarrow>
          (case hdr of
             None \<Rightarrow> (s', Inl EBadHeader)
           | Some bh \<Rightarrow>
               (if length (dg_Digest bh) \<noteq> 32 then (s', Inl EBadHeader)
                else if dg_TenantId bh = [] then (s', Inl ENoTenant)
                else if \<not> valid now (dg_SchedulerToken bh) (dg_TenantId bh) then (s', Inl EBadToken)
                else if streamTenant \<noteq> [] \<and> dg_TenantId bh \<noteq> streamTenant then (s', Inl (ETenantChanged streamTenant (dg_TenantId bh)))
                else upload_loop api h valid s' store (Some \<lparr> bp_header = bh, bp_hashed = [], bp_buf = [], bp_rejected = False \<rparr>)
                       (dg_TenantId bh) result' msgs)))"
| "upload_loop api h valid s store active streamTenant result (Msg now (ChunkData data) # msgs) =
     (case active of
        None \<Rightarrow> (s, Inl EDataFirst)
      | Some a \<Rightarrow> upload_loop api h valid s store (Some (add_data a data)) streamTenant result msgs)"
| "upload_loop api h valid s store active streamTenant result (Msg now ChunkOther # msgs) = (s, Inl EUnknownBody)"

definition UploadBlobs :: "('s, 'v) StoreAPI \<Rightarrow> (bytes \<Rightarrow> bytes) \<Rightarrow> jwt_Parse \<Rightarrow> Worker \<Rightarrow> 's \<Rightarrow> 'v option \<Rightarrow> BlobChunk recv list \<Rightarrow> 's \<times> (cas_err + UploadResult)" where
  "UploadBlobs api h parse w s sourceStore msgs =
     (case sourceStore of
        None \<Rightarrow> (s, Inl ENoSourceStore)
      | Some store \<Rightarrow>
          upload_loop api h (\<lambda>now. validateSchedulerTokenForCAS parse now w) s store None []
            \<lparr> ur_BlobsReceived = 0, ur_BytesReceived = 0, ur_RejectedDigests = [] \<rparr> msgs)"

section \<open>Staging\<close>

datatype stage_err =
    EEmptyPath | ENulPath | EBackslash | EEscapes | EAbsolute | ELoad store_err | EUnavailable bytes | EMkParent fs_err | EWriteBlob fs_err

definition validateBlobPath :: "string \<Rightarrow> stage_err option" where
  "validateBlobPath p =
     (if p = [] then Some EEmptyPath
      else if list_ex (\<lambda>c. c = CHR 0x00) p then Some ENulPath
      else if list_ex (\<lambda>c. c = CHR 0x5C) p then Some EBackslash
      else let clean = Clean p
           in if clean = ''..'' \<or> HasPrefix clean ''../'' then Some EEscapes
              else if HasPrefix clean ''/'' then Some EAbsolute
              else None)"

fun materializeCASBlobs :: "Faults \<Rightarrow> int \<Rightarrow> (FS, 'v) StoreAPI \<Rightarrow> FS \<Rightarrow> string \<Rightarrow> 'v \<Rightarrow> BlobDesc list \<Rightarrow> FS \<times> stage_err option" where
  "materializeCASBlobs fl now api fs srcDir src [] = (fs, None)"
| "materializeCASBlobs fl now api fs srcDir src (b # bs) =
     (if IsAbs (bd_path b) then materializeCASBlobs fl now api fs srcDir src bs
      else case validateBlobPath (bd_path b) of
             Some e \<Rightarrow> (fs, Some e)
           | None \<Rightarrow>
               (case st_Get api fs src (bd_digest b) blobData of
                  Inl e \<Rightarrow> (fs, Some (ELoad e))
                | Inr None \<Rightarrow> (fs, Some (EUnavailable (bd_digest b)))
                | Inr (Some bytes) \<Rightarrow>
                    (let dst = Join [srcDir, bd_path b]
                     in case MkdirAll fl fs (Dir dst) of
                          (fs1, Some e) \<Rightarrow> (fs1, Some (EMkParent e))
                        | (fs1, None) \<Rightarrow>
                            (case WriteFile fl now fs1 dst bytes of
                               (fs2, Some e) \<Rightarrow> (fs2, Some (EWriteBlob e))
                             | (fs2, None) \<Rightarrow> materializeCASBlobs fl now api fs2 srcDir src bs))))"

end
