(* ===== verification/Worker_Blobs.thy ===== *)
theory Worker_Blobs
  imports Worker_CAS
begin

text \<open>
  What the blob streams of the worker do to any store that keeps the contract of \<^verbatim>\<open>blob_store\<close>: blobs are
  stored under the hash of their content, in the namespace of the tenant of the stream.
\<close>

section \<open>Content addressing\<close>

definition addressed :: "('s, 'v) StoreAPI \<Rightarrow> (bytes \<Rightarrow> bytes) \<Rightarrow> 's \<Rightarrow> 'v \<Rightarrow> bool" where
  "addressed api h s v \<longleftrightarrow> (\<forall>key x. key \<noteq> [] \<longrightarrow> st_Get api s v key blobData = Inr (Some x) \<longrightarrow> h x = key)"

text \<open>The state of a blob being received: until it is rejected, what is hashed is what is kept.\<close>

definition active_ok :: "blobInProgress option \<Rightarrow> bool" where
  "active_ok active \<longleftrightarrow>
     (case active of None \<Rightarrow> True
      | Some a \<Rightarrow> length (dg_Digest (bp_header a)) = 32 \<and> (\<not> bp_rejected a \<longrightarrow> bp_hashed a = bp_buf a))"

lemma add_data_ok: "active_ok (Some a) \<Longrightarrow> active_ok (Some (add_data a data))"
  by (simp add: active_ok_def add_data_def)

lemma add_data_header [simp]: "bp_header (add_data a data) = bp_header a"
  by (simp add: add_data_def)

lemma blobData_name: "blob_name blobData"
  by (simp add: blob_name_def blobData_def bad_component_def HasSuffix_def)

text \<open>A commit either leaves the store alone or puts the blob under its hash.\<close>

lemma commit_cases:
  assumes "commit api h s store active result = (s', r)" "active_ok active"
  shows "s' = s \<or> (\<exists>a v. active = Some a \<and> st_Namespace api store (dg_TenantId (bp_header a)) = Inr v \<and>
     h (bp_buf a) = dg_Digest (bp_header a) \<and> dg_Digest (bp_header a) \<noteq> [] \<and>
     s' = fst (st_Put api s v (dg_Digest (bp_header a)) blobData (bp_buf a)))"
proof (cases active)
  case (Some a)
  then show ?thesis
    using assms by (auto simp: commit_def active_ok_def Let_def split: if_splits sum.splits option.splits prod.splits)
qed (use assms(1) in \<open>simp add: commit_def\<close>)

definition stored_tenants :: "blobInProgress option \<Rightarrow> BlobChunk recv list \<Rightarrow> (int \<Rightarrow> string \<Rightarrow> string \<Rightarrow> bool) \<Rightarrow> string set" where
  "stored_tenants active msgs valid =
     (case active of None \<Rightarrow> {} | Some a \<Rightarrow> {dg_TenantId (bp_header a)}) \<union>
     {dg_TenantId bh | now bh. Msg now (ChunkHeader (Some bh)) \<in> set msgs \<and> valid now (dg_SchedulerToken bh) (dg_TenantId bh)}"

context blob_store
begin

lemma commit_addressed:
  assumes root: "rooted store" and ok: "active_ok active" and run: "commit api h s store active result = (s', r)"
    and before: "\<And>t v. st_Namespace api store t = Inr v \<Longrightarrow> addressed api h s v"
  shows "st_Namespace api store t = Inr v \<Longrightarrow> addressed api h s' v"
proof -
  assume ns: "st_Namespace api store t = Inr v"
  from commit_cases [OF run ok] show ?thesis
  proof (elim disjE exE conjE)
    assume "s' = s"
    then show ?thesis using before [OF ns] by simp
  next
    fix a u
    assume u: "st_Namespace api store (dg_TenantId (bp_header a)) = Inr u" and h: "h (bp_buf a) = dg_Digest (bp_header a)"
      and ne: "dg_Digest (bp_header a) \<noteq> []" and s': "s' = fst (st_Put api s u (dg_Digest (bp_header a)) blobData (bp_buf a))"
    have us: "usable u" "usable v" using ns_usable [OF root u] ns_usable [OF root ns] by simp_all
    show ?thesis
      unfolding addressed_def
    proof (intro allI impI)
      fix key x
      assume key: "key \<noteq> []" and get: "st_Get api s' v key blobData = Inr (Some x)"
      have old: "h x = key" if "st_Get api s v key blobData = Inr (Some x)"
        using before [OF ns] key that by (simp add: addressed_def)
      show "h x = key"
      proof (cases "t = dg_TenantId (bp_header a)")
        case False
        have "sep u v" using ns_sep_tenant [OF root u ns] False by simp
        from get_put_sep [OF us this ne key blobData_name blobData_name, of s "bp_buf a"] show ?thesis using get s' old by simp
      next
        case True
        then have v: "v = u" using u ns by simp
        show ?thesis
        proof (cases "key = dg_Digest (bp_header a)")
          case True
          from get_put_atomic [OF us(1) ne blobData_name, of s "bp_buf a"] show ?thesis using get s' old h True v by auto
        next
          case False
          from get_put_other [OF us(1) ne key blobData_name blobData_name, of s "bp_buf a"] show ?thesis using get s' old False v by simp
        qed
      qed
    qed
  qed
qed

lemma commit_isolated:
  assumes root: "rooted store" and ok: "active_ok active" and run: "commit api h s store active result = (s', r)"
    and ns: "st_Namespace api store t = Inr v" and other: "t \<notin> stored_tenants active msgs valid" and key: "key \<noteq> []" and n: "blob_name n"
  shows "st_Get api s' v key n = st_Get api s v key n"
  using commit_cases [OF run ok]
proof (elim disjE exE conjE)
  fix a u
  assume a: "active = Some a" and u: "st_Namespace api store (dg_TenantId (bp_header a)) = Inr u"
    and ne: "dg_Digest (bp_header a) \<noteq> []" and s': "s' = fst (st_Put api s u (dg_Digest (bp_header a)) blobData (bp_buf a))"
  have us: "usable u" "usable v" using ns_usable [OF root u] ns_usable [OF root ns] by simp_all
  have "sep u v" using ns_sep_tenant [OF root u ns] other a by (auto simp: stored_tenants_def)
  from get_put_sep [OF us this ne key blobData_name n, of s "bp_buf a"] show ?thesis using s' by simp
qed simp

lemma upload_addressed:
  assumes root: "rooted store"
  shows "upload_loop api h valid s store active ten result msgs = (s', r) \<Longrightarrow> active_ok active \<Longrightarrow>
     (\<And>t v. st_Namespace api store t = Inr v \<Longrightarrow> addressed api h s v) \<Longrightarrow>
     st_Namespace api store t = Inr v \<Longrightarrow> addressed api h s' v"
proof (induction msgs arbitrary: s active ten result)
  case Nil
  from commit_addressed [OF root Nil.prems(2) _ Nil.prems(3) Nil.prems(4)] show ?case using Nil.prems(1) by simp
next
  case (Cons m msgs)
  note before = Cons.prems(3)
  obtain s1 r1 where c: "commit api h s store active result = (s1, r1)" by fastforce
  have step: "addressed api h s1 u" if "st_Namespace api store t' = Inr u" for t' u
    using commit_addressed [OF root Cons.prems(2) c before that] .
  show ?case
  proof (cases m)
    case RecvErr
    then show ?thesis using Cons.prems(1) before [OF Cons.prems(4)] by simp
  next
    case (Msg now b)
    show ?thesis
    proof (cases b)
      case (ChunkHeader hdr)
      from Cons.prems(1) Msg ChunkHeader c consider "s' = s1"
        | bh res where "length (dg_Digest bh) = 32"
            "upload_loop api h valid s1 store (Some \<lparr> bp_header = bh, bp_hashed = [], bp_buf = [], bp_rejected = False \<rparr>) (dg_TenantId bh) res msgs = (s', r)"
        by (auto split: sum.splits option.splits if_splits)
      then show ?thesis
      proof cases
        case 1
        then show ?thesis using step [OF Cons.prems(4)] by simp
      next
        case 2
        from Cons.IH [OF 2(2) _ step Cons.prems(4)] show ?thesis using 2(1) by (simp add: active_ok_def)
      qed
    next
      case (ChunkData data)
      show ?thesis
      proof (cases active)
        case None
        then show ?thesis using Cons.prems(1) before [OF Cons.prems(4)] Msg ChunkData by simp
      next
        case (Some a)
        then have "upload_loop api h valid s store (Some (add_data a data)) ten result msgs = (s', r)"
          using Cons.prems(1) Msg ChunkData by simp
        from Cons.IH [OF this _ before Cons.prems(4)] show ?thesis using add_data_ok Cons.prems(2) Some by simp
      qed
    next
      case ChunkOther
      then show ?thesis using Cons.prems(1) before [OF Cons.prems(4)] Msg by simp
    qed
  qed
qed

lemma upload_isolated:
  assumes root: "rooted store" and ns: "st_Namespace api store t = Inr v" and key: "key \<noteq> []" and n: "blob_name n"
  shows "upload_loop api h valid s store active ten result msgs = (s', r) \<Longrightarrow> active_ok active \<Longrightarrow>
     t \<notin> stored_tenants active msgs valid \<Longrightarrow> st_Get api s' v key n = st_Get api s v key n"
proof (induction msgs arbitrary: s active ten result)
  case Nil
  from commit_isolated [OF root Nil.prems(2) _ ns Nil.prems(3) key n] show ?case using Nil.prems(1) by simp
next
  case (Cons m msgs)
  obtain s1 r1 where c: "commit api h s store active result = (s1, r1)" by fastforce
  have step: "st_Get api s1 v key n = st_Get api s v key n" by (rule commit_isolated [OF root Cons.prems(2) c ns Cons.prems(3) key n])
  show ?case
  proof (cases m)
    case RecvErr
    then show ?thesis using Cons.prems(1) by simp
  next
    case (Msg now b)
    show ?thesis
    proof (cases b)
      case (ChunkHeader hdr)
      from Cons.prems(1) Msg ChunkHeader c consider "s' = s1"
        | bh res where "hdr = Some bh" "valid now (dg_SchedulerToken bh) (dg_TenantId bh)" "length (dg_Digest bh) = 32"
            "upload_loop api h valid s1 store (Some \<lparr> bp_header = bh, bp_hashed = [], bp_buf = [], bp_rejected = False \<rparr>) (dg_TenantId bh) res msgs = (s', r)"
        by (auto split: sum.splits option.splits if_splits)
      then show ?thesis
      proof cases
        case 2
        have "t \<notin> stored_tenants (Some \<lparr> bp_header = bh, bp_hashed = [], bp_buf = [], bp_rejected = False \<rparr>) msgs valid"
          using Cons.prems(3) 2(1,2) Msg ChunkHeader by (auto simp: stored_tenants_def)
        from Cons.IH [OF 2(4) _ this] show ?thesis using step 2(3) by (simp add: active_ok_def)
      qed (use step in simp)
    next
      case (ChunkData data)
      show ?thesis
      proof (cases active)
        case None
        then show ?thesis using Cons.prems(1) Msg ChunkData by simp
      next
        case (Some a)
        then have run: "upload_loop api h valid s store (Some (add_data a data)) ten result msgs = (s', r)"
          using Cons.prems(1) Msg ChunkData by simp
        have "t \<notin> stored_tenants (Some (add_data a data)) msgs valid" using Cons.prems(3) Some by (auto simp: stored_tenants_def)
        from Cons.IH [OF run _ this] show ?thesis using add_data_ok Cons.prems(2) Some by simp
      qed
    next
      case ChunkOther
      then show ?thesis using Cons.prems(1) Msg by simp
    qed
  qed
qed

end

section \<open>Well-formed streams\<close>

text \<open>A blob on the wire: the header with its time, then the chunks with theirs.\<close>

type_synonym wire_blob = "int \<times> BlobDigest \<times> (int \<times> bytes) list"

fun blob_frames :: "wire_blob \<Rightarrow> BlobChunk recv list" where
  "blob_frames (t, bh, cs) = Msg t (ChunkHeader (Some bh)) # map (\<lambda>(u, c). Msg u (ChunkData c)) cs"

fun content :: "wire_blob \<Rightarrow> bytes" where
  "content (t, bh, cs) = concat (map snd cs)"

fun wire_digest :: "wire_blob \<Rightarrow> bytes" where
  "wire_digest (t, bh, cs) = dg_Digest bh"

definition accepted :: "(bytes \<Rightarrow> bytes) \<Rightarrow> wire_blob \<Rightarrow> bool" where
  "accepted h b \<longleftrightarrow> int (length (content b)) \<le> maxSourceBlobBytes \<and> h (content b) = wire_digest b"

fun header_ok :: "(int \<Rightarrow> string \<Rightarrow> string \<Rightarrow> bool) \<Rightarrow> string \<Rightarrow> wire_blob \<Rightarrow> bool" where
  "header_ok valid ten (t, bh, cs) \<longleftrightarrow> length (dg_Digest bh) = 32 \<and> dg_TenantId bh = ten \<and> ten \<noteq> [] \<and> valid t (dg_SchedulerToken bh) ten"

fun received :: "wire_blob \<Rightarrow> blobInProgress" where
  "received (t, bh, cs) = foldl add_data \<lparr> bp_header = bh, bp_hashed = [], bp_buf = [], bp_rejected = False \<rparr> (map snd cs)"

text \<open>The stream handled blob by blob: each is committed when it is complete.\<close>

fun settle :: "('s, 'v) StoreAPI \<Rightarrow> (bytes \<Rightarrow> bytes) \<Rightarrow> 's \<Rightarrow> 'v \<Rightarrow> UploadResult \<Rightarrow> wire_blob list \<Rightarrow> 's \<times> (cas_err + UploadResult)" where
  "settle api h s store result [] = (s, Inr result)"
| "settle api h s store result (b # bs) =
     (case commit api h s store (Some (received b)) result of
        (s', Inl e) \<Rightarrow> (s', Inl e)
      | (s', Inr result') \<Rightarrow> settle api h s' store result' bs)"

lemma upload_data:
  "upload_loop api h valid s store (Some a) ten result (map (\<lambda>(u, c). Msg u (ChunkData c)) cs @ msgs) =
   upload_loop api h valid s store (Some (foldl add_data a (map snd cs))) ten result msgs"
  by (induction cs arbitrary: a) auto

lemma upload_settles_from:
  assumes "\<forall>b \<in> set bs. header_ok valid ten b"
  shows "upload_loop api h valid s store (Some a) ten result (concat (map blob_frames bs)) =
     (case commit api h s store (Some a) result of
        (s', Inl e) \<Rightarrow> (s', Inl e)
      | (s', Inr result') \<Rightarrow> settle api h s' store result' bs)"
  using assms
proof (induction bs arbitrary: s a result)
  case Nil
  show ?case by (simp split: prod.splits sum.splits)
next
  case (Cons b bs)
  obtain t bh cs where b: "b = (t, bh, cs)" by (cases b)
  obtain s1 r1 where c: "commit api h s store (Some a) result = (s1, r1)" by fastforce
  show ?case
  proof (cases r1)
    case (Inr res)
    have "upload_loop api h valid s store (Some a) ten result (concat (map blob_frames (b # bs))) =
        upload_loop api h valid s1 store (Some (received b)) ten res (concat (map blob_frames bs))"
      using c Inr Cons.prems by (simp add: b upload_data)
    then show ?thesis using Cons.IH [of s1 "received b" res] Cons.prems c Inr by simp
  qed (simp add: b c)
qed

lemma upload_settles:
  assumes "\<forall>b \<in> set bs. header_ok valid ten b"
  shows "upload_loop api h valid s store None [] result (concat (map blob_frames bs)) = settle api h s store result bs"
proof (cases bs)
  case (Cons b bs')
  obtain t bh cs where b: "b = (t, bh, cs)" by (cases b)
  have "upload_loop api h valid s store None [] result (concat (map blob_frames bs)) =
      upload_loop api h valid s store (Some (received b)) ten result (concat (map blob_frames bs'))"
    using assms Cons by (simp add: b upload_data commit_def)
  then show ?thesis using upload_settles_from [of bs' valid ten api h s store "received b" result] assms Cons by simp
qed (simp add: commit_def)

text \<open>The size limit is reached by the blob as a whole, however it is cut into chunks.\<close>

lemma foldl_rejected: "bp_rejected a \<Longrightarrow> foldl add_data a cs = a"
  by (induction cs) (simp_all add: add_data_def)

lemma foldl_within:
  "\<not> bp_rejected a \<Longrightarrow> int (length (bp_buf a) + length (concat cs)) \<le> maxSourceBlobBytes \<Longrightarrow>
   foldl add_data a cs = a\<lparr> bp_hashed := bp_hashed a @ concat cs, bp_buf := bp_buf a @ concat cs \<rparr>"
proof (induction cs arbitrary: a)
  case (Cons c cs)
  let ?a = "a\<lparr> bp_hashed := bp_hashed a @ c, bp_buf := bp_buf a @ c \<rparr>"
  have "add_data a c = ?a" using Cons.prems by (simp add: add_data_def)
  then show ?case using Cons.IH [of ?a] Cons.prems by simp
qed simp

lemma foldl_beyond:
  "\<not> bp_rejected a \<Longrightarrow> int (length (bp_buf a)) \<le> maxSourceBlobBytes \<Longrightarrow>
   maxSourceBlobBytes < int (length (bp_buf a) + length (concat cs)) \<Longrightarrow> bp_rejected (foldl add_data a cs)"
proof (induction cs arbitrary: a)
  case (Cons c cs)
  show ?case
  proof (cases "int (length (bp_buf a)) + int (length c) > maxSourceBlobBytes")
    case True
    then have "bp_rejected (add_data a c)" using Cons.prems(1) by (simp add: add_data_def)
    then show ?thesis by (simp add: foldl_rejected)
  next
    case False
    let ?a = "a\<lparr> bp_hashed := bp_hashed a @ c, bp_buf := bp_buf a @ c \<rparr>"
    have "add_data a c = ?a" using False Cons.prems(1) by (simp add: add_data_def)
    then show ?thesis using Cons.IH [of ?a] Cons.prems False by simp
  qed
qed simp

lemma received_cases:
  assumes b: "b = (t, bh, cs)"
  shows "bp_header (received b) = bh"
    "bp_rejected (received b) \<longleftrightarrow> maxSourceBlobBytes < int (length (content b))"
    "\<not> bp_rejected (received b) \<Longrightarrow> bp_hashed (received b) = content b \<and> bp_buf (received b) = content b"
proof -
  let ?a = "\<lparr> bp_header = bh, bp_hashed = [], bp_buf = [], bp_rejected = False \<rparr>"
  have hd: "bp_header (foldl add_data x ys) = bp_header x" for x ys by (induction ys arbitrary: x) simp_all
  show "bp_header (received b) = bh" using b hd by simp
  have within: "received b = ?a\<lparr> bp_hashed := content b, bp_buf := content b \<rparr>" if "int (length (content b)) \<le> maxSourceBlobBytes"
    using foldl_within [of ?a "map snd cs"] that b by simp
  have beyond: "bp_rejected (received b)" if "maxSourceBlobBytes < int (length (content b))"
    using foldl_beyond [of ?a "map snd cs"] that b by (simp add: maxSourceBlobBytes_def)
  show iff: "bp_rejected (received b) \<longleftrightarrow> maxSourceBlobBytes < int (length (content b))"
    using within beyond by (cases "maxSourceBlobBytes < int (length (content b))") (simp_all only: not_less if_True, simp)
  show "\<not> bp_rejected (received b) \<Longrightarrow> bp_hashed (received b) = content b \<and> bp_buf (received b) = content b"
    using within unfolding iff by simp
qed

lemma commit_received:
  "commit api h s store (Some (received b)) result =
     (if \<not> accepted h b then (s, Inr (result\<lparr> ur_RejectedDigests := ur_RejectedDigests result @ [wire_digest b] \<rparr>))
      else case st_Namespace api store (dg_TenantId (fst (snd b))) of
             Inl e \<Rightarrow> (s, Inl (ENamespace e))
           | Inr v \<Rightarrow>
               (case st_Put api s v (wire_digest b) blobData (content b) of
                  (s', Some e) \<Rightarrow> (s', Inl (EStore e))
                | (s', None) \<Rightarrow>
                    (s', Inr (result\<lparr> ur_BlobsReceived := ur_BlobsReceived result + 1,
                                      ur_BytesReceived := ur_BytesReceived result + of_nat (length (content b)) \<rparr>))))"
proof -
  obtain t bh cs where b: "b = (t, bh, cs)" by (cases b)
  have w: "wire_digest b = dg_Digest bh" "fst (snd b) = bh" by (simp_all add: b)
  note r = received_cases [OF b]
  show ?thesis
  proof (cases "bp_rejected (received b)")
    case True
    then show ?thesis using r(1,2) by (simp add: commit_def accepted_def w)
  next
    case False
    note f = r(3) [OF False]
    have len: "int (length (content b)) \<le> maxSourceBlobBytes" using False r(2) by simp
    show ?thesis
    proof (cases "h (content b) = dg_Digest bh")
      case True
      then show ?thesis using False r(1) f len by (simp add: commit_def accepted_def w split: sum.split)
    next
      case no: False
      then show ?thesis using False r(1) f by (simp add: commit_def accepted_def w)
    qed
  qed
qed

section \<open>What an upload leaves\<close>

definition present :: "('s, 'v) StoreAPI \<Rightarrow> (bytes \<Rightarrow> bytes) \<Rightarrow> 's \<Rightarrow> 'v \<Rightarrow> bytes \<Rightarrow> bool" where
  "present api h s v d \<longleftrightarrow> st_Has api s v d = Inr True \<and> (\<exists>x. st_Get api s v d blobData = Inr (Some x) \<and> h x = d)"

context blob_store
begin

lemma put_present:
  assumes v: "usable v" and put: "st_Put api s v k blobData y = (s', None)" and k: "k \<noteq> []" "h y = k"
    and d: "d \<noteq> []" "present api h s v d \<or> d = k"
  shows "present api h s' v d"
proof (cases "d = k")
  case True
  then show ?thesis
    using get_put_same [OF v k(1) blobData_name put] has_put [OF v k(1) blobData_name put] k(2) by (simp add: present_def)
next
  case False
  have "st_Get api s' v d blobData = st_Get api s v d blobData"
    using get_put_other [OF v k(1) d(1) blobData_name blobData_name, of s y] False put by simp
  moreover have "st_Has api s' v d = st_Has api s v d"
    using has_put_other [OF v k(1) d(1) blobData_name, of s y] False put by simp
  ultimately show ?thesis using d(2) False by (simp add: present_def)
qed

lemma put_addressed:
  assumes "usable v" "addressed api h s v" "k \<noteq> []" "h y = k"
  shows "addressed api h (fst (st_Put api s v k blobData y)) v"
  unfolding addressed_def
proof (intro allI impI)
  fix key x
  assume key: "key \<noteq> []" and get: "st_Get api (fst (st_Put api s v k blobData y)) v key blobData = Inr (Some x)"
  show "h x = key"
    using get get_put_atomic [OF assms(1,3) blobData_name, of s y] get_put_other [OF assms(1,3) key blobData_name blobData_name, of s y] assms(2,4) key
    by (cases "key = k") (auto simp: addressed_def)
qed

lemma settle_result:
  assumes root: "rooted store" and v: "st_Namespace api store ten = Inr v" and hs: "\<forall>b \<in> set bs. header_ok valid ten b"
    and run: "settle api h s store result bs = (s', Inr r)" and D: "\<forall>d \<in> D. d \<noteq> [] \<and> present api h s v d"
  shows "ur_RejectedDigests r = ur_RejectedDigests result @ map wire_digest (filter (\<lambda>b. \<not> accepted h b) bs) \<and>
     ur_BlobsReceived r = ur_BlobsReceived result + of_nat (length (filter (accepted h) bs)) \<and>
     ur_BytesReceived r = ur_BytesReceived result + of_nat (sum_list (map (length \<circ> content) (filter (accepted h) bs))) \<and>
     (\<forall>d \<in> D \<union> wire_digest ` set (filter (accepted h) bs). present api h s' v d)"
  using run hs D
proof (induction bs arbitrary: s result D)
  case (Cons b bs)
  obtain t bh cs where b: "b = (t, bh, cs)" by (cases b)
  have bh: "dg_TenantId (fst (snd b)) = ten" "wire_digest b \<noteq> []" using Cons.prems(2) by (auto simp: b)
  have hs': "\<forall>b \<in> set bs. header_ok valid ten b" using Cons.prems(2) by simp
  show ?case
  proof (cases "accepted h b")
    case False
    let ?res = "result\<lparr> ur_RejectedDigests := ur_RejectedDigests result @ [wire_digest b] \<rparr>"
    have "settle api h s store ?res bs = (s', Inr r)" using Cons.prems(1) False by (simp add: commit_received)
    from Cons.IH [OF this hs' Cons.prems(3)] show ?thesis using False by simp
  next
    case True
    obtain s1 o1 where put: "st_Put api s v (wire_digest b) blobData (content b) = (s1, o1)" by fastforce
    have o1: "o1 = None" using Cons.prems(1) True put v bh by (cases o1) (simp_all add: commit_received)
    let ?res = "result\<lparr> ur_BlobsReceived := ur_BlobsReceived result + 1, ur_BytesReceived := ur_BytesReceived result + of_nat (length (content b)) \<rparr>"
    have run: "settle api h s1 store ?res bs = (s', Inr r)" using Cons.prems(1) True put o1 v bh by (simp add: commit_received)
    have "\<forall>d \<in> insert (wire_digest b) D. d \<noteq> [] \<and> present api h s1 v d"
      using put_present [OF conjunct1 [OF ns_usable [OF root v]] put [unfolded o1] bh(2)] True Cons.prems(3) bh(2)
      by (auto simp: accepted_def)
    from Cons.IH [OF run hs' this] show ?thesis using True by (simp add: add.assoc)
  qed
qed simp

lemma settle_error:
  assumes "st_Namespace api store ten = Inr v"
  shows "settle api h s store result bs = (s', Inl e) \<Longrightarrow> \<forall>b \<in> set bs. header_ok valid ten b \<Longrightarrow> \<exists>se. e = EStore se"
proof (induction bs arbitrary: s result)
  case (Cons b bs)
  obtain s1 r1 where c: "commit api h s store (Some (received b)) result = (s1, r1)" by fastforce
  have ten: "dg_TenantId (fst (snd b)) = ten" using Cons.prems(2) by (cases b) simp
  show ?case
  proof (cases r1)
    case (Inl e1)
    then show ?thesis using Cons.prems(1) c ten assms by (auto simp: commit_received split: if_splits prod.splits option.splits)
  next
    case (Inr r2)
    then show ?thesis using Cons.IH [of s1 r2] Cons.prems c by simp
  qed
qed simp

text \<open>A probe asks for exactly the digests that are not there.\<close>

lemma find_exact:
  assumes v: "st_Namespace api store ten = Inr v" and has: "\<forall>b \<in> set reqs. \<exists>x. st_Has api s v (dg_Digest (snd b)) = Inr x"
    and ok: "\<forall>(t, q) \<in> set reqs. dg_Digest q \<noteq> [] \<and> dg_TenantId q = ten \<and> valid t (dg_SchedulerToken q) ten \<and> ok q" "ten \<noteq> []"
    and st: "st = [] \<or> st = ten"
  shows "find_loop api valid ok s store st (map (\<lambda>(t, q). Msg t q) reqs) =
     (filter (\<lambda>q. st_Has api s v (dg_Digest q) \<noteq> Inr True) (map snd reqs), None)"
  using has ok(1) st
proof (induction reqs arbitrary: st)
  case (Cons r reqs)
  obtain t q where r: "r = (t, q)" by (cases r)
  obtain x where x: "st_Has api s v (dg_Digest q) = Inr x" using Cons.prems(1) r by auto
  have "find_loop api valid ok s store ten (map (\<lambda>(t, q). Msg t q) reqs) =
     (filter (\<lambda>q. st_Has api s v (dg_Digest q) \<noteq> Inr True) (map snd reqs), None)"
    by (rule Cons.IH) (use Cons.prems in auto)
  then show ?case using Cons.prems r x v ok(2) by (cases x) auto
qed simp

end

end
