(* ===== verification/Worker_Stage.thy ===== *)
theory Worker_Stage
  imports Worker_CAS
begin

text \<open>Where staged sources land: a path that passes \<^verbatim>\<open>validateBlobPath\<close> names a place below the source directory.\<close>

section \<open>Relative paths that do not climb\<close>

definition stage_comps :: "string \<Rightarrow> string list" where
  "stage_comps p = clean_comps False (Split p slash)"

lemma clean_keeps_dotdot: "''..'' \<in> set st \<Longrightarrow> ''..'' \<in> set (foldl (clean_step False) st xs)"
proof (induction xs arbitrary: st)
  case (Cons c xs)
  have "''..'' \<in> set (clean_step False st c)" using Cons.prems by (auto simp: clean_step_def split: list.splits)
  then show ?case using Cons.IH by simp
qed simp

text \<open>Dot-dot components stay at the bottom of the stack.\<close>

lemma clean_dotdot_last:
  "st = [] \<or> last st = ''..'' \<or> ''..'' \<notin> set st \<Longrightarrow>
   foldl (clean_step False) st xs = [] \<or> last (foldl (clean_step False) st xs) = ''..'' \<or> ''..'' \<notin> set (foldl (clean_step False) st xs)"
proof (induction xs arbitrary: st)
  case (Cons c xs)
  have "clean_step False st c = [] \<or> last (clean_step False st c) = ''..'' \<or> ''..'' \<notin> set (clean_step False st c)"
    using Cons.prems by (auto simp: clean_step_def split: list.splits if_splits)
  then show ?case using Cons.IH by simp
qed simp

lemma clean_base:
  assumes "''..'' \<notin> set (foldl (clean_step False) st xs)" "''..'' \<notin> set st"
  shows "foldl (clean_step True) (st @ base) xs = foldl (clean_step False) st xs @ base"
  using assms
proof (induction xs arbitrary: st)
  case (Cons c xs)
  have no: "''..'' \<notin> set (clean_step False st c)" using clean_keeps_dotdot Cons.prems(1) by auto
  then have "clean_step True (st @ base) c = clean_step False st c @ base"
    using Cons.prems(2) by (auto simp: clean_step_def split: list.splits if_splits)
  then show ?case using Cons.IH [of "clean_step False st c"] Cons.prems(1) no by simp
qed simp

lemma clean_unrooted_good:
  assumes "\<forall>c \<in> set xs. slash \<notin> set c" "\<forall>c \<in> set st. good_comp c \<or> c = ''..''"
  shows "\<forall>c \<in> set (foldl (clean_step False) st xs). good_comp c \<or> c = ''..''"
  using assms
proof (induction xs arbitrary: st)
  case (Cons c xs)
  have "\<forall>x \<in> set (clean_step False st c). good_comp x \<or> x = ''..''"
    using Cons.prems by (auto simp: clean_step_def good_comp_def split: list.splits if_splits)
  then show ?case using Cons by simp
qed simp

lemma stage_comps_good:
  assumes valid: "validateBlobPath p = None" and rel: "\<not> IsAbs p"
  shows "good_comps (stage_comps p)"
proof -
  let ?st = "foldl (clean_step False) [] (Split p slash)"
  have st: "stage_comps p = rev ?st" by (simp add: stage_comps_def clean_comps_def)
  have "''..'' \<notin> set ?st"
  proof
    assume dd: "''..'' \<in> set ?st"
    then have "last ?st = ''..''" using clean_dotdot_last [of "[]" "Split p slash"] by auto
    then obtain xs where xs: "stage_comps p = ''..'' # xs" using dd st by (cases ?st rule: rev_cases) auto
    then have "Clean p = ''..'' \<or> HasPrefix (Clean p) ''../''"
      using rel by (cases xs) (simp_all add: Clean_def Let_def stage_comps_def)
    then show False using valid by (auto simp: validateBlobPath_def Let_def split: if_splits)
  qed
  moreover have "\<forall>c \<in> set ?st. good_comp c \<or> c = ''..''"
    by (rule clean_unrooted_good) (use Split_no_sep [of _ p slash] in auto)
  ultimately show ?thesis unfolding st by auto
qed

lemma stage_Join:
  assumes valid: "validateBlobPath p = None" and rel: "\<not> IsAbs p" and cs: "good_comps cs"
  shows "Join [abs_path cs, p] = abs_path (cs @ stage_comps p)"
proof -
  have p: "p \<noteq> []" using valid by (auto simp: validateBlobPath_def)
  let ?xs = "Split p slash" and ?st = "foldl (clean_step False) [] (Split p slash)"
  have no: "''..'' \<notin> set ?st"
    using stage_comps_good [OF valid rel] by (auto simp: stage_comps_def clean_comps_def good_comp_def)
  have base: "foldl (clean_step True) (rev cs) ?xs = ?st @ rev cs"
    using clean_base [of "[]" ?xs "rev cs"] no by simp
  have split: "Split (abs_path cs @ slash # p) slash = [] # (if cs = [] then [[]] else cs) @ ?xs"
  proof (cases "cs = []")
    case False
    have "Split (join slash cs @ slash # p) slash = cs @ ?xs"
    proof -
      have "join slash cs @ slash # p = join slash (cs @ ?xs)" using False by (simp add: join_append)
      moreover have "\<forall>c \<in> set (cs @ ?xs). slash \<notin> set c" using cs Split_no_sep [of _ p slash] by (auto simp: good_comp_def)
      ultimately show ?thesis using Split_join [of "cs @ ?xs" slash] by simp
    qed
    then show ?thesis using False by simp
  qed simp
  have "foldl (clean_step True) [] ([] # (if cs = [] then [[]] else cs) @ ?xs) = ?st @ rev cs"
    using base clean_good [OF cs, of True "[]"] by (cases "cs = []") (simp_all add: clean_step_def)
  then have "clean_comps True (Split (abs_path cs @ slash # p) slash) = cs @ stage_comps p"
    unfolding split by (simp add: clean_comps_def stage_comps_def)
  then show ?thesis using p by (simp add: Join_def Clean_def Let_def IsAbs_def)
qed

section \<open>Staging\<close>

text \<open>
  Nothing outside the source directory changes, and every staged file holds the blob of an entry with its path.
\<close>

definition outside_same :: "string list \<Rightarrow> FS \<Rightarrow> FS \<Rightarrow> bool" where
  "outside_same cs fs fs' \<longleftrightarrow>
     (\<forall>q. \<not> below cs q \<longrightarrow> map_of (fs_files fs') q = map_of (fs_files fs) q \<and> is_dir fs' q = is_dir fs q)"

lemma outside_trans: "outside_same cs a b \<Longrightarrow> outside_same cs b c \<Longrightarrow> outside_same cs a c"
  by (simp add: outside_same_def)

lemma mkdir_outside:
  assumes "good_comps (cs @ ps)" "\<forall>q. below q cs \<longrightarrow> is_dir fs q"
  shows "outside_same cs fs (fst (MkdirAll fl fs (Dir (abs_path (cs @ ps)))))"
proof -
  have d: "fpath (Dir (abs_path (cs @ ps))) = butlast (cs @ ps)"
  proof (cases "cs @ ps" rule: rev_cases)
    case Nil
    then show ?thesis using fpath_good [of "Dir (abs_path [])"] by (simp add: Dir_def path_split_def Clean_def Let_def IsAbs_def fpath_def clean_comps_def clean_step_def)
  next
    case (snoc qs c)
    then show ?thesis using Dir_canonical [of qs c] assms(1) by simp
  qed
  have "is_dir fs q" if "below q (butlast (cs @ ps))" "\<not> below cs q" for q
  proof -
    have "below (butlast (cs @ ps)) (cs @ ps)" unfolding butlast_conv_take by (rule below_take)
    from below_trans [OF that(1) this] have q: "take (length q) (cs @ ps) = q" by (simp only: below_def)
    have "length q < length cs"
    proof (rule ccontr)
      assume "\<not> length q < length cs"
      then have "take (length cs) (take (length q) (cs @ ps)) = cs" by (simp add: min_def)
      then show False using that(2) unfolding q by (simp add: below_def)
    qed
    then have "below q cs" using q by (simp add: below_def)
    then show ?thesis using assms(2) by simp
  qed
  then show ?thesis by (auto simp: outside_same_def MkdirAll_def Let_def is_dir_add_dirs d)
qed

lemma write_outside:
  assumes "good_comps (cs @ ps)"
  shows "outside_same cs fs (fst (WriteFile fl now fs (abs_path (cs @ ps)) x))"
  using fpath_abs [OF assms] by (auto simp: outside_same_def WriteFile_def Let_def map_of_set_file)

lemma write_stores:
  assumes "good_comps (cs @ ps)" "WriteFile fl now fs (abs_path (cs @ ps)) x = (fs', None)"
  shows "map_of (fs_files fs') (cs @ ps) = Some (x, now)" "q \<noteq> cs @ ps \<Longrightarrow> map_of (fs_files fs') q = map_of (fs_files fs) q"
  using assms(2) fpath_abs [OF assms(1)] by (auto simp: WriteFile_def Let_def map_of_set_file split: if_splits)

text \<open>The store is read from the same file system, so it must lie apart from the source directory.\<close>

lemma outside_get:
  assumes "disk_usable fl d" "unrelated (fpath (ds_dir d)) cs" "key \<noteq> []" "outside_same cs fs fs'"
  shows "disk_Get fl fs' d key blobData = disk_Get fl fs d key blobData"
proof -
  have name: "blob_name blobData" by (simp add: blob_name_def blobData_def bad_component_def HasSuffix_def)
  have apart: "unrelated (fpath (ds_dir d) @ r) cs" for r using unrelated_append [OF assms(2), of r "[]"] by simp
  let ?p = "blob_path d key blobData"
  have "\<not> below cs q" if q: "below q ?p" for q
  proof
    assume "below cs q"
    then have "below cs ?p" using below_trans q by blast
    then show False using apart by (auto simp: blob_path_def unrelated_def)
  qed
  then have "agree fs fs' ?p" using assms(4) unfolding agree_def outside_same_def by (metis below_refl)
  then show ?thesis using assms(1,3) name by (intro agree_disk_Get) (simp_all add: disk_usable_def)
qed

text \<open>The entries of a manifest that are staged at a path, and the files a successful staging leaves.\<close>

definition staged_at :: "string list \<Rightarrow> BlobDesc list \<Rightarrow> string list \<Rightarrow> BlobDesc \<Rightarrow> bool" where
  "staged_at cs bs q b \<longleftrightarrow> b \<in> set bs \<and> \<not> IsAbs (bd_path b) \<and> q = cs @ stage_comps (bd_path b)"

definition staged_files :: "(bytes \<Rightarrow> bytes \<Rightarrow> bool) \<Rightarrow> int \<Rightarrow> string list \<Rightarrow> BlobDesc list \<Rightarrow> FS \<Rightarrow> FS \<Rightarrow> bool" where
  "staged_files blob now cs bs fs fs' \<longleftrightarrow>
     (\<forall>q. if \<exists>b. staged_at cs bs q b
          then \<exists>b x. staged_at cs bs q b \<and> map_of (fs_files fs') q = Some (x, now) \<and> blob (bd_digest b) x
          else map_of (fs_files fs') q = map_of (fs_files fs) q)"

lemma staged_files_Cons:
  assumes IH: "staged_files blob' now cs bs fs2 fs'" and rel: "\<not> IsAbs (bd_path b)"
    and st: "map_of (fs_files fs2) (cs @ stage_comps (bd_path b)) = Some (x, now)"
      "\<And>q. q \<noteq> cs @ stage_comps (bd_path b) \<Longrightarrow> map_of (fs_files fs2) q = map_of (fs_files fs) q"
    and blob: "blob (bd_digest b) x" "\<And>c y. c \<in> set bs \<Longrightarrow> blob' (bd_digest c) y \<Longrightarrow> blob (bd_digest c) y"
  shows "staged_files blob now cs (b # bs) fs fs'"
  unfolding staged_files_def
proof
  fix q
  have cons: "staged_at cs (b # bs) q c \<longleftrightarrow> staged_at cs bs q c \<or> c = b \<and> q = cs @ stage_comps (bd_path b)" for c
    using rel by (auto simp: staged_at_def)
  note I = spec [OF IH [unfolded staged_files_def], of q]
  show "if \<exists>c. staged_at cs (b # bs) q c
        then \<exists>c x. staged_at cs (b # bs) q c \<and> map_of (fs_files fs') q = Some (x, now) \<and> blob (bd_digest c) x
        else map_of (fs_files fs') q = map_of (fs_files fs) q"
  proof (cases "\<exists>c. staged_at cs bs q c")
    case True
    then obtain c y where c: "staged_at cs bs q c" "map_of (fs_files fs') q = Some (y, now)" "blob' (bd_digest c) y"
      using I unfolding if_P [OF True] by blast
    moreover have "blob (bd_digest c) y" using blob(2) c by (simp add: staged_at_def)
    ultimately show ?thesis using cons by auto
  next
    case False
    then have same: "map_of (fs_files fs') q = map_of (fs_files fs2) q" using I by (simp only: if_False)
    show ?thesis
    proof (cases "q = cs @ stage_comps (bd_path b)")
      case True
      then show ?thesis using cons same st(1) blob(1) by auto
    next
      case no: False
      then show ?thesis using cons same st(2) False by simp
    qed
  qed
qed

lemma materialize_spec:
  assumes cs: "good_comps cs" and d: "disk_usable fl' d" "unrelated (fpath (ds_dir d)) cs"
  shows "materializeCASBlobs fl now (disk_api fl' srt t) fs (abs_path cs) d bs = (fs', r) \<Longrightarrow>
    (\<forall>q. below q cs \<longrightarrow> is_dir fs q) \<Longrightarrow> (\<forall>b \<in> set bs. bd_digest b \<noteq> []) \<Longrightarrow>
    outside_same cs fs fs' \<and> (r = None \<longrightarrow> staged_files (\<lambda>k x. disk_Get fl' fs d k blobData = Inr (Some x)) now cs bs fs fs')"
proof (induction bs arbitrary: fs)
  case Nil
  then show ?case by (simp add: outside_same_def staged_files_def staged_at_def)
next
  case (Cons b bs)
  let ?q = "cs @ stage_comps (bd_path b)"
  have dg: "bd_digest b \<noteq> []" "\<forall>b \<in> set bs. bd_digest b \<noteq> []" using Cons.prems(3) by simp_all
  show ?case
  proof (cases "IsAbs (bd_path b)")
    case True
    then have "staged_at cs (b # bs) = staged_at cs bs" by (auto simp: staged_at_def fun_eq_iff)
    then have "staged_files blob now cs (b # bs) fs fs' = staged_files blob now cs bs fs fs'" for blob by (simp only: staged_files_def)
    then show ?thesis using Cons.IH [of fs] Cons.prems True by simp
  next
    case rel: False
    consider e where "validateBlobPath (bd_path b) = Some e"
      | "validateBlobPath (bd_path b) = None" "\<nexists>x. disk_Get fl' fs d (bd_digest b) blobData = Inr (Some x)"
      | x where "validateBlobPath (bd_path b) = None" "disk_Get fl' fs d (bd_digest b) blobData = Inr (Some x)"
      by (cases "validateBlobPath (bd_path b)") blast+
    then show ?thesis
    proof cases
      case 1
      then show ?thesis using Cons.prems(1) rel by (auto simp: outside_same_def)
    next
      case 2
      then have "fs' = fs \<and> r \<noteq> None"
        using Cons.prems(1) rel by (auto simp: disk_api_def split: sum.splits option.splits)
      then show ?thesis by (auto simp: outside_same_def)
    next
      case (3 x)
      note j = stage_Join [OF 3(1) rel cs]
      have gq: "good_comps ?q" using cs stage_comps_good [OF 3(1) rel] by auto
      obtain fs1 o1 where m: "MkdirAll fl fs (Dir (abs_path ?q)) = (fs1, o1)" by fastforce
      obtain fs2 o2 where w: "WriteFile fl now fs1 (abs_path ?q) x = (fs2, o2)" by fastforce
      have out1: "outside_same cs fs fs1" using mkdir_outside [OF gq Cons.prems(2), of fl] m by simp
      have "outside_same cs fs1 fs2" using write_outside [OF gq, of fs1 fl now x] w by simp
      note out2 = outside_trans [OF out1 this]
      show ?thesis
      proof (cases "o1 = None \<and> o2 = None")
        case False
        have "(fs' = fs1 \<or> fs' = fs2) \<and> r \<noteq> None"
          using Cons.prems(1) rel 3 m w j False by (auto simp: disk_api_def Let_def split: option.splits)
        then show ?thesis using out1 out2 by auto
      next
        case True
        have run: "materializeCASBlobs fl now (disk_api fl' srt t) fs2 (abs_path cs) d bs = (fs', r)"
          using Cons.prems(1) rel 3 m w j True by (simp add: disk_api_def)
        have dirs: "\<forall>q. below q cs \<longrightarrow> is_dir fs2 q"
          using Cons.prems(2) MkdirAll_keeps_dir [of fs _ fl "Dir (abs_path ?q)"] is_dir_unchanged(1) [of fl now fs1 "abs_path ?q" x] m w by auto
        note IH = Cons.IH [OF run dirs dg(2)]
        note st = write_stores [OF gq w [unfolded conjunct2 [OF True]]]
        have files: "fs_files fs1 = fs_files fs" using MkdirAll_files [of fl fs "Dir (abs_path ?q)"] m by simp
        have "staged_files (\<lambda>k x. disk_Get fl' fs d k blobData = Inr (Some x)) now cs (b # bs) fs fs'" if "r = None"
        proof (rule staged_files_Cons [OF _ rel st(1)])
          show "staged_files (\<lambda>k x. disk_Get fl' fs2 d k blobData = Inr (Some x)) now cs bs fs2 fs'" using IH that by blast
          show "map_of (fs_files fs2) q = map_of (fs_files fs) q" if "q \<noteq> ?q" for q using st(2) [OF that] files by simp
          show "disk_Get fl' fs d (bd_digest c) blobData = Inr (Some y)"
            if "c \<in> set bs" "disk_Get fl' fs2 d (bd_digest c) blobData = Inr (Some y)" for c y
            using outside_get [OF d _ out2, of "bd_digest c"] dg(2) that by simp
        qed (use 3 in simp)
        then show ?thesis using IH outside_trans [OF out2] by blast
      qed
    qed
  qed
qed

end
