(* ===== verification/Sched_Props.thy ===== *)
theory Sched_Props
  imports Sched_Core
begin

text \<open>
  The properties of the scheduler over all of its runs, with a scheduler of one tenant and two workers as
  their witness.
\<close>

section \<open>Lemmas\<close>

definition auth_of :: "string \<Rightarrow> Tenant \<Rightarrow> tenantAuth" where
  "auth_of k t = \<lparr> ta_keyfunc = k, ta_issuer = tn_Issuer t, ta_tokenURL = tn_TokenURL t,
     ta_audience = tn_Audience t, ta_clientID = tn_ClientID t, ta_scope = tn_Scope t \<rparr>"

lemma tenant_auths_spec:
  assumes "\<forall>t \<in> set ts. kf (tn_JWKSURL t) \<noteq> None" "distinct (map tn_ID ts)"
  shows "\<exists>m'. tenant_auths kf ts m = Some m' \<and> (\<forall>t \<in> set ts. m' (tn_ID t) = Some (auth_of (the (kf (tn_JWKSURL t))) t)) \<and>
     (\<forall>i. i \<notin> tn_ID ` set ts \<longrightarrow> m' i = m i)"
  using assms
proof (induction ts arbitrary: m)
  case (Cons t ts)
  obtain k where k: "kf (tn_JWKSURL t) = Some k" using Cons.prems(1) by auto
  have tl: "\<forall>t \<in> set ts. kf (tn_JWKSURL t) \<noteq> None" "distinct (map tn_ID ts)" using Cons.prems by simp_all
  obtain m' where m': "tenant_auths kf ts (m(tn_ID t \<mapsto> auth_of k t)) = Some m'"
      "\<forall>t \<in> set ts. m' (tn_ID t) = Some (auth_of (the (kf (tn_JWKSURL t))) t)"
      "\<forall>i. i \<notin> tn_ID ` set ts \<longrightarrow> m' i = (m(tn_ID t \<mapsto> auth_of k t)) i"
    using Cons.IH [OF tl, of "m(tn_ID t \<mapsto> auth_of k t)"] by blast
  have "tenant_auths kf (t # ts) m = Some m'" using m'(1) k by (simp add: auth_of_def)
  moreover have "m' (tn_ID t) = Some (auth_of k t)" using m'(3) Cons.prems(2) by simp
  ultimately show ?case using m'(2,3) k by auto
qed simp

lemma validate_tenants_distinct:
  "validate_tenants i seen ts = None \<Longrightarrow> distinct (map tn_ID ts) \<and> set (map tn_ID ts) \<inter> set seen = {} \<and> [] \<notin> tn_ID ` set ts"
proof (induction ts arbitrary: i seen)
  case (Cons t ts)
  have "validate_tenants (Suc i) (tn_ID t # seen) ts = None" "tn_ID t \<notin> set seen" "tn_ID t \<noteq> []"
    using Cons.prems by (simp_all split: if_splits)
  then show ?case using Cons.IH [of "Suc i" "tn_ID t # seen"] by auto
qed simp

lemma NewScheduler_empty:
  assumes "NewScheduler keys kf c = Some s0"
  shows "sc_workerStates s0 = []" "sc_userSessions s0 = Map.empty" "sc_workerSessions s0 = Map.empty"
  using assms by (auto simp: NewScheduler_def split: option.splits prod.splits)

lemmas reach_inv = sched_run_inv [OF _ NewScheduler_empty]

section \<open>A small cluster\<close>

definition cluster_tenant :: Tenant where
  "cluster_tenant = \<lparr> tn_ID = ''acme'', tn_Issuer = ''idp'', tn_JWKSURL = ''url'', tn_TokenURL = ''tok'', tn_Audience = ''hpcc'',
     tn_ClientID = [], tn_Scope = [] \<rparr>"

definition cluster_config :: SchedConfig where
  "cluster_config = \<lparr> cf_TLS = \<lparr> tls_CertFile = ''c'', tls_KeyFile = ''k'', tls_CertRef = [], tls_KeyRef = [] \<rparr>,
     cf_WorkerToken = ''0123456789abcdef'', cf_Tenants = [cluster_tenant], cf_StickyTenants = True, cf_WorkerTimeout = [] \<rparr>"

definition cluster_parse :: jwt_Parse where
  "cluster_parse key raw now = (if key = ''url'' \<and> raw = ''jwt'' then Some [(''iss'', JString ''idp''), (''aud'', JString ''hpcc'')] else None)"

definition cluster_sign :: jwt_Sign where
  "cluster_sign key claims = Some (key @ claim_string claims ''worker_id'')"

definition cluster_worker :: "string \<Rightarrow> 32 word \<Rightarrow> int \<Rightarrow> WorkerState" where
  "cluster_worker wid load t = \<lparr> ws_WorkerID = wid, ws_PublicAddr = wid, ws_ImageDigests = [''sha256:1''], ws_AvailableVCPUs = 4,
     ws_CurrentLoad = load, ws_Runtime = FIRECRACKER, ws_CertFingerprint = wid, ws_ActiveVMs = [], ws_LastHeartbeat = t \<rparr>"

definition cluster_register :: "string \<Rightarrow> 32 word \<Rightarrow> RegisterWorkerRequest" where
  "cluster_register wid load = \<lparr> rw_SessionToken = ''s-'' @ wid, rw_WorkerId = wid, rw_PublicAddr = wid, rw_ImageDigests = [''sha256:1''],
     rw_AvailableVcpus = 4, rw_CurrentLoad = load, rw_Runtime = FIRECRACKER, rw_CertFingerprint = wid \<rparr>"

definition cluster_first :: Scheduler where
  "cluster_first = \<lparr> sc_config = cluster_config, sc_tenantAuth = [''acme'' \<mapsto> auth_of ''url'' cluster_tenant], sc_workerSessions = Map.empty,
     sc_userSessions = Map.empty, sc_workerStates = [], sc_signingPrivKey = ''priv'', sc_signingPubKey = ''pub'' \<rparr>"

definition cluster_state :: Scheduler where
  "cluster_state = cluster_first\<lparr> sc_workerSessions := [''s-a'' \<mapsto> Registered ''a'', ''s-b'' \<mapsto> Registered ''b''],
     sc_userSessions := [''user'' \<mapsto> ''acme''], sc_workerStates := [(''a'', cluster_worker ''a'' 3 10), (''b'', cluster_worker ''b'' 1 20)] \<rparr>"

lemma cluster_new: "NewScheduler (Some (''pub'', ''priv'')) Some cluster_config = Some cluster_first"
  by (simp add: NewScheduler_def cluster_config_def cluster_tenant_def cluster_first_def auth_of_def)

lemma cluster_verified: "verifyTenantJWT cluster_parse 5 s ''acme'' ''jwt''" if "sc_tenantAuth s = sc_tenantAuth cluster_first"
  using that by (simp add: verifyTenantJWT_def cluster_first_def auth_of_def cluster_parse_def cluster_tenant_def claim_string_def)

lemma cluster_runs:
  assumes "\<And>s. sc_tenantAuth s = sc_tenantAuth cluster_first \<Longrightarrow> verifyTenantJWT parse 5 s ''acme'' ''jwt''"
  shows "sched_run parse sign cluster_first cluster_state {(''user'', ''acme'', ''jwt'', 5)}"
proof -
  let ?run = "sched_run parse sign cluster_first"
  let ?a = "\<lambda>s tok. s\<lparr> sc_workerSessions := (sc_workerSessions s)(tok \<mapsto> Authenticated) \<rparr>"
  have auth: "?run (?a s tok) E" if "?run s E" "sc_config s = cluster_config" for s tok E
    using sched_run.Auth [OF that(1), of 0 tok "[]" "StaticToken ''0123456789abcdef''"] that(2)
    by (simp add: Authenticate_def auth_events_def cluster_config_def)
  have "?run cluster_first {}" by (rule sched_run.Begin)
  from auth [OF this, of "''s-a''"] have "?run (?a cluster_first ''s-a'') {}" by (simp add: cluster_first_def)
  from auth [OF this, of "''s-b''"] have two: "?run (?a (?a cluster_first ''s-a'') ''s-b'') {}" by (simp add: cluster_first_def)
  let ?s = "?a (?a cluster_first ''s-a'') ''s-b''"
  let ?s1 = "?s\<lparr> sc_workerSessions := (sc_workerSessions ?s)(''s-a'' \<mapsto> Registered ''a''), sc_workerStates := [(''a'', cluster_worker ''a'' 3 10)] \<rparr>"
  have "RegisterWorker 10 ?s (cluster_register ''a'' 3) = (?s1, True)"
    by (simp add: RegisterWorker_def cluster_register_def workerStateFromRegistration_def cluster_worker_def cluster_first_def)
  from sched_run.Register [OF two this] have three: "?run ?s1 {}" .
  let ?s2 = "?s1\<lparr> sc_workerSessions := (sc_workerSessions ?s1)(''s-b'' \<mapsto> Registered ''b''), sc_workerStates := [(''a'', cluster_worker ''a'' 3 10), (''b'', cluster_worker ''b'' 1 20)] \<rparr>"
  have "RegisterWorker 20 ?s1 (cluster_register ''b'' 1) = (?s2, True)"
    by (simp add: RegisterWorker_def cluster_register_def workerStateFromRegistration_def cluster_worker_def cluster_first_def)
  from sched_run.Register [OF three this] have four: "?run ?s2 {}" .
  have "Authenticate parse 5 ''user'' ?s2 ''acme'' (JwtToken ''jwt'') =
      (?s2\<lparr> sc_userSessions := (sc_userSessions ?s2)(''user'' \<mapsto> ''acme'') \<rparr>, \<lparr> ar_Success = True, ar_SessionToken = ''user'', ar_SigningPublicKey = None \<rparr>)"
    using assms [of ?s2] by (simp add: Authenticate_def)
  from sched_run.Auth [OF four this]
  have "?run (?s2\<lparr> sc_userSessions := (sc_userSessions ?s2)(''user'' \<mapsto> ''acme'') \<rparr>) {(''user'', ''acme'', ''jwt'', 5)}"
    by (simp add: auth_events_def)
  moreover have "?s2\<lparr> sc_userSessions := (sc_userSessions ?s2)(''user'' \<mapsto> ''acme'') \<rparr> = cluster_state"
    by (simp add: cluster_state_def cluster_first_def fun_eq_iff)
  ultimately show ?thesis by simp
qed

lemma cluster_run: "sched_run cluster_parse cluster_sign cluster_first cluster_state {(''user'', ''acme'', ''jwt'', 5)}"
  by (rule cluster_runs) (rule cluster_verified)

section \<open>Properties\<close>

text \<open>
  C33.  In every state a scheduler can reach, a route is granted only to a session whose tenant is the one
  asked for and whose token was handed out after a JWT had verified against the keys, the issuer and
  the audience configured for that very tenant; the answer names a registered worker with capacity, and
  its token is signed for that tenant, image and worker.
\<close>

theorem route_authenticated:
  assumes new: "NewScheduler keys kf c = Some s0" and run: "sched_run parse sign s0 s E"
    and route: "Route sign now s req = (s', Inr resp)"
  shows "(\<exists>raw t. (rq_SessionToken req, rq_TenantId req, raw, t) \<in> E \<and> verifyTenantJWT parse t s0 (rq_TenantId req) raw) \<and>
         (\<exists>w. map_of (sc_workerStates s) (ws_WorkerID w) = Some w \<and> sint (ws_AvailableVCPUs w) > 0 \<and>
              rr_WorkerAddress resp = ws_PublicAddr w \<and> rr_CertFingerprint resp = ws_CertFingerprint w \<and>
              sign (sc_signingPrivKey s0) (task_claims now (rq_TenantId req) (rq_ImageDigest req) (ws_WorkerID w)) = Some (rr_Token resp))"
proof -
  have inv: "sched_inv parse s0 s E" by (rule reach_inv [OF run new new new])
  show ?thesis by (rule Route_granted [OF inv route]) blast
qed

definition cluster_route :: RouteRequest where
  "cluster_route = \<lparr> rq_SessionToken = ''user'', rq_TenantId = ''acme'', rq_ImageDigest = ''sha256:1'' \<rparr>"

lemma cluster_picked:
  "pickWorker cluster_state ''acme'' ''sha256:1'' =
     Some (cluster_state\<lparr> sc_workerStates := [(''a'', cluster_worker ''a'' 3 10), (''b'', cluster_worker ''b'' 2 20)] \<rparr>, cluster_worker ''b'' 2 20)"
  by (simp add: pickWorker_def Let_def cluster_state_def cluster_worker_def score_def cluster_first_def cluster_config_def coldPullPenalty_def stickyTenantBonus_def)

theorem route_authenticated_witness:
  "\<exists>resp. snd (Route cluster_sign 7 cluster_state cluster_route) = Inr resp \<and> rr_WorkerAddress resp = ''b'' \<and>
     verifyTenantJWT cluster_parse 5 cluster_first ''acme'' ''jwt''"
proof -
  have ses: "sc_userSessions cluster_state ''user'' = Some ''acme''" "sc_signingPrivKey cluster_state = ''priv''"
    by (simp_all add: cluster_state_def cluster_first_def)
  have req: "rq_SessionToken cluster_route = ''user''" "rq_TenantId cluster_route = ''acme''" "rq_ImageDigest cluster_route = ''sha256:1''"
    by (simp_all add: cluster_route_def)
  have route: "Route cluster_sign 7 cluster_state cluster_route =
      (cluster_state\<lparr> sc_workerStates := [(''a'', cluster_worker ''a'' 3 10), (''b'', cluster_worker ''b'' 2 20)] \<rparr>,
       Inr \<lparr> rr_WorkerAddress = ''b'', rr_Token = ''privb'', rr_CertFingerprint = ''b'' \<rparr>)"
    by (simp add: Route_def req ses cluster_picked signTaskToken_def cluster_sign_def task_claims_def claim_string_def cluster_worker_def)
  from route_authenticated [OF cluster_new cluster_run this] show ?thesis
    unfolding route req using cluster_verified [of cluster_first] by simp
qed

text \<open>
  C34.  A worker is chosen exactly when one has capacity, and it is one of least score among these.  Only
  its load changes, and unless the load is the largest 32-bit integer its score rises by one.
\<close>

theorem pickWorker_least_loaded:
  assumes dist: "distinct (map fst (sc_workerStates s))"
  shows "case pickWorker s ten dig of
           None \<Rightarrow> \<forall>(k, w) \<in> set (sc_workerStates s). sint (ws_AvailableVCPUs w) \<le> 0
         | Some (s', w') \<Rightarrow>
             \<exists>k w. map_of (sc_workerStates s) k = Some w \<and> sint (ws_AvailableVCPUs w) > 0 \<and>
               (\<forall>(k', v) \<in> set (sc_workerStates s). sint (ws_AvailableVCPUs v) > 0 \<longrightarrow> score s ten dig w \<le> score s ten dig v) \<and>
               w' = w\<lparr> ws_CurrentLoad := ws_CurrentLoad w + 1 \<rparr> \<and> map_of (sc_workerStates s') = (map_of (sc_workerStates s))(k \<mapsto> w') \<and>
               (sint (ws_CurrentLoad w) < 2 ^ 31 - 1 \<longrightarrow> score s' ten dig w' = score s ten dig w + 1)"
proof (cases "pickWorker s ten dig")
  case None
  then have "best_worker (score s ten dig) (sc_workerStates s) None = None"
    by (auto simp: pickWorker_def Let_def split: option.splits)
  then show ?thesis using None by (simp add: best_worker_None)
next
  case (Some r)
  obtain s' w' where r: "r = (s', w')" by (cases r)
  obtain k w where w: "map_of (sc_workerStates s) k = Some w" "sint (ws_AvailableVCPUs w) > 0"
    "w' = w\<lparr> ws_CurrentLoad := ws_CurrentLoad w + 1 \<rparr>" "s' = s\<lparr> sc_workerStates := AList.update k w' (sc_workerStates s) \<rparr>"
    "\<forall>(k', v) \<in> set (sc_workerStates s). sint (ws_AvailableVCPUs v) > 0 \<longrightarrow> score s ten dig w \<le> score s ten dig v"
    using pickWorker_Some [OF Some [unfolded r] dist] by blast
  have "sint (ws_CurrentLoad w + 1) = sint (ws_CurrentLoad w) + 1" if "sint (ws_CurrentLoad w) < 2 ^ 31 - 1"
    using that sint_greater_eq [of "ws_CurrentLoad w"] by (simp add: sint_word_ariths signed_take_bit_int_eq_self)
  then have "score s' ten dig w' = score s ten dig w + 1" if "sint (ws_CurrentLoad w) < 2 ^ 31 - 1"
    using that by (simp add: score_def w(3,4))
  moreover have "map_of (sc_workerStates s') = (map_of (sc_workerStates s))(k \<mapsto> w')"
    by (simp add: w(4) update_conv' fun_upd_def)
  ultimately show ?thesis using w unfolding Some r by auto
qed

theorem pickWorker_least_loaded_witness:
  "distinct (map fst (sc_workerStates cluster_state)) \<and>
   (\<exists>s' w'. pickWorker cluster_state ''acme'' ''sha256:1'' = Some (s', w') \<and> ws_WorkerID w' = ''b'' \<and> ws_CurrentLoad w' = 2)"
proof -
  have dist: "distinct (map fst (sc_workerStates cluster_state))" by (simp add: cluster_state_def)
  from pickWorker_least_loaded [OF dist, of "''acme''" "''sha256:1''"] show ?thesis
    using dist unfolding cluster_picked by (simp add: cluster_worker_def)
qed

text \<open>
  C35.  A tick of the reaper removes exactly the workers whose last heartbeat is older than the timeout.  The
  next heartbeat of a registered session is refused when its worker was removed and accepted otherwise.
\<close>

theorem reap_by_heartbeat:
  assumes new: "NewScheduler keys kf c = Some s0" and run: "sched_run parse sign s0 s E"
  shows "let s' = reapStaleWorkers now timeout s
         in (\<forall>k w. map_of (sc_workerStates s') k = Some w \<longleftrightarrow> map_of (sc_workerStates s) k = Some w \<and> now - timeout \<le> ws_LastHeartbeat w) \<and>
            (\<forall>hb. sc_workerSessions s (hb_SessionToken hb) = Some (Registered (hb_WorkerId hb)) \<longrightarrow>
               (\<exists>w. map_of (sc_workerStates s) (hb_WorkerId hb) = Some w \<and>
                    snd (Heartbeat t s' hb) = (if now - timeout \<le> ws_LastHeartbeat w then Inr () else Inl Unauthenticated)))"
proof -
  have inv: "sched_inv parse s0 s E" by (rule reach_inv [OF run new new new])
  let ?s = "reapStaleWorkers now timeout s" and ?ws = "sc_workerStates s"
  note dist = sched_invD(7) [OF inv]
  have dist': "distinct (map fst (sc_workerStates ?s))" by (rule sched_invD(7) [OF reap_inv [OF inv]])
  have kept: "map_of (sc_workerStates ?s) k = Some w \<longleftrightarrow> map_of ?ws k = Some w \<and> now - timeout \<le> ws_LastHeartbeat w" for k w
    using map_of_eq_Some_iff [OF dist', of k w] map_of_eq_Some_iff [OF dist, of k w] unfolding reap_states [OF dist] by auto
  have "\<exists>w. map_of ?ws (hb_WorkerId hb) = Some w \<and>
          snd (Heartbeat t ?s hb) = (if now - timeout \<le> ws_LastHeartbeat w then Inr () else Inl Unauthenticated)"
    if ses: "sc_workerSessions s (hb_SessionToken hb) = Some (Registered (hb_WorkerId hb))" for hb
  proof -
    obtain w where w: "map_of ?ws (hb_WorkerId hb) = Some w"
      using sched_invD(9) [OF inv ses] dist by (auto simp: map_of_eq_Some_iff)
    show ?thesis
    proof (cases "now - timeout \<le> ws_LastHeartbeat w")
      case True
      have "hb_WorkerId hb \<notin> set (stale_ids (now - timeout) ?ws)"
        using w True dist by (auto simp: stale_ids_def map_of_eq_Some_iff dest: eq_key_imp_eq_value)
      then have "sc_workerSessions ?s (hb_SessionToken hb) = Some (Registered (hb_WorkerId hb))" by (simp add: reap_session ses)
      moreover have "map_of (sc_workerStates ?s) (hb_WorkerId hb) = Some w" using kept w True by simp
      ultimately show ?thesis using w True by (simp add: Heartbeat_def)
    next
      case False
      then have "hb_WorkerId hb \<in> set (stale_ids (now - timeout) ?ws)"
        using map_of_SomeD [OF w] by (force simp: stale_ids_def)
      then show ?thesis using w False by (simp add: Heartbeat_def reap_session ses)
    qed
  qed
  then show ?thesis using kept by (simp add: Let_def)
qed

definition cluster_beat :: "string \<Rightarrow> WorkerHeartbeat" where
  "cluster_beat wid = \<lparr> hb_SessionToken = ''s-'' @ wid, hb_WorkerId = wid, hb_AvailableVcpus = 4, hb_CurrentLoad = 0, hb_ActiveVms = [] \<rparr>"

theorem reap_by_heartbeat_witness:
  "let s' = reapStaleWorkers 45 30 cluster_state
   in snd (Heartbeat 46 s' (cluster_beat ''a'')) = Inl Unauthenticated \<and> snd (Heartbeat 46 s' (cluster_beat ''b'')) = Inr ()"
proof -
  let ?s = "reapStaleWorkers 45 30 cluster_state"
  note beat = reap_by_heartbeat [OF cluster_new cluster_run, of 45 30 46, unfolded Let_def, THEN conjunct2, rule_format]
  have "snd (Heartbeat 46 ?s (cluster_beat i)) = (if 15 \<le> t then Inr () else Inl Unauthenticated)"
    if ses: "sc_workerSessions cluster_state (''s-'' @ i) = Some (Registered i)" and w: "map_of (sc_workerStates cluster_state) i = Some (cluster_worker i l t)" for i l t
  proof -
    have "sc_workerSessions cluster_state (hb_SessionToken (cluster_beat i)) = Some (Registered (hb_WorkerId (cluster_beat i)))"
      using ses by (simp add: cluster_beat_def)
    from beat [OF this] show ?thesis using w by (simp add: cluster_beat_def cluster_worker_def)
  qed
  from this [of "''a''" 3 10] this [of "''b''" 1 20] show ?thesis by (simp add: cluster_state_def)
qed

text \<open>
  C36.  A configuration that passes validation, with key sets that can be loaded, starts a scheduler that
  serves the identity provider of every tenant as configured and of no one else.
\<close>

theorem validated_tenants_served:
  assumes ok: "Sched_Validate ParseDuration c = None" and kf: "\<forall>t \<in> set (cf_Tenants c). kf (tn_JWKSURL t) \<noteq> None"
  shows "\<exists>s. NewScheduler (Some keys) kf c = Some s \<and> cf_Tenants c \<noteq> [] \<and>
           (\<forall>t \<in> set (cf_Tenants c). GetTenantIdP s (tn_ID t) =
              Some \<lparr> ip_Issuer = tn_Issuer t, ip_TokenUrl = tn_TokenURL t, ip_Audience = tn_Audience t, ip_ClientId = tn_ClientID t, ip_Scope = tn_Scope t \<rparr>) \<and>
           (\<forall>i. i \<notin> tn_ID ` set (cf_Tenants c) \<longrightarrow> GetTenantIdP s i = None)"
proof -
  have "validate_tenants 0 [] (cf_Tenants c) = None" and ne: "cf_Tenants c \<noteq> []"
    using ok by (auto simp: Sched_Validate_def split: if_splits)
  then have "distinct (map tn_ID (cf_Tenants c))" using validate_tenants_distinct by blast
  from tenant_auths_spec [OF kf this, of Map.empty]
  obtain m where m: "tenant_auths kf (cf_Tenants c) Map.empty = Some m"
      "\<forall>t \<in> set (cf_Tenants c). m (tn_ID t) = Some (auth_of (the (kf (tn_JWKSURL t))) t)" "\<forall>i. i \<notin> tn_ID ` set (cf_Tenants c) \<longrightarrow> m i = None"
    by auto
  obtain pub priv where keys: "keys = (pub, priv)" by (cases keys)
  show ?thesis
    using m ne by (intro exI [of _ "\<lparr> sc_config = c, sc_tenantAuth = m, sc_workerSessions = Map.empty, sc_userSessions = Map.empty,
                      sc_workerStates = [], sc_signingPrivKey = priv, sc_signingPubKey = pub \<rparr>"] conjI)
      (simp_all add: NewScheduler_def keys GetTenantIdP_def auth_of_def)
qed

theorem validated_tenants_served_witness:
  "Sched_Validate (\<lambda>_. None) cluster_config = None \<and>
   (\<exists>s. NewScheduler (Some (''pub'', ''priv'')) Some cluster_config = Some s \<and> map_option ip_Issuer (GetTenantIdP s ''acme'') = Some ''idp'' \<and>
        GetTenantIdP s ''evil'' = None)"
proof -
  have ok: "Sched_Validate (\<lambda>_. None) cluster_config = None"
    by (simp add: Sched_Validate_def cluster_config_def cluster_tenant_def WorkerTimeoutDur_def)
  have kf: "\<forall>t \<in> set (cf_Tenants cluster_config). Some (tn_JWKSURL t) \<noteq> None" by simp
  have "cf_Tenants cluster_config = [cluster_tenant]" "tn_ID cluster_tenant = ''acme''" "tn_Issuer cluster_tenant = ''idp''"
    by (simp_all add: cluster_config_def cluster_tenant_def)
  with validated_tenants_served [OF ok kf, of "(''pub'', ''priv'')"] obtain s where
    "NewScheduler (Some (''pub'', ''priv'')) Some cluster_config = Some s" "map_option ip_Issuer (GetTenantIdP s ''acme'') = Some ''idp''"
    "GetTenantIdP s ''evil'' = None"
    by auto
  then show ?thesis using ok by blast
qed

end
