(* ===== verification/Worker_Props.thy ===== *)
theory Worker_Props
  imports Worker_Blobs Worker_Stage Sched_Props "HOL-Library.Countable"
begin

text \<open>
  The properties of the worker's side of a remote compile: the scheduler's token, the upload and the probe
  of source blobs over the disk store, and staging.
\<close>

section \<open>Tokens\<close>

text \<open>
  What the JWT library documents of a key pair: signed claims parse under the public key to the same
  claims until they expire, and not after.
\<close>

definition jwt_law :: "jwt_Sign \<Rightarrow> jwt_Parse \<Rightarrow> string \<Rightarrow> string \<Rightarrow> bool" where
  "jwt_law sign parse priv pub \<longleftrightarrow>
     (\<forall>claims raw e t. sign priv claims = Some raw \<longrightarrow> map_of claims ''exp'' = Some (JNumber e) \<longrightarrow>
        parse pub raw t = (if t < e * nanos then Some claims else None))"


instance json :: countable
  by countable_datatype

definition lib_sign :: jwt_Sign where
  "lib_sign key claims = Some (replicate (to_nat claims) CHR ''x'')"

definition lib_parse :: jwt_Parse where
  "lib_parse key raw t =
     (if key = ''pub''
      then (let claims = from_nat (length raw)
            in case map_of claims ''exp'' of Some (JNumber e) \<Rightarrow> (if t < e * nanos then Some claims else None) | _ \<Rightarrow> None)
      else cluster_parse key raw t)"

lemma lib_law: "jwt_law lib_sign lib_parse ''priv'' ''pub''"
  by (auto simp: jwt_law_def lib_sign_def lib_parse_def)

lemma lib_run: "sched_run lib_parse lib_sign cluster_first cluster_state {(''user'', ''acme'', ''jwt'', 5)}"
proof (rule cluster_runs)
  fix s :: Scheduler
  assume "sc_tenantAuth s = sc_tenantAuth cluster_first"
  then show "verifyTenantJWT lib_parse 5 s ''acme'' ''jwt''"
    by (simp add: verifyTenantJWT_def cluster_first_def auth_of_def lib_parse_def cluster_parse_def cluster_tenant_def claim_string_def)
qed


section \<open>Source blobs\<close>

text \<open>
  C38.  Whatever is sent on an upload stream, and however it ends, every blob that can be read from the
  source store of any tenant still hashes to the key it is stored under, and the store of a tenant for
  which no header carried a valid token is as before.
\<close>

theorem upload_content_addressed:
  assumes root: "disk_rooted fl d"
    and before: "\<forall>t v. disk_Namespace d t = Inr v \<longrightarrow> addressed (disk_api fl srt now) h fs v"
    and run: "UploadBlobs (disk_api fl srt now) h parse w fs (Some d) msgs = (fs', r)"
    and ns: "disk_Namespace d t = Inr v"
  shows "addressed (disk_api fl srt now) h fs' v \<and>
         ((\<forall>u bh. Msg u (ChunkHeader (Some bh)) \<in> set msgs \<and> dg_TenantId bh = t \<longrightarrow>
              \<not> validateSchedulerTokenForCAS parse u w (dg_SchedulerToken bh) t) \<longrightarrow>
          (\<forall>key n. key \<noteq> [] \<and> blob_name n \<longrightarrow> disk_Get fl fs' v key n = disk_Get fl fs v key n))"
proof -
  let ?valid = "\<lambda>now. validateSchedulerTokenForCAS parse now w"
  have loop: "upload_loop (disk_api fl srt now) h ?valid fs d None [] \<lparr> ur_BlobsReceived = 0, ur_BytesReceived = 0, ur_RejectedDigests = [] \<rparr> msgs = (fs', r)"
    using run by (simp add: UploadBlobs_def)
  have ns': "st_Namespace (disk_api fl srt now) d t = Inr v" using ns by (simp add: disk_api_def)
  have none: "active_ok None" by (simp add: active_ok_def)
  have "addressed (disk_api fl srt now) h fs' v"
    by (rule disk.upload_addressed [OF root loop none _ ns']) (use before in \<open>simp add: disk_api_def\<close>)
  moreover have "disk_Get fl fs' v key n = disk_Get fl fs v key n"
    if "\<forall>u bh. Msg u (ChunkHeader (Some bh)) \<in> set msgs \<and> dg_TenantId bh = t \<longrightarrow> \<not> ?valid u (dg_SchedulerToken bh) t" "key \<noteq> []" "blob_name n" for key n
  proof -
    have "t \<notin> stored_tenants None msgs ?valid" using that(1) by (auto simp: stored_tenants_def)
    from disk.upload_isolated [OF root ns' that(2,3) loop none this] show ?thesis by (simp add: disk_api_def)
  qed
  ultimately show ?thesis by blast
qed

definition src_disk :: DiskCacheStore where
  "src_disk = \<lparr> ds_dir = ''/c'', ds_maxSize = 0 \<rparr>"

definition src_view :: DiskCacheStore where
  "src_view = \<lparr> ds_dir = ''/c/acme'', ds_maxSize = 0 \<rparr>"

definition empty_fs :: FS where
  "empty_fs = \<lparr> fs_files = [], fs_dirs = [] \<rparr>"

definition toy_hash :: "bytes \<Rightarrow> bytes" where
  "toy_hash b = replicate 32 (if b = [] then CHR ''0'' else CHR ''1'')"

definition open_parse :: jwt_Parse where
  "open_parse key raw t = Some [(''tenant_id'', JString ''acme''), (''worker_id'', JString ''w'')]"

definition src_worker :: Worker where
  "src_worker = \<lparr> wk_workerID = ''w'', wk_schedulerPubKey = ''pub'' \<rparr>"

definition src_header :: "string \<Rightarrow> char \<Rightarrow> BlobDigest" where
  "src_header ten c = \<lparr> dg_Digest = replicate 32 c, dg_Size = 2, dg_TenantId = ten, dg_SchedulerToken = ''t'' \<rparr>"

lemma src_rooted: "disk_rooted noFaults src_disk"
proof -
  have "\<exists>cs. good_comps cs \<and> ds_dir src_disk = abs_path cs"
    by (rule exI [of _ "[''c'']"]) (simp add: good_comp_def src_disk_def)
  then show ?thesis unfolding disk_rooted_def noFaults_simps by blast
qed

lemma src_ns: "disk_Namespace src_disk ''acme'' = Inr src_view"
proof -
  have "Join [''/c'', ''acme''] = ''/c/acme''" using Join_comp [of "[''c'']" "''acme''"] by (simp add: good_comp_def)
  then show ?thesis by (simp add: disk_Namespace_def validateNamespace_def bad_component_def src_disk_def src_view_def)
qed

lemma empty_addressed: "addressed (disk_api fl srt now) h empty_fs v"
  by (auto simp: addressed_def disk_api_def disk_Get_def ReadFile_def through_file_def is_file_def empty_fs_def Let_def is_dir_def
      split: option.splits)

theorem upload_content_addressed_witness:
  "let fs' = fst (UploadBlobs (disk_api noFaults id 1) toy_hash open_parse src_worker empty_fs (Some src_disk)
       [Msg 0 (ChunkHeader (Some (src_header ''acme'' CHR ''1''))), Msg 1 (ChunkData ''hi'')])
   in disk_Namespace src_disk ''acme'' = Inr src_view \<and> addressed (disk_api noFaults id 1) toy_hash fs' src_view"
  using upload_content_addressed [OF src_rooted _ prod.collapse [symmetric] src_ns] empty_addressed src_ns by (simp add: Let_def)

text \<open>
  C39.  A well-formed upload stream of one tenant either fails with an error of the store or reports as
  rejected exactly the blobs that exceed the size limit or do not hash to the digest of their header,
  and counts the others.  These can be read back with a content of that hash, and a probe for any of them
  asks for nothing.
\<close>

theorem upload_exact:
  assumes root: "disk_rooted fl d" and v: "disk_Namespace d ten = Inr v"
    and hs: "\<forall>b \<in> set bs. header_ok (\<lambda>now. validateSchedulerTokenForCAS parse now w) ten b"
  shows "case UploadBlobs (disk_api fl srt now) h parse w fs (Some d) (concat (map blob_frames bs)) of
           (fs', Inl e) \<Rightarrow> \<exists>se. e = EStore se
         | (fs', Inr r) \<Rightarrow>
             ur_RejectedDigests r = map wire_digest (filter (\<lambda>b. \<not> accepted h b) bs) \<and>
             ur_BlobsReceived r = of_nat (length (filter (accepted h) bs)) \<and>
             ur_BytesReceived r = of_nat (sum_list (map (length \<circ> content) (filter (accepted h) bs))) \<and>
             (\<forall>b \<in> set bs. accepted h b \<longrightarrow> (\<exists>x. disk_Get fl fs' v (wire_digest b) blobData = Inr (Some x) \<and> h x = wire_digest b)) \<and>
             (\<forall>reqs ok. ten \<noteq> [] \<and> (\<forall>(t, q) \<in> set reqs. (\<exists>b \<in> set bs. accepted h b \<and> dg_Digest q = wire_digest b) \<and> dg_TenantId q = ten \<and>
                  validateSchedulerTokenForCAS parse t w (dg_SchedulerToken q) ten \<and> ok q) \<longrightarrow>
                FindMissingBlobs (disk_api fl srt now) parse w ok fs' (Some d) (map (\<lambda>(t, q). Msg t q) reqs) = ([], None))"
proof -
  let ?valid = "\<lambda>now. validateSchedulerTokenForCAS parse now w" and ?api = "disk_api fl srt now"
  let ?r0 = "\<lparr> ur_BlobsReceived = 0, ur_BytesReceived = 0, ur_RejectedDigests = [] \<rparr>"
  have v': "st_Namespace ?api d ten = Inr v" using v by (simp add: disk_api_def)
  have run: "UploadBlobs ?api h parse w fs (Some d) (concat (map blob_frames bs)) = settle ?api h fs d ?r0 bs"
    using upload_settles [OF hs] by (simp add: UploadBlobs_def)
  obtain fs' res where settle: "settle ?api h fs d ?r0 bs = (fs', res)" by fastforce
  show ?thesis
  proof (cases res)
    case (Inl e)
    then show ?thesis using disk.settle_error [OF v' _ hs] settle by (fastforce simp: run)
  next
    case (Inr r)
    note R = disk.settle_result [OF root v' hs settle [unfolded Inr], of "{}", simplified]
    have pres: "present ?api h fs' v (wire_digest b)" if "b \<in> set bs" "accepted h b" for b
      using R that by (cases b) auto
    have find: "FindMissingBlobs ?api parse w ok fs' (Some d) (map (\<lambda>(t, q). Msg t q) reqs) = ([], None)"
      if ten: "ten \<noteq> []" and q: "\<forall>(t, q) \<in> set reqs. (\<exists>b \<in> set bs. accepted h b \<and> dg_Digest q = wire_digest b) \<and> dg_TenantId q = ten \<and>
                  ?valid t (dg_SchedulerToken q) ten \<and> ok q" for reqs ok
    proof -
      have has: "st_Has ?api fs' v (dg_Digest (snd x)) = Inr True" if x: "x \<in> set reqs" for x
      proof -
        obtain b where "b \<in> set bs" "accepted h b" "dg_Digest (snd x) = wire_digest b" using q x by (cases x) auto
        then show ?thesis using pres by (simp add: present_def)
      qed
      have "wire_digest b \<noteq> []" if "b \<in> set bs" for b using hs that by (cases b) auto
      then have fine: "\<forall>(t, q) \<in> set reqs. dg_Digest q \<noteq> [] \<and> dg_TenantId q = ten \<and> ?valid t (dg_SchedulerToken q) ten \<and> ok q" using q by auto
      have "find_loop ?api ?valid ok fs' d [] (map (\<lambda>(t, q). Msg t q) reqs) =
          (filter (\<lambda>q. st_Has ?api fs' v (dg_Digest q) \<noteq> Inr True) (map snd reqs), None)"
        by (rule disk.find_exact [where valid = ?valid and ok = ok, OF v' _ fine ten]) (use has in auto)
      moreover have "filter (\<lambda>q. st_Has ?api fs' v (dg_Digest q) \<noteq> Inr True) (map snd reqs) = []"
        using has by (auto simp: filter_empty_conv)
      ultimately show ?thesis by (simp add: FindMissingBlobs_def)
    qed
    have get: "\<exists>x. disk_Get fl fs' v (wire_digest b) blobData = Inr (Some x) \<and> h x = wire_digest b" if "b \<in> set bs" "accepted h b" for b
      using pres [OF that] by (auto simp: present_def disk_api_def)
    show ?thesis
      unfolding run settle Inr prod.case sum.case
      by (intro conjI ballI allI impI R [THEN conjunct1] R [THEN conjunct2, THEN conjunct1] R [THEN conjunct2, THEN conjunct2, THEN conjunct1];
          (erule (1) get | elim conjE, rule find, assumption, assumption))
  qed
qed

definition src_blob :: "bytes \<Rightarrow> wire_blob" where
  "src_blob data = (0, src_header ''acme'' CHR ''1'', [(1, data)])"

theorem upload_exact_witness:
  "case UploadBlobs (disk_api noFaults id 1) toy_hash open_parse src_worker empty_fs (Some src_disk) (concat (map blob_frames [src_blob ''hi'', src_blob []])) of
     (fs', Inl e) \<Rightarrow> \<exists>se. e = EStore se
   | (fs', Inr r) \<Rightarrow> ur_RejectedDigests r = [replicate 32 CHR ''1''] \<and> ur_BlobsReceived r = 1 \<and> ur_BytesReceived r = 2 \<and>
       (\<exists>x. disk_Get noFaults fs' src_view (replicate 32 CHR ''1'') blobData = Inr (Some x) \<and> toy_hash x = replicate 32 CHR ''1'')"
proof -
  have hs: "\<forall>b \<in> set [src_blob ''hi'', src_blob []]. header_ok (\<lambda>now. validateSchedulerTokenForCAS open_parse now src_worker) ''acme'' b"
    by (simp add: src_blob_def src_header_def validateSchedulerTokenForCAS_def parseSchedulerToken_def open_parse_def src_worker_def)
  have acc: "accepted toy_hash (src_blob ''hi'')" "\<not> accepted toy_hash (src_blob [])"
    by (simp_all add: accepted_def src_blob_def src_header_def toy_hash_def maxSourceBlobBytes_def)
  have dig: "wire_digest (src_blob x) = replicate 32 CHR ''1''" "content (src_blob x) = x" for x by (simp_all add: src_blob_def src_header_def)
  show ?thesis
    using upload_exact [OF src_rooted src_ns hs, where srt = id and now = 1 and h = toy_hash and fs = empty_fs] acc
    by (auto simp: dig split: prod.splits sum.splits)
qed

section \<open>Staging\<close>

text \<open>
  C40.  Staging the blobs of a manifest changes nothing outside the source directory, whatever paths the
  client sent and wherever staging fails.  When it succeeds, every relative path of the manifest holds a
  content that hashes to the digest of an entry with that path, and no other file has changed.
\<close>

theorem staging_confined:
  assumes cs: "good_comps cs" and dirs: "\<forall>q. below q cs \<longrightarrow> is_dir fs q"
    and store: "disk_usable fl' d" "unrelated (fpath (ds_dir d)) cs" "addressed (disk_api fl' srt t) h fs d"
    and digests: "\<forall>b \<in> set bs. bd_digest b \<noteq> []"
    and run: "materializeCASBlobs fl now (disk_api fl' srt t) fs (abs_path cs) d bs = (fs', r)"
  shows "(\<forall>q. \<not> below cs q \<longrightarrow> map_of (fs_files fs') q = map_of (fs_files fs) q \<and> is_dir fs' q = is_dir fs q) \<and>
         (r = None \<longrightarrow>
            (\<forall>q. if \<exists>b. staged_at cs bs q b
                 then \<exists>b x. staged_at cs bs q b \<and> map_of (fs_files fs') q = Some (x, now) \<and> h x = bd_digest b
                 else map_of (fs_files fs') q = map_of (fs_files fs) q))"
proof -
  note M = materialize_spec [OF cs store(1,2) run dirs digests]
  have hash: "h x = bd_digest b" if "staged_at cs bs q b" "disk_Get fl' fs d (bd_digest b) blobData = Inr (Some x)" for q b x
    using store(3) that digests by (simp add: addressed_def disk_api_def staged_at_def)
  have "if \<exists>b. staged_at cs bs q b
        then \<exists>b x. staged_at cs bs q b \<and> map_of (fs_files fs') q = Some (x, now) \<and> h x = bd_digest b
        else map_of (fs_files fs') q = map_of (fs_files fs) q" if ok: "r = None" for q
  proof (cases "\<exists>b. staged_at cs bs q b")
    case True
    have "staged_files (\<lambda>k x. disk_Get fl' fs d k blobData = Inr (Some x)) now cs bs fs fs'" using M ok by blast
    from spec [OF this [unfolded staged_files_def], of q]
    obtain b x where "staged_at cs bs q b" "map_of (fs_files fs') q = Some (x, now)" "disk_Get fl' fs d (bd_digest b) blobData = Inr (Some x)"
      unfolding if_P [OF True] by blast
    then show ?thesis using hash True by auto
  next
    case False
    have "staged_files (\<lambda>k x. disk_Get fl' fs d k blobData = Inr (Some x)) now cs bs fs fs'" using M ok by blast
    from spec [OF this [unfolded staged_files_def], of q] show ?thesis unfolding if_not_P [OF False] by simp
  qed
  moreover have "\<forall>q. \<not> below cs q \<longrightarrow> map_of (fs_files fs') q = map_of (fs_files fs) q \<and> is_dir fs' q = is_dir fs q"
    using M by (simp add: outside_same_def)
  ultimately show ?thesis by blast
qed

definition stage_fs :: FS where
  "stage_fs = fst (disk_Put noFaults id 1 (empty_fs\<lparr> fs_dirs := [[''s'']] \<rparr>) src_view (replicate 32 CHR ''1'') blobData ''hi'')"

definition stage_blob :: "string \<Rightarrow> BlobDesc" where
  "stage_blob p = \<lparr> bd_digest = replicate 32 CHR ''1'', bd_path = p, bd_size = 2 \<rparr>"

lemma stage_runs:
  "snd (materializeCASBlobs noFaults 2 (disk_api noFaults id 1) stage_fs ''/s'' src_view [stage_blob ''a/../b/c.h'', stage_blob ''/usr/x.h'']) = None"
  by code_simp

theorem staging_confined_witness:
  "let fs' = fst (materializeCASBlobs noFaults 2 (disk_api noFaults id 1) stage_fs ''/s'' src_view [stage_blob ''a/../b/c.h'', stage_blob ''/usr/x.h''])
   in (\<exists>x. map_of (fs_files fs') [''s'', ''b'', ''c.h''] = Some (x, 2) \<and> toy_hash x = replicate 32 CHR ''1'') \<and>
      map_of (fs_files fs') [''usr'', ''x.h''] = map_of (fs_files stage_fs) [''usr'', ''x.h'']"
proof -
  let ?bs = "[stage_blob ''a/../b/c.h'', stage_blob ''/usr/x.h'']"
  let ?run = "materializeCASBlobs noFaults 2 (disk_api noFaults id 1) stage_fs ''/s'' src_view ?bs"
  have view: "disk_usable noFaults src_view" using disk.ns_usable [OF src_rooted, of id 1 "''acme''" src_view] src_ns by (simp add: disk_api_def)
  have "addressed (disk_api noFaults id 1) toy_hash (empty_fs\<lparr> fs_dirs := [[''s'']] \<rparr>) src_view"
    by (auto simp: addressed_def disk_api_def disk_Get_def ReadFile_def through_file_def is_file_def empty_fs_def Let_def is_dir_def split: option.splits)
  from disk.put_addressed [OF view this, of "replicate 32 CHR ''1''" "''hi''"]
  have addr: "addressed (disk_api noFaults id 1) toy_hash stage_fs src_view" by (simp add: stage_fs_def disk_api_def toy_hash_def)
  have dirs: "\<forall>q. below q [''s''] \<longrightarrow> is_dir stage_fs q"
  proof (intro allI impI)
    fix q :: "string list"
    assume "below q [''s'']"
    then have "q = [] \<or> q = [''s'']" by (auto simp: below_iff append_eq_Cons_conv Cons_eq_append_conv)
    moreover have "is_dir stage_fs [''s'']" by code_simp
    ultimately show "is_dir stage_fs q" by (auto simp: is_dir_def)
  qed
  have apart: "unrelated (fpath (ds_dir src_view)) [''s'']" by code_simp
  have run: "materializeCASBlobs noFaults 2 (disk_api noFaults id 1) stage_fs (abs_path [''s'']) src_view ?bs = (fst ?run, None)"
    using stage_runs by (simp add: prod_eq_iff)
  have good: "good_comps [''s'']" "\<forall>b \<in> set ?bs. bd_digest b \<noteq> []" by (simp_all add: good_comp_def stage_blob_def)
  note S = staging_confined [OF good(1) dirs view apart addr good(2) run, THEN conjunct2, THEN mp, OF refl]
  have comps: "stage_comps ''a/../b/c.h'' = [''b'', ''c.h'']" by code_simp
  have at: "staged_at [''s''] ?bs q b \<longleftrightarrow> b = stage_blob ''a/../b/c.h'' \<and> q = [''s'', ''b'', ''c.h'']" for q b
    by (auto simp: staged_at_def stage_blob_def IsAbs_def comps)
  show ?thesis using S [THEN spec, of "[''s'', ''b'', ''c.h'']"] S [THEN spec, of "[''usr'', ''x.h'']"]
    unfolding at by (simp add: Let_def stage_blob_def)
qed

end
