(* ===== verification/Spec2Isabelle.thy ===== *)
theory Spec2Isabelle
  imports Squash_Props Compiler_Props Cache_Props Runtime_Props Worker_Props
begin

text \<open>
  A verification development of hpcc, a distributed C and C++ compile cache written in Go.

  \<^bold>\<open>The program.\<close>  A client wraps the compiler.  It parses the command line, computes a cache key from the
  flags, the compiler and the sources, and looks the key up in its cache stores.  On a miss it asks the
  scheduler for a worker, sends the sources the worker does not have, and the worker compiles them in a
  container of the tenant.  The container boots from a squashfs image the worker writes itself.

  \<^bold>\<open>Theories and sources.\<close>  Each theory states in its first block what it holds.
  \<^item> \<^verbatim>\<open>Go_Prelude\<close>, \<^verbatim>\<open>Go_Path\<close>, \<^verbatim>\<open>Go_Text\<close>, \<^verbatim>\<open>Go_FS\<close>: the parts of Go's library the sources use (strings, byte
    order, paths, decimal and hex numbers, a file system with injected faults) and the lemmas all
    components share.
  \<^item> \<^verbatim>\<open>Squash_Meta\<close>, \<^verbatim>\<open>Squash_Tables\<close>, \<^verbatim>\<open>Squash_Inode\<close>, \<^verbatim>\<open>Squash_Writer\<close>, \<^verbatim>\<open>Squash_Close\<close>, \<^verbatim>\<open>Squash_Demo\<close>, \<^verbatim>\<open>Squash_Props\<close>:
    package \<^verbatim>\<open>squashfs\<close>.  The writer's state is a record with the output written so far; \<^verbatim>\<open>Create\<close> calls are
    functions on it, \<^verbatim>\<open>Close\<close> runs the passes of \<^verbatim>\<open>writer.go\<close> in order.
  \<^item> \<^verbatim>\<open>Compiler_Args\<close>, \<^verbatim>\<open>Compiler_Rewrite\<close>, \<^verbatim>\<open>Compiler_Manifest\<close>, \<^verbatim>\<open>Compiler_Driver\<close>, \<^verbatim>\<open>Compiler_Props\<close>: package
    \<^verbatim>\<open>internal/compiler\<close>.  Both argument grammars and parsers, the rewriting of arguments for a remote
    compile, source-closure manifests, and the drivers with the cache key.
  \<^item> \<^verbatim>\<open>Cache_Store\<close>, \<^verbatim>\<open>Cache_Evict\<close>, \<^verbatim>\<open>Cache_Compile\<close>, \<^verbatim>\<open>Cache_Live\<close>, \<^verbatim>\<open>Cache_Props\<close>: \<^verbatim>\<open>internal/cache/store/disk.go\<close> and
    \<^verbatim>\<open>internal/cache/compile.go\<close>.  The locale \<^verbatim>\<open>blob_store\<close> states what a client of a store relies on; the disk
    store is its interpretation, and the compile cache and the worker's blob streams are its clients.
  \<^item> \<^verbatim>\<open>Runtime_Pool\<close>, \<^verbatim>\<open>Runtime_Props\<close>: \<^verbatim>\<open>internal/worker/runtime/pool.go\<close>.  Each critical section is a function on
    the pool; \<^verbatim>\<open>pool_step\<close> interleaves the sections of concurrent callers, the reaper and \<^verbatim>\<open>Close\<close>.
  \<^item> \<^verbatim>\<open>Sched_Core\<close>, \<^verbatim>\<open>Sched_Props\<close>: \<^verbatim>\<open>internal/scheduler\<close>.  Each RPC handler is a function on the scheduler's state;
    \<^verbatim>\<open>sched_run\<close> are its runs, with the authentications that succeeded.
  \<^item> \<^verbatim>\<open>Worker_CAS\<close>, \<^verbatim>\<open>Worker_Blobs\<close>, \<^verbatim>\<open>Worker_Stage\<close>, \<^verbatim>\<open>Worker_Props\<close>: the token checks of \<^verbatim>\<open>internal/worker/worker.go\<close>, the
    blob streams of \<^verbatim>\<open>cas.go\<close> and the staging of \<^verbatim>\<open>staging.go\<close>.

  \<^bold>\<open>What is shown.\<close>
  \<^item> squashfs: the writer's entries refine a tree of nodes; metadata records and the two-level id table read
    back what was written; the superblock and every table start where \<^verbatim>\<open>Close\<close> says; file data blocks
    reassemble to the content; paths are canonical; widths do not overflow silently.
  \<^item> compiler: the longest flag of the table matches; arguments rewritten for a preprocessed compile parse to the
    rewritten invocation; path relocation replaces exactly the occurrences at a boundary; the assembler
    include walk ends and is complete; manifests depend neither on the checkout directory nor on order;
    equal cache keys mean equal inputs or a hash collision.
  \<^item> cache: a stored result is returned; tenants do not see each other; an interrupted store leaves a miss or
    the whole entry; without faults a store completes; eviction ends within the limit, oldest first.
  \<^item> pool: a container in use is never stopped; the counts are the containers that run; after \<^verbatim>\<open>Close\<close> none
    runs; reuse stays within tenant, image, lifetime and slots.
  \<^item> scheduler: routes are granted only to sessions authenticated for the tenant; a worker of least score is
    chosen; the reaper removes exactly the silent workers; a validated configuration serves its tenants.
  \<^item> worker: a token of the scheduler is accepted exactly for what it was granted; stored blobs hash to their
    keys whatever is sent; a well-formed upload is accounted exactly; staging stays in its directory.

  \<^bold>\<open>Conventions.\<close>  Strings and byte slices are character lists, machine integers are words where their width
  matters, an error return is \<open>Inl\<close> or an option.  A Go map is a map or an association list; where the
  program ranges over one, the order is arbitrary.  \<^verbatim>\<open>sort.Slice\<close>, which is not stable, is an argument.  The
  clock and random tokens are arguments.  Code outside the repository (zlib, BLAKE3, JWT, the compiler
  itself, JSON) is an argument, with what is assumed of it as a hypothesis of the theorem.  Theorems about
  hashes do not assume that there are no collisions.

  \<^bold>\<open>Bounds and fuel.\<close>  The only loops of the sources without a structural measure are the search for the
  project root and the assembler include walk; both take a fuel computed from their input (the length of
  the path, the number of files that can be reached), and the theorems show that it is never exhausted.
  Images and tables are bounded by the widths of the format, checked where the code checks them.

  \<^bold>\<open>Not modelled.\<close>  Drivers of external systems, whose behaviour is not in the repository: the Firecracker,
  hcsshim and development runtimes, image pulls and containerd, the S3 store, OAuth and secret stores, the
  agent and the pause process inside the virtual machine, the client daemon's sockets and streams, the
  command line, configuration files, metrics, logs, traces and benchmarks; and generated code.  The \<^verbatim>\<open>Compile\<close>
  handler of the worker, which calls the modelled parts in turn around a container, is not modelled
  as a whole.  Interleavings are modelled for the pool; the handlers of the scheduler and of the worker are
  single steps, and concurrent writers of one cache entry, which the code merges, run one at a time.
\<close>

end
